(* ===== verification/ETQ_Prelude.thy ===== *)
theory ETQ_Prelude
  imports Main "HOL-Library.Product_Lexorder"
begin

section \<open>Prelude: rows, keys and counts\<close>

text \<open>
  What the components share and the program does not name: a table as the list of its rows in
  insertion order, the three SQL shapes the store uses on one (look a row up by its key, change the
  rows a condition selects, count the rows a condition selects), and the two orders in which a
  query hands rows back.  The lemmas are about lists only; the theories of the store instantiate
  them with the five tables of the schema.  \<open>rows\<close> collects the rewrite rules that push a lookup
  or a count through an insertion or an update.
\<close>

named_theorems rows \<open>lookups and counts through insertions and updates\<close>

type_synonym bytes = string

definition find_row :: "('r \<Rightarrow> string) \<Rightarrow> string \<Rightarrow> 'r list \<Rightarrow> 'r option" where
  "find_row key k rs = find (\<lambda>r. key r = k) rs"

definition has_row :: "('r \<Rightarrow> string) \<Rightarrow> string \<Rightarrow> 'r list \<Rightarrow> bool" where
  "has_row key k rs = list_ex (\<lambda>r. key r = k) rs"

definition update_where :: "('r \<Rightarrow> bool) \<Rightarrow> ('r \<Rightarrow> 'r) \<Rightarrow> 'r list \<Rightarrow> 'r list" where
  "update_where P f rs = map (\<lambda>r. if P r then f r else r) rs"

definition count_where :: "('r \<Rightarrow> bool) \<Rightarrow> 'r list \<Rightarrow> int" where
  "count_where P rs = int (length (filter P rs))"

text \<open>
  \<open>ORDER BY\<close> with a key that decides every pair: a stable sort.  A query whose own key leaves
  ties open takes the engine's way of breaking them as a last component of the key.
\<close>

definition order_by :: "('r \<Rightarrow> 'k::linorder) \<Rightarrow> 'r list \<Rightarrow> 'r list" where
  "order_by key rs = sort_key key rs"

definition limit_offset :: "int \<Rightarrow> int \<Rightarrow> 'r list \<Rightarrow> 'r list" where
  "limit_offset lim off rs = take (nat lim) (drop (nat off) rs)"

lemma some_the: "\<not> Option.is_none x \<Longrightarrow> x = Some (the x)"
  by (cases x) simp_all

subsection \<open>Lookup by key\<close>

lemma has_row_iff [simp]: "has_row key k rs \<longleftrightarrow> k \<in> key ` set rs"
  by (auto simp: has_row_def list_ex_iff)

lemma find_row_SomeD: "find_row key k rs = Some r \<Longrightarrow> r \<in> set rs \<and> key r = k"
  by (auto simp: find_row_def find_Some_iff)

lemma find_row_None_iff: "find_row key k rs = None \<longleftrightarrow> k \<notin> key ` set rs"
  by (auto simp: find_row_def find_None_iff)

lemma find_row_Nil [simp]: "find_row key k [] = None"
  by (simp add: find_row_def)

lemma find_row_Cons [simp]:
  "find_row key k (r # rs) = (if key r = k then Some r else find_row key k rs)"
  by (simp add: find_row_def)

lemma find_row_append [rows]:
  "find_row key k (xs @ ys) = (case find_row key k xs of Some r \<Rightarrow> Some r | None \<Rightarrow> find_row key k ys)"
  by (induction xs) (auto split: option.split)

text \<open>With distinct keys a row is found under its own key, and no other row is.\<close>

lemma find_row_unique:
  assumes "distinct (map key rs)"
  shows "find_row key k rs = Some r \<longleftrightarrow> r \<in> set rs \<and> key r = k"
  using assms by (induction rs) (auto simp: image_iff)

lemma distinct_keys_eq:
  "distinct (map key rs) \<Longrightarrow> r \<in> set rs \<Longrightarrow> r' \<in> set rs \<Longrightarrow> key r = key r' \<Longrightarrow> r = r'"
  by (induction rs) (auto simp: image_iff)

subsection \<open>Updates\<close>

lemma update_where_Nil [simp]: "update_where P f [] = []"
  by (simp add: update_where_def)

lemma update_where_Cons [simp]:
  "update_where P f (r # rs) = (if P r then f r else r) # update_where P f rs"
  by (simp add: update_where_def)

lemma length_update_where [simp]: "length (update_where P f rs) = length rs"
  by (simp add: update_where_def)

lemma set_update_where: "set (update_where P f rs) = (\<lambda>r. if P r then f r else r) ` set rs"
  by (simp add: update_where_def)

lemma ball_update_where:
  "\<forall>r \<in> set rs. Q r \<Longrightarrow> (\<And>r. r \<in> set rs \<Longrightarrow> P r \<Longrightarrow> Q r \<Longrightarrow> Q (f r)) \<Longrightarrow>
   \<forall>r \<in> set (update_where P f rs). Q r"
  by (auto simp: set_update_where)

lemma map_update_where_frame:
  "(\<And>r. P r \<Longrightarrow> g (f r) = g r) \<Longrightarrow> map g (update_where P f rs) = map g rs"
  by (induction rs) auto

lemma image_update_where_frame:
  "(\<And>r. P r \<Longrightarrow> g (f r) = g r) \<Longrightarrow> g ` set (update_where P f rs) = g ` set rs"
  using map_update_where_frame [of P g f rs] by (metis set_map)

lemma update_where_absent [simp]: "k \<notin> key ` set rs \<Longrightarrow> update_where (\<lambda>r. key r = k) f rs = rs"
  by (induction rs) auto

lemma find_row_update_same [rows]:
  "(\<And>r. key (f r) = key r) \<Longrightarrow>
   find_row key k (update_where (\<lambda>r. key r = k) f rs) = map_option f (find_row key k rs)"
  by (induction rs) auto

lemma find_row_update_other [rows]:
  "(\<And>r. key (f r) = key r) \<Longrightarrow> k' \<noteq> k \<Longrightarrow>
   find_row key k' (update_where (\<lambda>r. key r = k) f rs) = find_row key k' rs"
  by (induction rs) auto

lemma find_row_update_where [rows]:
  "(\<And>r. key (f r) = key r) \<Longrightarrow> distinct (map key rs) \<Longrightarrow>
   find_row key k (update_where P f rs) =
     map_option (\<lambda>r. if P r then f r else r) (find_row key k rs)"
  by (induction rs) auto

subsection \<open>Counts\<close>

lemma count_where_nonneg [simp]: "0 \<le> count_where P rs"
  by (simp add: count_where_def)

lemma count_where_Nil [simp]: "count_where P [] = 0"
  by (simp add: count_where_def)

lemma count_where_Cons [simp]: "count_where P (r # rs) = of_bool (P r) + count_where P rs"
  by (simp add: count_where_def)

lemma count_where_append [simp]: "count_where P (xs @ ys) = count_where P xs + count_where P ys"
  by (simp add: count_where_def)

lemma count_where_update_frame:
  "(\<And>r. P (f r) = P r) \<Longrightarrow> count_where P (update_where Q f rs) = count_where P rs"
  by (induction rs) auto

lemma count_where_update_le:
  "(\<And>r. Q r \<Longrightarrow> P (f r) \<Longrightarrow> P r) \<Longrightarrow> count_where P (update_where Q f rs) \<le> count_where P rs"
  by (induction rs) auto

text \<open>Changing the one row under a key changes a count by what that row contributed.\<close>

lemma count_where_update_row:
  "distinct (map key rs) \<Longrightarrow> find_row key k rs = Some r \<Longrightarrow>
   count_where P (update_where (\<lambda>x. key x = k) f rs)
     = count_where P rs - of_bool (P r) + of_bool (P (f r))"
  by (induction rs) (auto split: if_splits)

lemma count_where_zero_iff: "count_where P rs = 0 \<longleftrightarrow> (\<forall>r \<in> set rs. \<not> P r)"
  by (auto simp: count_where_def filter_empty_conv)

lemma count_where_pos: "r \<in> set rs \<Longrightarrow> P r \<Longrightarrow> 1 \<le> count_where P rs"
  by (induction rs) auto

lemma count_where_mono: "(\<And>r. P r \<Longrightarrow> Q r) \<Longrightarrow> count_where P rs \<le> count_where Q rs"
  by (induction rs) auto

subsection \<open>Orders\<close>

lemma order_by_Nil [simp]: "order_by key [] = []"
  by (simp add: order_by_def)

lemma set_order_by [simp]: "set (order_by key rs) = set rs"
  by (simp add: order_by_def)

lemma sorted_order_by: "sorted (map key (order_by key rs))"
  by (simp add: order_by_def)

lemma order_by_hd_least:
  assumes "order_by key rs = r # rest" and "x \<in> set rs"
  shows "key r \<le> key x"
proof -
  from assms(2) have "x \<in> set (r # rest)" by (simp flip: assms(1))
  moreover have "sorted (map key (r # rest))" by (metis assms(1) sorted_order_by)
  ultimately show ?thesis by auto
qed

lemma order_by_Nil_iff [simp]: "order_by key rs = [] \<longleftrightarrow> rs = []"
  using set_order_by by (metis set_empty2)

subsection \<open>Tables in a database\<close>

text \<open>
  A table of the database as its users see it: a key, a way to read its rows and a way to put rows
  back.  The store's operations look rows up and change the rows under one key; the three lemmas
  say what a lookup returns afterwards.  Each of the five tables interprets the locale.
\<close>

locale db_table =
  fixes key :: "'r \<Rightarrow> string"
    and rows_of :: "'d \<Rightarrow> 'r list"
    and put :: "'r list \<Rightarrow> 'd \<Rightarrow> 'd"
  assumes rows_put [simp]: "rows_of (put rs d) = rs"
    and put_rows [simp]: "put (rows_of d) d = d"
    and put_put [simp]: "put rs (put rs' d) = put rs d"
begin

lemma find_insert:
  "k \<notin> key ` set (rows_of d) \<Longrightarrow> key r = k \<Longrightarrow>
   find_row key k (rows_of (put (rows_of d @ [r]) d)) = Some r"
  by (simp add: find_row_append find_row_None_iff [THEN iffD2])

lemma find_insert_other:
  "key r \<noteq> k \<Longrightarrow> find_row key k (rows_of (put (rows_of d @ [r]) d)) = find_row key k (rows_of d)"
  by (simp add: find_row_append split: option.split)

lemma find_update:
  "(\<And>r. key (f r) = key r) \<Longrightarrow>
   find_row key k' (rows_of (put (update_where (\<lambda>r. key r = k) f (rows_of d)) d)) =
     (if k' = k then map_option f (find_row key k (rows_of d)) else find_row key k' (rows_of d))"
  by (simp add: find_row_update_same find_row_update_other)

lemma distinct_insert:
  "distinct (map key (rows_of d)) \<Longrightarrow> key r \<notin> key ` set (rows_of d) \<Longrightarrow>
   distinct (map key (rows_of (put (rows_of d @ [r]) d)))"
  by simp

lemma distinct_update:
  "(\<And>r. key (f r) = key r) \<Longrightarrow> distinct (map key (rows_of d)) \<Longrightarrow>
   distinct (map key (rows_of (put (update_where P f (rows_of d)) d)))"
  by (simp add: map_update_where_frame)

end

end
