(* ===== verification/ETQ_Broker.thy ===== *)
theory ETQ_Broker
  imports ETQ_Prelude "HOL-Library.Sublist" "HOL-Library.Multiset"
begin

section \<open>The event broker (internal/api/broker.go)\<close>

text \<open>
  The bus between the store and the event streams: a buffered input channel, one goroutine that
  takes events from it and hands each to every subscriber, and a buffered channel per subscriber.
  Neither \<open>Emit\<close> nor \<open>fanOut\<close> ever blocks: what does not fit is dropped.

  A channel made by \<open>Subscribe\<close> is a number, new each time.  The state also carries histories the
  code does not keep: the events emitted and fanned out, how many of them the input refused and each
  subscriber's buffer refused, what each subscriber has taken, and where in the fan-out it joined.
\<close>

definition brokerInputBuf :: nat where "brokerInputBuf = 256"

definition subBufSize :: nat where "subBufSize = 64"

record 'e broker =
  bk_input :: "'e list"
  bk_subs :: "nat list"
  bk_buf :: "nat \<Rightarrow> 'e list"
  bk_fresh :: nat
  bk_stopped :: bool
  bk_emitted :: "'e list"
  bk_refused :: nat
  bk_fanned :: "'e list"
  bk_lost :: "nat \<Rightarrow> nat"
  bk_taken :: "nat \<Rightarrow> 'e list"
  bk_joined :: "nat \<Rightarrow> nat"

definition NewBroker :: "'e broker" where
  "NewBroker = \<lparr>bk_input = [], bk_subs = [], bk_buf = (\<lambda>_. []), bk_fresh = 0, bk_stopped = False,
     bk_emitted = [], bk_refused = 0, bk_fanned = [], bk_lost = (\<lambda>_. 0), bk_taken = (\<lambda>_. []),
     bk_joined = (\<lambda>_. 0)\<rparr>"

definition Emit :: "'e \<Rightarrow> 'e broker \<Rightarrow> 'e broker" where
  "Emit e b =
     (if length (bk_input b) < brokerInputBuf
      then b\<lparr>bk_input := bk_input b @ [e], bk_emitted := bk_emitted b @ [e]\<rparr>
      else b\<lparr>bk_refused := Suc (bk_refused b), bk_emitted := bk_emitted b @ [e]\<rparr>)"

definition Subscribe :: "'e broker \<Rightarrow> nat \<times> 'e broker" where
  "Subscribe b =
     (bk_fresh b,
      b\<lparr>bk_subs := bk_subs b @ [bk_fresh b], bk_fresh := Suc (bk_fresh b),
        bk_joined := (bk_joined b)(bk_fresh b := length (bk_fanned b))\<rparr>)"

definition Unsubscribe :: "nat \<Rightarrow> 'e broker \<Rightarrow> 'e broker" where
  "Unsubscribe i b = b\<lparr>bk_subs := removeAll i (bk_subs b)\<rparr>"

text \<open>One case of the select in \<open>fanOut\<close>, and \<open>fanOut\<close> over the subscribers in any order.\<close>

definition offer :: "'e \<Rightarrow> nat \<Rightarrow> 'e broker \<Rightarrow> 'e broker" where
  "offer e i b =
     (if length (bk_buf b i) < subBufSize
      then b\<lparr>bk_buf := (bk_buf b)(i := bk_buf b i @ [e])\<rparr>
      else b\<lparr>bk_lost := (bk_lost b)(i := Suc (bk_lost b i))\<rparr>)"

definition fanOut :: "'e \<Rightarrow> nat list \<Rightarrow> 'e broker \<Rightarrow> 'e broker" where
  "fanOut e order b = fold (offer e) order b"

datatype 'e broker_action =
  EmitEv 'e | Join | Leave nat | RunNext "nat list" | RunEnd | TakeEv nat

fun broker_act :: "'e broker_action \<Rightarrow> 'e broker \<Rightarrow> 'e broker option" where
  "broker_act (EmitEv e) b = Some (Emit e b)"
| "broker_act Join b = Some (snd (Subscribe b))"
| "broker_act (Leave i) b = Some (Unsubscribe i b)"
| "broker_act (RunNext order) b =
     (case bk_input b of
        e # es \<Rightarrow>
          if \<not> bk_stopped b \<and> mset order = mset (bk_subs b)
          then Some (fanOut e order (b\<lparr>bk_input := es, bk_fanned := bk_fanned b @ [e]\<rparr>))
          else None
      | [] \<Rightarrow> None)"
| "broker_act RunEnd b = Some (b\<lparr>bk_stopped := True\<rparr>)"
| "broker_act (TakeEv i) b =
     (case bk_buf b i of
        e # es \<Rightarrow> Some (b\<lparr>bk_buf := (bk_buf b)(i := es), bk_taken := (bk_taken b)(i := bk_taken b i @ [e])\<rparr>)
      | [] \<Rightarrow> None)"

fun broker_run :: "'e broker_action list \<Rightarrow> 'e broker \<Rightarrow> 'e broker option" where
  "broker_run [] b = Some b"
| "broker_run (a # as) b = (case broker_act a b of None \<Rightarrow> None | Some b' \<Rightarrow> broker_run as b')"

text \<open>An example: a subscriber joins, two events are emitted and fanned out, it takes one.\<close>

definition demo_feed :: "string broker_action list" where
  "demo_feed = [Join, EmitEv ''a'', EmitEv ''b'', RunNext [0], TakeEv 0, RunNext [0]]"

subsection \<open>Fan-out\<close>

lemma offer_fields [simp]:
  "bk_input (offer e i b) = bk_input b" "bk_subs (offer e i b) = bk_subs b"
  "bk_fresh (offer e i b) = bk_fresh b" "bk_stopped (offer e i b) = bk_stopped b"
  "bk_emitted (offer e i b) = bk_emitted b" "bk_refused (offer e i b) = bk_refused b"
  "bk_fanned (offer e i b) = bk_fanned b" "bk_taken (offer e i b) = bk_taken b"
  "bk_joined (offer e i b) = bk_joined b"
  by (simp_all add: offer_def)

lemma Emit_fields [simp]:
  "bk_input (Emit e b) = (if length (bk_input b) < brokerInputBuf then bk_input b @ [e] else bk_input b)"
  "bk_refused (Emit e b) = (if length (bk_input b) < brokerInputBuf then bk_refused b else Suc (bk_refused b))"
  "bk_emitted (Emit e b) = bk_emitted b @ [e]"
  "bk_subs (Emit e b) = bk_subs b" "bk_buf (Emit e b) = bk_buf b" "bk_fresh (Emit e b) = bk_fresh b"
  "bk_stopped (Emit e b) = bk_stopped b" "bk_fanned (Emit e b) = bk_fanned b"
  "bk_lost (Emit e b) = bk_lost b" "bk_taken (Emit e b) = bk_taken b" "bk_joined (Emit e b) = bk_joined b"
  by (simp_all add: Emit_def)

lemma offer_commute: "offer e i (offer e j b) = offer e j (offer e i b)"
  by (cases "i = j") (auto simp: offer_def fun_upd_twist)

lemma fold_offer_fields [simp]:
  "bk_input (fold (offer e) is b) = bk_input b" "bk_subs (fold (offer e) is b) = bk_subs b"
  "bk_fresh (fold (offer e) is b) = bk_fresh b" "bk_stopped (fold (offer e) is b) = bk_stopped b"
  "bk_emitted (fold (offer e) is b) = bk_emitted b" "bk_refused (fold (offer e) is b) = bk_refused b"
  "bk_fanned (fold (offer e) is b) = bk_fanned b" "bk_taken (fold (offer e) is b) = bk_taken b"
  "bk_joined (fold (offer e) is b) = bk_joined b"
  by (induction "is" arbitrary: b) simp_all

text \<open>The order in which \<open>range\<close> visits the subscribers does not matter.\<close>

lemma fanOut_order: "mset xs = mset ys \<Longrightarrow> fanOut e xs b = fanOut e ys b"
  unfolding fanOut_def by (rule fold_multiset_equiv [THEN fun_cong]) (auto simp: offer_commute)

lemma fanOut_buf:
  "distinct is \<Longrightarrow> bk_buf (fold (offer e) is b) i =
     (if i \<in> set is \<and> length (bk_buf b i) < subBufSize then bk_buf b i @ [e] else bk_buf b i)"
  by (induction "is" arbitrary: b) (auto simp: offer_def)

lemma fanOut_lost:
  "distinct is \<Longrightarrow> bk_lost (fold (offer e) is b) i =
     (if i \<in> set is \<and> \<not> length (bk_buf b i) < subBufSize then Suc (bk_lost b i) else bk_lost b i)"
  by (induction "is" arbitrary: b) (auto simp: offer_def)

subsection \<open>The invariant\<close>

definition sub_inv :: "'e broker \<Rightarrow> nat \<Rightarrow> bool" where
  "sub_inv b i \<longleftrightarrow>
     length (bk_buf b i) \<le> subBufSize \<and> bk_joined b i \<le> length (bk_fanned b) \<and>
     (bk_fresh b \<le> i \<longrightarrow> bk_taken b i @ bk_buf b i = [] \<and> bk_lost b i = 0 \<and> i \<notin> set (bk_subs b)) \<and>
     (i < bk_fresh b \<longrightarrow> subseq (bk_taken b i @ bk_buf b i) (drop (bk_joined b i) (bk_fanned b))) \<and>
     (i \<in> set (bk_subs b) \<longrightarrow>
        length (drop (bk_joined b i) (bk_fanned b)) = length (bk_taken b i @ bk_buf b i) + bk_lost b i)"

definition broker_inv :: "'e broker \<Rightarrow> bool" where
  "broker_inv b \<longleftrightarrow>
     length (bk_input b) \<le> brokerInputBuf \<and> distinct (bk_subs b) \<and>
     subseq (bk_fanned b @ bk_input b) (bk_emitted b) \<and>
     length (bk_emitted b) = length (bk_fanned b @ bk_input b) + bk_refused b \<and>
     (\<forall>i. sub_inv b i)"

lemma subseq_snoc: "subseq (xs @ ys) zs \<Longrightarrow> subseq (xs @ ys @ [e]) (zs @ [e])"
  using list_emb_append_mono [of "(=)" "xs @ ys" zs "[e]" "[e]"] by simp

lemma subseq_later: "subseq xs zs \<Longrightarrow> subseq xs (zs @ [e])"
  by (rule list_emb_prefix)

lemma sub_inv_run:
  assumes "sub_inv b i" and "distinct order" and "set order = set (bk_subs b)"
  shows "sub_inv (fanOut e order (b\<lparr>bk_input := es, bk_fanned := bk_fanned b @ [e]\<rparr>)) i"
  using assms
  by (auto simp: sub_inv_def fanOut_def fanOut_buf fanOut_lost subseq_snoc subseq_later)

text \<open>A step of the fan-out goroutine, taken apart.\<close>

lemma RunNext_cases:
  assumes "broker_act (RunNext order) b = Some b'" and "distinct (bk_subs b)"
  obtains e es where "bk_input b = e # es" and "distinct order" and "set order = set (bk_subs b)"
    and "b' = fanOut e order (b\<lparr>bk_input := es, bk_fanned := bk_fanned b @ [e]\<rparr>)"
  using assms mset_eq_imp_distinct_iff [of order "bk_subs b"] mset_eq_setD [of order "bk_subs b"]
  by (auto split: list.splits if_splits)

lemma sub_inv_act:
  assumes "sub_inv b i" and "broker_act a b = Some b'" and "distinct (bk_subs b)"
  shows "sub_inv b' i"
proof (cases a)
  case (RunNext order)
  with assms(2,3) show ?thesis
    by (auto elim!: RunNext_cases intro: sub_inv_run [OF assms(1)] simp del: broker_act.simps)
next
  case (TakeEv j)
  with assms(1,2) show ?thesis by (cases "i = j") (auto simp: sub_inv_def split: list.splits)
qed (use assms(1,2) in \<open>auto simp: sub_inv_def Unsubscribe_def Subscribe_def\<close>)

lemma broker_inv_act:
  assumes "broker_inv b" and "broker_act a b = Some b'"
  shows "broker_inv b'"
proof -
  have d: "distinct (bk_subs b)" using assms(1) by (simp add: broker_inv_def)
  then have subs: "sub_inv b i" "sub_inv b' i" for i
    using assms sub_inv_act [OF _ assms(2)] by (simp_all add: broker_inv_def)
  show ?thesis
  proof (cases a)
    case (RunNext order)
    with assms(2) d obtain e es where "bk_input b = e # es"
        "b' = fanOut e order (b\<lparr>bk_input := es, bk_fanned := bk_fanned b @ [e]\<rparr>)"
      by (auto elim!: RunNext_cases simp del: broker_act.simps)
    then show ?thesis using assms(1) subs(2) by (simp add: broker_inv_def fanOut_def)
  next
    case (EmitEv e)
    then show ?thesis using assms subs(2)
      by (auto simp: broker_inv_def subseq_snoc subseq_later)
  next
    case Join
    have "bk_fresh b \<notin> set (bk_subs b)" using subs(1) [of "bk_fresh b"] by (simp add: sub_inv_def)
    with Join show ?thesis using assms subs(2) by (auto simp: broker_inv_def Subscribe_def)
  next
    case (Leave i)
    then show ?thesis using assms subs(2) by (auto simp: broker_inv_def Unsubscribe_def distinct_removeAll)
  next
    case RunEnd
    then show ?thesis using assms subs(2) by (auto simp: broker_inv_def)
  next
    case (TakeEv j)
    then show ?thesis using assms subs(2) by (auto simp: broker_inv_def split: list.splits)
  qed
qed

lemma broker_inv_run: "broker_inv b \<Longrightarrow> broker_run as b = Some b' \<Longrightarrow> broker_inv b'"
  by (induction as arbitrary: b) (auto split: option.splits intro: broker_inv_act)

lemma broker_inv_new: "broker_inv NewBroker"
  by (simp add: broker_inv_def NewBroker_def sub_inv_def)

text \<open>A channel that is not subscribed, and was made before, is never subscribed again nor filled.\<close>

lemma unsubscribed_act:
  assumes "broker_act a b = Some b'" and "i \<notin> set (bk_subs b)" and "i < bk_fresh b" and "distinct (bk_subs b)"
  shows "i \<notin> set (bk_subs b') \<and> i < bk_fresh b' \<and>
    bk_taken b' i @ bk_buf b' i = bk_taken b i @ bk_buf b i"
proof (cases a)
  case (RunNext order)
  with assms(1,4) obtain e es where "set order = set (bk_subs b)" "distinct order"
      "b' = fanOut e order (b\<lparr>bk_input := es, bk_fanned := bk_fanned b @ [e]\<rparr>)"
    by (auto elim!: RunNext_cases simp del: broker_act.simps)
  with assms(2,3) show ?thesis by (simp add: fanOut_def fanOut_buf)
next
  case (TakeEv j)
  with assms show ?thesis by (auto split: list.splits)
qed (use assms in \<open>auto simp: Subscribe_def Unsubscribe_def\<close>)

lemma unsubscribed_run:
  "broker_run as b = Some b' \<Longrightarrow> broker_inv b \<Longrightarrow> i \<notin> set (bk_subs b) \<Longrightarrow> i < bk_fresh b \<Longrightarrow>
     bk_taken b' i @ bk_buf b' i = bk_taken b i @ bk_buf b i"
proof (induction as arbitrary: b)
  case (Cons a as)
  then obtain b1 where b1: "broker_act a b = Some b1" "broker_run as b1 = Some b'"
    by (auto split: option.splits)
  with Cons.prems unsubscribed_act [OF b1(1), of i] Cons.IH [OF b1(2) broker_inv_act [OF Cons.prems(2) b1(1)]]
  show ?case by (simp add: broker_inv_def)
qed simp

subsection \<open>What subscribers get\<close>

text \<open>C33: Whatever order the goroutines run in, a subscriber gets a subsequence of the emitted events, in
  order and none twice, from those fanned out since it joined; its buffer and the input stay within their
  bounds; one that stays subscribed and whose buffer never was full at a fan-out gets every event fanned
  out since it joined, and while the input never was full every emitted event is fanned out or about to be.\<close>

theorem broker_delivers:
  assumes "broker_run acts NewBroker = Some b"
  shows "length (bk_input b) \<le> 256 \<and> length (bk_buf b i) \<le> 64 \<and>
    subseq (bk_taken b i @ bk_buf b i) (drop (bk_joined b i) (bk_fanned b)) \<and>
    subseq (bk_fanned b @ bk_input b) (bk_emitted b) \<and>
    (i \<in> set (bk_subs b) \<and> bk_lost b i = 0 \<longrightarrow> bk_taken b i @ bk_buf b i = drop (bk_joined b i) (bk_fanned b)) \<and>
    (bk_refused b = 0 \<longrightarrow> bk_fanned b @ bk_input b = bk_emitted b)"
proof -
  note inv = broker_inv_run [OF broker_inv_new assms]
  then have sub: "sub_inv b i" by (simp add: broker_inv_def)
  have seq: "subseq (bk_taken b i @ bk_buf b i) (drop (bk_joined b i) (bk_fanned b))"
    using sub by (cases "i < bk_fresh b") (auto simp: sub_inv_def)
  moreover have "bk_taken b i @ bk_buf b i = drop (bk_joined b i) (bk_fanned b)"
    if "i \<in> set (bk_subs b)" "bk_lost b i = 0"
    using sub that by (intro subseq_same_length [OF seq]) (simp add: sub_inv_def)
  moreover have "bk_fanned b @ bk_input b = bk_emitted b" if "bk_refused b = 0"
    using inv that by (intro subseq_same_length) (simp_all add: broker_inv_def)
  ultimately show ?thesis
    using inv sub by (simp add: broker_inv_def sub_inv_def brokerInputBuf_def subBufSize_def)
qed

lemma broker_delivers_witness:
  "\<exists>b. broker_run demo_feed NewBroker = Some b \<and> 0 \<in> set (bk_subs b) \<and>
     bk_taken b 0 @ bk_buf b 0 = [''a'', ''b'']"
proof -
  define b where "b = the (broker_run demo_feed NewBroker)"
  have run: "broker_run demo_feed NewBroker = Some b" unfolding b_def by (rule some_the) code_simp
  have "0 \<in> set (bk_subs b)" "bk_lost b 0 = 0" "bk_joined b 0 = 0" "bk_fanned b = [''a'', ''b'']"
    unfolding b_def by code_simp+
  with run broker_delivers [OF run, of 0] show ?thesis by simp
qed

text \<open>After Unsubscribe nothing more is delivered to the channel: whatever follows, what its
  subscriber took and can still take is what was there.\<close>

theorem unsubscribe_ends:
  assumes "broker_run acts NewBroker = Some b" and "i < bk_fresh b"
    and "broker_run acts' (Unsubscribe i b) = Some b'"
  shows "bk_taken b' i @ bk_buf b' i = bk_taken b i @ bk_buf b i"
proof -
  have "broker_inv (Unsubscribe i b)"
    using broker_inv_act [of b "Leave i"] broker_inv_run [OF broker_inv_new assms(1)] by simp
  from unsubscribed_run [OF assms(3) this] assms(2) show ?thesis by (simp add: Unsubscribe_def)
qed

lemma unsubscribe_ends_witness:
  "\<exists>b b'. broker_run demo_feed NewBroker = Some b \<and>
     broker_run [EmitEv ''c'', RunNext [], TakeEv 0] (Unsubscribe 0 b) = Some b' \<and>
     bk_taken b' 0 @ bk_buf b' 0 = bk_taken b 0 @ bk_buf b 0"
proof -
  define b where "b = the (broker_run demo_feed NewBroker)"
  define b' where "b' = the (broker_run [EmitEv ''c'', RunNext [], TakeEv 0] (Unsubscribe 0 b))"
  have run: "broker_run demo_feed NewBroker = Some b" unfolding b_def by (rule some_the) code_simp
  have run': "broker_run [EmitEv ''c'', RunNext [], TakeEv 0] (Unsubscribe 0 b) = Some b'"
    unfolding b'_def b_def by (rule some_the) code_simp
  have "0 < bk_fresh b" unfolding b_def by code_simp
  from unsubscribe_ends [OF run this run'] run run' show ?thesis by blast
qed

end
