(* ===== verification/ETQ_Models.thy ===== *)
theory ETQ_Models
  imports ETQ_Prelude
begin

section \<open>The data model (internal/store/models.go, id.go, migrations)\<close>

text \<open>
  The structs of models.go as records, its string enums as datatypes with the strings they stand
  for, the error values of the store, and the time conversions of id.go.

  A \<open>time.Time\<close> is the number of nanoseconds since the Unix epoch in UTC (\<open>gotime\<close>).  A DATETIME
  column holds the text \<open>2006-01-02 15:04:05\<close>, which has no fraction of a second; the model keeps
  the instant the text names, in whole seconds (\<open>dbtime\<close>).  For four-digit years the order of the
  texts, which is what SQL compares, is the order of these numbers.

  A record of a table row and the Go struct scanned from it have the same fields, so one record
  serves both; in a row the time fields hold a \<open>dbtime\<close>, in a struct a \<open>gotime\<close>.
\<close>

type_synonym gotime = int
type_synonym dbtime = int

subsection \<open>Enumerations\<close>

datatype task_status =
  Queued | Running | Retrying | Succeeded | Dead | Halted | Cancelled | Superseded

fun task_status_str :: "task_status \<Rightarrow> string" where
  "task_status_str Queued = ''queued''"
| "task_status_str Running = ''running''"
| "task_status_str Retrying = ''retrying''"
| "task_status_str Succeeded = ''succeeded''"
| "task_status_str Dead = ''dead''"
| "task_status_str Halted = ''halted''"
| "task_status_str Cancelled = ''cancelled''"
| "task_status_str Superseded = ''superseded''"

datatype attempt_status = ARunning | ASucceeded | AFailed | ACancelled

datatype event_type =
  EvQueued | EvStarted | EvSucceeded | EvRetrying | EvDead | EvHalted | EvCancelled
| EvHeartbeatTimeout | EvSuperseded

fun event_type_str :: "event_type \<Rightarrow> string" where
  "event_type_str EvQueued = ''queued''"
| "event_type_str EvStarted = ''started''"
| "event_type_str EvSucceeded = ''succeeded''"
| "event_type_str EvRetrying = ''retrying''"
| "event_type_str EvDead = ''dead''"
| "event_type_str EvHalted = ''halted''"
| "event_type_str EvCancelled = ''cancelled''"
| "event_type_str EvHeartbeatTimeout = ''heartbeat_timeout''"
| "event_type_str EvSuperseded = ''superseded''"

datatype worker_status = WIdle | WBusy

text \<open>A worker's type is any string; the code names two.\<close>

definition WorkerTypeGo :: string where "WorkerTypeGo = ''go''"

definition WorkerTypePython :: string where "WorkerTypePython = ''python''"

text \<open>The eight statuses are an enumeration, so a statement about all of them evaluates.\<close>

instantiation task_status :: enum
begin

definition enum_task_status :: "task_status list" where
  "enum_task_status =
     [Queued, Running, Retrying, Succeeded, Dead, Halted, Cancelled, Superseded]"

definition enum_all_task_status :: "(task_status \<Rightarrow> bool) \<Rightarrow> bool" where
  "enum_all_task_status P \<longleftrightarrow> list_all P enum_class.enum"

definition enum_ex_task_status :: "(task_status \<Rightarrow> bool) \<Rightarrow> bool" where
  "enum_ex_task_status P \<longleftrightarrow> list_ex P enum_class.enum"

instance
proof
  show "UNIV = set (enum_class.enum :: task_status list)"
    by (auto simp: enum_task_status_def intro: task_status.exhaust)
  show "distinct (enum_class.enum :: task_status list)"
    by (simp add: enum_task_status_def)
  show "enum_class.enum_all P \<longleftrightarrow> Ball UNIV P" for P :: "task_status \<Rightarrow> bool"
    by (auto simp: enum_all_task_status_def enum_task_status_def) (metis task_status.exhaust)
  show "enum_class.enum_ex P \<longleftrightarrow> Bex UNIV P" for P :: "task_status \<Rightarrow> bool"
    by (auto simp: enum_ex_task_status_def enum_task_status_def) (metis task_status.exhaust)
qed

end

lemma task_status_str_inj: "task_status_str s = task_status_str s' \<longleftrightarrow> s = s'"
  by (cases s; cases s') simp_all

subsection \<open>Structs\<close>

text \<open>
  \<open>json.RawMessage\<close> is a byte string or nil; nil is stored as NULL and comes back as nil.  Pointer
  fields are options.
\<close>

record task =
  t_id :: string
  t_type :: string
  t_queue :: string
  t_payload :: "bytes option"
  t_status :: task_status
  t_priority :: int
  t_retry_count :: int
  t_max_retries :: int
  t_timeout_secs :: "int option"
  t_run_at :: int
  t_parent_id :: "string option"
  t_schedule_id :: "string option"
  t_created_at :: int
  t_updated_at :: int

record attempt =
  a_id :: string
  a_task_id :: string
  a_num :: int
  a_worker_id :: "string option"
  a_status :: attempt_status
  a_result :: "bytes option"
  a_error :: "string option"
  a_started_at :: "int option"
  a_finished_at :: "int option"
  a_heartbeat_at :: "int option"

text \<open>
  An event's detail is the object \<open>json.Marshal\<close> writes for a map of strings to strings and
  numbers: its members in the order of their names.
\<close>

datatype jval = JStr string | JInt int

record task_event =
  ev_id :: string
  ev_task_id :: string
  ev_event :: event_type
  ev_detail :: "(string \<times> jval) list option"
  ev_created_at :: int

record worker =
  w_id :: string
  w_type :: string
  w_task_types :: "string list"
  w_queue :: string
  w_concurrency :: int
  w_current_task_count :: int
  w_status :: worker_status
  w_started_at :: int
  w_heartbeat_at :: "int option"
  w_socket_path :: "string option"

record schedule =
  s_id :: string
  s_task_type :: string
  s_queue :: string
  s_payload :: "bytes option"
  s_cron_expr :: "string option"
  s_interval_secs :: "int option"
  s_enabled :: bool
  s_last_run_at :: "int option"
  s_next_run_at :: "int option"
  s_created_at :: int

subsection \<open>Times (id.go)\<close>

definition zero_time :: gotime where
  "zero_time = - 62135596800 * 1000000000"  \<comment> \<open>January 1, year 1, 00:00:00 UTC\<close>

definition is_zero :: "gotime \<Rightarrow> bool" where
  "is_zero t \<longleftrightarrow> t = zero_time"

definition fmtDBTime :: "gotime \<Rightarrow> dbtime" where
  "fmtDBTime t = t div 1000000000"

definition parseDBTime :: "dbtime \<Rightarrow> gotime" where
  "parseDBTime s = s * 1000000000"

definition nullTime :: "gotime option \<Rightarrow> dbtime option" where
  "nullTime t = (case t of None \<Rightarrow> None | Some x \<Rightarrow> Some (fmtDBTime x))"

definition parseNullDBTime :: "dbtime option \<Rightarrow> gotime option" where
  "parseNullDBTime s = (case s of None \<Rightarrow> None | Some x \<Rightarrow> Some (parseDBTime x))"

lemma fmt_parse_DBTime [simp]: "fmtDBTime (parseDBTime s) = s"
  by (simp add: fmtDBTime_def parseDBTime_def)

lemma parse_fmt_DBTime_le: "parseDBTime (fmtDBTime t) \<le> t"
  by (simp add: fmtDBTime_def parseDBTime_def mult.commute)

lemma parse_fmt_DBTime_gt: "t < parseDBTime (fmtDBTime t) + 1000000000"
proof -
  have "t = 1000000000 * (t div 1000000000) + t mod 1000000000" by simp
  moreover have "t mod 1000000000 < 1000000000" by simp
  ultimately show ?thesis unfolding fmtDBTime_def parseDBTime_def by linarith
qed

lemma fmtDBTime_mono: "t \<le> t' \<Longrightarrow> fmtDBTime t \<le> fmtDBTime t'"
  by (simp add: fmtDBTime_def zdiv_mono1)

lemma nullTime_parseNull [simp]: "nullTime (parseNullDBTime s) = s"
  by (simp add: nullTime_def parseNullDBTime_def split: option.split)

subsection \<open>Error values\<close>

text \<open>
  The sentinel errors of the store, the errors of the engine (a failed statement, a violated
  PRIMARY KEY or FOREIGN KEY constraint, a scan of no row), and \<open>fmt.Errorf\<close> with \<open>%w\<close>, which wraps an error under
  a message.  \<open>errors.Is\<close> looks through the wrapping.
\<close>

datatype err =
  ErrNotFound
| ErrAttemptNotRunning
| ErrInvalidTransition
| ErrStoreClosing
| ErrCtx
| ErrDriver
| ErrUnique
| ErrForeignKey
| ErrNoRows
| ErrMsg string
| Wrap string err

fun errors_is :: "err \<Rightarrow> err \<Rightarrow> bool" where
  "errors_is (Wrap m e) target \<longleftrightarrow> Wrap m e = target \<or> errors_is e target"
| "errors_is e target \<longleftrightarrow> e = target"

definition go_quote :: "string \<Rightarrow> string" where
  "go_quote s = CHR 0x22 # s @ [CHR 0x22]"  \<comment> \<open>\<open>%q\<close> of a plain ASCII word\<close>

end
