(* ===== verification/ETQ_Config.thy ===== *)
theory ETQ_Config
  imports ETQ_Models
begin

section \<open>Configuration (internal/config/config.go)\<close>

text \<open>
  The configuration record with its three kinds of execution limits, its defaults, the loading
  order (file, environment, default), its validation and the two accessors the claim uses.  The
  TOML decoder is a package of its own: what it makes of an existing file is an argument of
  \<open>Load\<close>, as are the outcome of \<open>os.Stat\<close> and the environment.  A Go map is a partial function
  together with the finite list of its keys that \<open>range\<close> visits.
\<close>

record queue_config =
  qc_limit :: int

record task_type_config =
  ttc_queue :: string
  ttc_limit :: int

record config =
  c_db_path :: string
  c_global :: int
  c_queues :: "(string \<times> queue_config) list"
  c_task_types :: "(string \<times> task_type_config) list"

definition DefaultConfigPath :: string where "DefaultConfigPath = ''erminetq.toml''"

definition DefaultGlobalLimit :: int where "DefaultGlobalLimit = 128"

definition defaults :: config where
  "defaults = \<lparr>c_db_path = [], c_global = DefaultGlobalLimit, c_queues = [], c_task_types = []\<rparr>"

definition QueueLimit :: "config \<Rightarrow> string \<Rightarrow> int" where
  "QueueLimit c q = (case map_of (c_queues c) q of Some x \<Rightarrow> qc_limit x | None \<Rightarrow> 0)"

definition TaskTypeLimit :: "config \<Rightarrow> string \<Rightarrow> int" where
  "TaskTypeLimit c t = (case map_of (c_task_types c) t of Some x \<Rightarrow> ttc_limit x | None \<Rightarrow> 0)"

text \<open>
  \<open>validate\<close> returns the first violation \<open>range\<close> meets; which one that is depends on Go's map
  order, whether there is one does not.
\<close>

datatype config_error =
  GlobalTooSmall int
| QueueLimitNegative string int
| TaskTypeLimitNegative string int
| StatFailed string
| ParseFailed string

fun validate_queues :: "(string \<times> queue_config) list \<Rightarrow> config_error option" where
  "validate_queues [] = None"
| "validate_queues ((name, q) # qs) =
     (if qc_limit q < 0 then Some (QueueLimitNegative name (qc_limit q)) else validate_queues qs)"

fun validate_types :: "(string \<times> task_type_config) list \<Rightarrow> config_error option" where
  "validate_types [] = None"
| "validate_types ((name, t) # ts) =
     (if ttc_limit t < 0 then Some (TaskTypeLimitNegative name (ttc_limit t)) else validate_types ts)"

definition validate :: "config \<Rightarrow> config_error option" where
  "validate c =
     (if c_global c < 1 then Some (GlobalTooSmall (c_global c))
      else case validate_queues (c_queues c) of
        Some e \<Rightarrow> Some e
      | None \<Rightarrow> validate_types (c_task_types c))"

datatype stat_result = StatNotExist | StatError | StatExists

text \<open>
  \<open>decode\<close> is \<open>toml.DecodeFile\<close> on the file at the path: it overwrites the fields whose keys the
  file has, or fails.
\<close>

definition Load ::
  "stat_result \<Rightarrow> (config \<Rightarrow> config option) \<Rightarrow> string \<Rightarrow> string \<Rightarrow> config_error + config" where
  "Load st decode env_db path =
     (case (case st of
              StatNotExist \<Rightarrow> Inr defaults
            | StatError \<Rightarrow> Inl (StatFailed path)
            | StatExists \<Rightarrow>
                (case decode defaults of
                   None \<Rightarrow> Inl (ParseFailed path)
                 | Some c \<Rightarrow> Inr c)) of
        Inl e \<Rightarrow> Inl e
      | Inr cfg0 \<Rightarrow>
          (let cfg1 = (if env_db \<noteq> [] then cfg0\<lparr>c_db_path := env_db\<rparr> else cfg0);
               cfg2 = (if c_db_path cfg1 = [] then cfg1\<lparr>c_db_path := ''erminetq.db''\<rparr> else cfg1)
           in case validate cfg2 of Some e \<Rightarrow> Inl e | None \<Rightarrow> Inr cfg2))"

definition ConfigFilePath :: "string \<Rightarrow> string \<Rightarrow> string" where
  "ConfigFilePath flag env_config =
     (if flag \<noteq> [] then flag else if env_config \<noteq> [] then env_config else DefaultConfigPath)"

text \<open>What validation establishes, for the limits the claim reads.\<close>

lemma validate_queues_None: "validate_queues qs = None \<longleftrightarrow> (\<forall>(n, q) \<in> set qs. 0 \<le> qc_limit q)"
  by (induction qs rule: validate_queues.induct) auto

lemma validate_types_None: "validate_types ts = None \<longleftrightarrow> (\<forall>(n, t) \<in> set ts. 0 \<le> ttc_limit t)"
  by (induction ts rule: validate_types.induct) auto

lemma validate_None:
  "validate c = None \<longleftrightarrow>
     1 \<le> c_global c \<and> (\<forall>(n, q) \<in> set (c_queues c). 0 \<le> qc_limit q) \<and>
     (\<forall>(n, t) \<in> set (c_task_types c). 0 \<le> ttc_limit t)"
  using validate_queues_None [of "c_queues c"] validate_types_None [of "c_task_types c"]
  by (auto simp: validate_def split: option.split)

lemma QueueLimit_nonneg: "validate c = None \<Longrightarrow> 0 \<le> QueueLimit c q"
  by (auto simp: validate_None QueueLimit_def split: option.split dest!: map_of_SomeD)

lemma TaskTypeLimit_nonneg: "validate c = None \<Longrightarrow> 0 \<le> TaskTypeLimit c t"
  by (auto simp: validate_None TaskTypeLimit_def split: option.split dest!: map_of_SomeD)

lemma Load_valid: "Load st decode env_db path = Inr c \<Longrightarrow> validate c = None \<and> c_db_path c \<noteq> []"
  by (auto simp: Load_def Let_def split: sum.splits option.splits if_splits)

end
