(* ===== verification/ETQ_Tx.thy ===== *)
theory ETQ_Tx
  imports ETQ_Config
begin

section \<open>The database and its transactions (internal/store/store.go)\<close>

text \<open>
  The five tables of the schema as one state, the transaction body \<open>func(*sql.Tx) error\<close> as a
  state transformer with errors, \<open>execTx\<close> (commit on success, roll back on error), \<open>write\<close> and
  \<open>emit\<close>.

  What one call takes from outside the program is its environment: the clock, the UUIDs \<open>NewID\<close>
  draws, whether the engine enforces foreign keys, how it orders rows that an \<open>ORDER BY\<close> leaves
  tied, which of the call's statements fail in the driver, and what becomes of the call's request
  in the write queue.  Every statement carries the label the source wraps its error with (or a
  name of its own where the source does not wrap), and \<open>e_fault\<close> says which labels fail.
\<close>

record db =
  d_tasks :: "task list"
  d_attempts :: "attempt list"
  d_events :: "task_event list"
  d_workers :: "worker list"
  d_schedules :: "schedule list"

definition empty_db :: db where
  "empty_db = \<lparr>d_tasks = [], d_attempts = [], d_events = [], d_workers = [], d_schedules = []\<rparr>"

interpretation tasks_tbl: db_table t_id d_tasks "\<lambda>rs d. d\<lparr>d_tasks := rs\<rparr>"
  by unfold_locales simp_all

interpretation attempts_tbl: db_table a_id d_attempts "\<lambda>rs d. d\<lparr>d_attempts := rs\<rparr>"
  by unfold_locales simp_all

interpretation events_tbl: db_table ev_id d_events "\<lambda>rs d. d\<lparr>d_events := rs\<rparr>"
  by unfold_locales simp_all

interpretation workers_tbl: db_table w_id d_workers "\<lambda>rs d. d\<lparr>d_workers := rs\<rparr>"
  by unfold_locales simp_all

interpretation schedules_tbl: db_table s_id d_schedules "\<lambda>rs d. d\<lparr>d_schedules := rs\<rparr>"
  by unfold_locales simp_all

text \<open>
  What can become of a request handed to \<open>write\<close>: it is served; the context ends before the queue
  takes it; the context ends while the caller waits for the result of a request that is then
  served all the same; the store is closing.
\<close>

datatype write_fate = Served | CtxBeforeAccept | CtxWhileWaiting | StoreClosing

record env =
  e_now :: gotime
  e_emit_now :: gotime
  e_new_id :: "nat \<Rightarrow> string"
  e_fk :: bool
  e_tie :: "string \<Rightarrow> nat"
  e_fault :: "string \<Rightarrow> bool"
  e_fate :: write_fate

subsection \<open>Transaction bodies\<close>

text \<open>
  A body works on the transaction's copy of the database.  It ends with an error or a value, and either
  way the copy is as the statements executed so far have left it: it is \<open>execTx\<close> that discards the copy
  of a body that failed.
\<close>

type_synonym 'a tx = "db \<Rightarrow> (err + 'a) \<times> db"

definition ret :: "'a \<Rightarrow> 'a tx" where
  "ret x d = (Inr x, d)"

definition fail :: "err \<Rightarrow> 'a tx" where
  "fail e d = (Inl e, d)"

definition bind_tx :: "'a tx \<Rightarrow> ('a \<Rightarrow> 'b tx) \<Rightarrow> 'b tx" where
  "bind_tx m f d = (case m d of (Inl e, d') \<Rightarrow> (Inl e, d') | (Inr x, d') \<Rightarrow> f x d')"

definition sql :: "env \<Rightarrow> string \<Rightarrow> 'a tx \<Rightarrow> 'a tx" where
  "sql env l m d = (if e_fault env l then (Inl ErrDriver, d) else m d)"

definition wrapped :: "string \<Rightarrow> 'a tx \<Rightarrow> 'a tx" where
  "wrapped l m d = (case m d of (Inl e, d') \<Rightarrow> (Inl (Wrap l e), d') | (Inr x, d') \<Rightarrow> (Inr x, d'))"

text \<open>A statement whose error the source wraps under its label.\<close>

definition sqlw :: "env \<Rightarrow> string \<Rightarrow> 'a tx \<Rightarrow> 'a tx" where
  "sqlw env l m = wrapped l (sql env l m)"

definition query :: "(db \<Rightarrow> 'a) \<Rightarrow> 'a tx" where
  "query f d = (Inr (f d), d)"

definition exec :: "(db \<Rightarrow> db) \<Rightarrow> unit tx" where
  "exec f d = (Inr (), f d)"

subsection \<open>Statements of the schema\<close>

text \<open>
  An INSERT fails on a primary key that is taken and, where foreign keys are enforced, on a
  reference to a row that does not exist (a self-reference of the new row is satisfied by it).
\<close>

definition ref_ok :: "bool \<Rightarrow> string option \<Rightarrow> string list \<Rightarrow> bool" where
  "ref_ok fk r ids \<longleftrightarrow> \<not> fk \<or> (case r of None \<Rightarrow> True | Some i \<Rightarrow> i \<in> set ids)"

definition insert_task :: "env \<Rightarrow> task \<Rightarrow> unit tx" where
  "insert_task env t d =
     (if has_row t_id (t_id t) (d_tasks d) then (Inl ErrUnique, d)
      else if \<not> ref_ok (e_fk env) (t_parent_id t) (t_id t # map t_id (d_tasks d))
        \<or> \<not> ref_ok (e_fk env) (t_schedule_id t) (map s_id (d_schedules d)) then (Inl ErrForeignKey, d)
      else (Inr (), d\<lparr>d_tasks := d_tasks d @ [t]\<rparr>))"

definition insert_attempt :: "env \<Rightarrow> attempt \<Rightarrow> unit tx" where
  "insert_attempt env a d =
     (if has_row a_id (a_id a) (d_attempts d) then (Inl ErrUnique, d)
      else if \<not> ref_ok (e_fk env) (Some (a_task_id a)) (map t_id (d_tasks d))
        \<or> \<not> ref_ok (e_fk env) (a_worker_id a) (map w_id (d_workers d)) then (Inl ErrForeignKey, d)
      else (Inr (), d\<lparr>d_attempts := d_attempts d @ [a]\<rparr>))"

definition insert_event :: "env \<Rightarrow> task_event \<Rightarrow> unit tx" where
  "insert_event env e d =
     (if has_row ev_id (ev_id e) (d_events d) then (Inl ErrUnique, d)
      else if \<not> ref_ok (e_fk env) (Some (ev_task_id e)) (map t_id (d_tasks d)) then (Inl ErrForeignKey, d)
      else (Inr (), d\<lparr>d_events := d_events d @ [e]\<rparr>))"

definition insert_worker :: "env \<Rightarrow> worker \<Rightarrow> unit tx" where
  "insert_worker env w d =
     (if has_row w_id (w_id w) (d_workers d) then (Inl ErrUnique, d)
      else (Inr (), d\<lparr>d_workers := d_workers d @ [w]\<rparr>))"

definition insert_schedule :: "env \<Rightarrow> schedule \<Rightarrow> unit tx" where
  "insert_schedule env s d =
     (if has_row s_id (s_id s) (d_schedules d) then (Inl ErrUnique, d)
      else (Inr (), d\<lparr>d_schedules := d_schedules d @ [s]\<rparr>))"

text \<open>\<open>UPDATE ... WHERE id = ?\<close> on each table.\<close>

definition upd_task :: "string \<Rightarrow> (task \<Rightarrow> task) \<Rightarrow> db \<Rightarrow> db" where
  "upd_task i f d = d\<lparr>d_tasks := update_where (\<lambda>t. t_id t = i) f (d_tasks d)\<rparr>"

definition upd_attempt :: "string \<Rightarrow> (attempt \<Rightarrow> attempt) \<Rightarrow> db \<Rightarrow> db" where
  "upd_attempt i f d = d\<lparr>d_attempts := update_where (\<lambda>a. a_id a = i) f (d_attempts d)\<rparr>"

definition upd_worker :: "string \<Rightarrow> (worker \<Rightarrow> worker) \<Rightarrow> db \<Rightarrow> db" where
  "upd_worker i f d = d\<lparr>d_workers := update_where (\<lambda>w. w_id w = i) f (d_workers d)\<rparr>"

definition upd_schedule :: "string \<Rightarrow> (schedule \<Rightarrow> schedule) \<Rightarrow> db \<Rightarrow> db" where
  "upd_schedule i f d = d\<lparr>d_schedules := update_where (\<lambda>s. s_id s = i) f (d_schedules d)\<rparr>"

subsection \<open>execTx, write, emit\<close>

record sse_event =
  sse_task_id :: string
  sse_event :: event_type
  sse_detail :: "(string \<times> jval) list option"
  sse_timestamp :: gotime

text \<open>An event as the callers of \<open>emit\<close> write it: no detail, a zero timestamp.\<close>

definition SSEEvent :: "string \<Rightarrow> event_type \<Rightarrow> sse_event" where
  "SSEEvent i ev =
     \<lparr>sse_task_id = i, sse_event = ev, sse_detail = None, sse_timestamp = zero_time\<rparr>"

definition emit :: "env \<Rightarrow> sse_event \<Rightarrow> sse_event list" where
  "emit env ev =
     [if is_zero (sse_timestamp ev) then ev\<lparr>sse_timestamp := e_emit_now env\<rparr> else ev]"

text \<open>
  \<open>Rollback\<close> drops the transaction's copy \<open>d'\<close> of the database \<open>d\<close>; a commit that fails has the same
  effect.  The code ignores the result of \<open>Rollback\<close>.
\<close>

definition rollback :: "db \<Rightarrow> db \<Rightarrow> db" where
  [simp]: "rollback d d' = d"

definition execTx :: "env \<Rightarrow> 'a tx \<Rightarrow> db \<Rightarrow> (err + 'a) \<times> db" where
  "execTx env fn d =
     (if e_fault env ''begin tx'' then (Inl (Wrap ''begin tx'' ErrDriver), d)
      else case fn d of
        (Inl e, d') \<Rightarrow> (Inl e, rollback d d')
      | (Inr x, d') \<Rightarrow> if e_fault env ''commit'' then (Inl ErrDriver, rollback d d') else (Inr x, d'))"

definition store_write :: "env \<Rightarrow> 'a tx \<Rightarrow> db \<Rightarrow> (err + 'a) \<times> db" where
  "store_write env fn d =
     (case e_fate env of
        Served \<Rightarrow> execTx env fn d
      | CtxBeforeAccept \<Rightarrow> (Inl ErrCtx, d)
      | CtxWhileWaiting \<Rightarrow> (Inl ErrCtx, snd (execTx env fn d))
      | StoreClosing \<Rightarrow> (Inl ErrStoreClosing, d))"

text \<open>A store method's result, the database afterwards and the events it handed to the sink.\<close>

type_synonym 'a outcome = "(err + 'a) \<times> db \<times> sse_event list"

abbreviation res_of :: "'a outcome \<Rightarrow> err + 'a" where "res_of r \<equiv> fst r"

abbreviation db_of :: "'a outcome \<Rightarrow> db" where "db_of r \<equiv> fst (snd r)"

abbreviation emitted :: "'a outcome \<Rightarrow> sse_event list" where "emitted r \<equiv> snd (snd r)"

text \<open>What a client of the store sees of an outcome: the events go to the sink.\<close>

definition sans_events :: "'a outcome \<Rightarrow> (err + 'a) \<times> db" where
  "sans_events r = (fst r, fst (snd r))"

lemma sans_events_pair [simp]: "sans_events (r, d, es) = (r, d)"
  by (simp add: sans_events_def)

lemma sans_events_eq [simp]: "sans_events r = (x, d') \<longleftrightarrow> (\<exists>es. r = (x, d', es))"
  by (cases r) (auto simp: sans_events_def)

text \<open>
  What the writing methods have in common, each with its own body, error text and emits: run the body through
  \<open>write\<close>; on an error return it before any emit, otherwise emit what the method emits for the body's
  value and return its result.  UpdateSchedule reads its row back after that.
\<close>

definition store_op ::
  "env \<Rightarrow> 'a tx \<Rightarrow> (err \<Rightarrow> err) \<Rightarrow> ('a \<Rightarrow> sse_event list) \<Rightarrow> ('a \<Rightarrow> 'b) \<Rightarrow> db \<Rightarrow> 'b outcome" where
  "store_op env fn on_err evs out d =
     (case store_write env fn d of
        (Inl e, d') \<Rightarrow> (Inl (on_err e), d', [])
      | (Inr x, d') \<Rightarrow> (Inr (out x), d', evs x))"

subsection \<open>Reasoning about transaction bodies\<close>

lemma ret_Inr [simp]: "ret x d = (Inr y, d') \<longleftrightarrow> y = x \<and> d' = d"
  by (auto simp: ret_def)

lemma fail_Inr [simp]: "fail e d \<noteq> (Inr r, d')"
  by (simp add: fail_def)

lemma bind_tx_Inr:
  "bind_tx m f d = (Inr y, d'') \<longleftrightarrow> (\<exists>x d'. m d = (Inr x, d') \<and> f x d' = (Inr y, d''))"
  by (auto simp: bind_tx_def split: sum.splits prod.splits)

lemma sql_Inr: "sql env l m d = (Inr r, d') \<longleftrightarrow> \<not> e_fault env l \<and> m d = (Inr r, d')"
  by (auto simp: sql_def)

lemma wrapped_Inr [simp]: "wrapped l m d = (Inr r, d') \<longleftrightarrow> m d = (Inr r, d')"
  by (auto simp: wrapped_def split: sum.splits prod.splits)

lemma sqlw_Inr: "sqlw env l m d = (Inr r, d') \<longleftrightarrow> \<not> e_fault env l \<and> m d = (Inr r, d')"
  by (simp add: sqlw_def sql_Inr)

lemma query_Inr [simp]: "query f d = (Inr x, d') \<longleftrightarrow> x = f d \<and> d' = d"
  by (auto simp: query_def)

lemma exec_Inr [simp]: "exec f d = (Inr x, d') \<longleftrightarrow> d' = f d"
  by (auto simp: exec_def)

lemma insert_task_Inr:
  "insert_task env t d = (Inr x, d') \<longleftrightarrow>
     t_id t \<notin> t_id ` set (d_tasks d) \<and>
     ref_ok (e_fk env) (t_parent_id t) (t_id t # map t_id (d_tasks d)) \<and>
     ref_ok (e_fk env) (t_schedule_id t) (map s_id (d_schedules d)) \<and>
     d' = d\<lparr>d_tasks := d_tasks d @ [t]\<rparr>"
  by (auto simp: insert_task_def)

lemma insert_attempt_Inr:
  "insert_attempt env a d = (Inr x, d') \<longleftrightarrow>
     a_id a \<notin> a_id ` set (d_attempts d) \<and>
     ref_ok (e_fk env) (Some (a_task_id a)) (map t_id (d_tasks d)) \<and>
     ref_ok (e_fk env) (a_worker_id a) (map w_id (d_workers d)) \<and>
     d' = d\<lparr>d_attempts := d_attempts d @ [a]\<rparr>"
  by (auto simp: insert_attempt_def)

lemma insert_event_Inr:
  "insert_event env e d = (Inr x, d') \<longleftrightarrow>
     ev_id e \<notin> ev_id ` set (d_events d) \<and>
     ref_ok (e_fk env) (Some (ev_task_id e)) (map t_id (d_tasks d)) \<and>
     d' = d\<lparr>d_events := d_events d @ [e]\<rparr>"
  by (auto simp: insert_event_def)

lemma insert_worker_Inr:
  "insert_worker env w d = (Inr x, d') \<longleftrightarrow>
     w_id w \<notin> w_id ` set (d_workers d) \<and> d' = d\<lparr>d_workers := d_workers d @ [w]\<rparr>"
  by (auto simp: insert_worker_def)

lemma insert_schedule_Inr:
  "insert_schedule env s d = (Inr x, d') \<longleftrightarrow>
     s_id s \<notin> s_id ` set (d_schedules d) \<and> d' = d\<lparr>d_schedules := d_schedules d @ [s]\<rparr>"
  by (auto simp: insert_schedule_def)

lemmas tx_Inr = bind_tx_Inr sql_Inr sqlw_Inr insert_task_Inr insert_attempt_Inr insert_event_Inr
  insert_worker_Inr insert_schedule_Inr

text \<open>
  A method leaves the database as it was, or as its body left it; and it returns a value only in
  the second case.
\<close>

lemma store_write_db:
  "snd (store_write env fn d) = d \<or> (\<exists>x. fn d = (Inr x, snd (store_write env fn d)))"
  by (auto simp: store_write_def execTx_def split: write_fate.splits sum.splits prod.splits)

lemma store_write_Inr:
  "store_write env fn d = (Inr x, d') \<Longrightarrow> fn d = (Inr x, d')"
  by (auto simp: store_write_def execTx_def split: write_fate.splits sum.splits prod.splits if_splits)

lemma store_op_db:
  "db_of (store_op env fn on_err evs out d) = d \<or>
   (\<exists>x. fn d = (Inr x, db_of (store_op env fn on_err evs out d)))"
  using store_write_db [of env fn d]
  by (auto simp: store_op_def split: sum.splits prod.splits)

lemma store_op_Inr:
  assumes "store_op env fn on_err evs out d = (Inr y, d', es)"
  obtains x where "fn d = (Inr x, d')" and "y = out x" and "es = evs x"
  using assms by (auto simp: store_op_def split: sum.splits prod.splits dest!: store_write_Inr)

text \<open>An invariant of the body is an invariant of the method, whatever the fate of the call.\<close>

lemma store_op_invariant:
  assumes "I d" and "\<And>x d'. fn d = (Inr x, d') \<Longrightarrow> I d'"
  shows "I (db_of (store_op env fn on_err evs out d))"
  using store_op_db [of env fn on_err evs out d] assms by metis

text \<open>
  All or nothing: a served call either commits its body whole and reports its value, or reports an
  error, changes nothing and emits nothing.
\<close>

lemma store_op_served:
  assumes "e_fate env = Served"
  shows "(\<exists>x d'. fn d = (Inr x, d') \<and>
            store_op env fn on_err evs out d = (Inr (out x), d', evs x)) \<or>
         (\<exists>e. store_op env fn on_err evs out d = (Inl e, d, []))"
  using assms
  by (auto simp: store_op_def store_write_def execTx_def split: sum.splits prod.splits if_splits)

end
