(* ===== verification/ETQ_Tasks.thy ===== *)
theory ETQ_Tasks
  imports ETQ_Tx
begin

section \<open>Creating and reading tasks (internal/store/tasks.go)\<close>

text \<open>
  \<open>CreateTask\<close> with its defaults, \<open>GetTask\<close> with the attempts and events of a task, \<open>ListTasks\<close>
  with its filter, order and page, and the scan helpers, which turn rows into structs.  The three
  queries of \<open>GetTask\<close> are separate reads, so it takes the database at each of them.
\<close>

subsection \<open>Scan helpers\<close>

definition scanTask :: "task \<Rightarrow> task" where
  "scanTask r = r\<lparr>t_run_at := parseDBTime (t_run_at r), t_created_at := parseDBTime (t_created_at r),
                 t_updated_at := parseDBTime (t_updated_at r)\<rparr>"

definition scanAttempt :: "attempt \<Rightarrow> attempt" where
  "scanAttempt r = r\<lparr>a_started_at := parseNullDBTime (a_started_at r),
                    a_finished_at := parseNullDBTime (a_finished_at r),
                    a_heartbeat_at := parseNullDBTime (a_heartbeat_at r)\<rparr>"

definition scanTaskEvent :: "task_event \<Rightarrow> task_event" where
  "scanTaskEvent r = r\<lparr>ev_created_at := parseDBTime (ev_created_at r)\<rparr>"

text \<open>The row an INSERT writes for a struct.\<close>

definition task_row :: "task \<Rightarrow> task" where
  "task_row t = t\<lparr>t_run_at := fmtDBTime (t_run_at t), t_created_at := fmtDBTime (t_created_at t),
                 t_updated_at := fmtDBTime (t_updated_at t)\<rparr>"

lemma task_row_frame [simp]:
  "t_id (task_row t) = t_id t" "t_status (task_row t) = t_status t" "t_type (task_row t) = t_type t"
  "t_queue (task_row t) = t_queue t" "t_payload (task_row t) = t_payload t"
  "t_retry_count (task_row t) = t_retry_count t" "t_max_retries (task_row t) = t_max_retries t"
  "t_parent_id (task_row t) = t_parent_id t" "t_schedule_id (task_row t) = t_schedule_id t"
  "t_priority (task_row t) = t_priority t" "t_timeout_secs (task_row t) = t_timeout_secs t"
  "t_run_at (task_row t) = fmtDBTime (t_run_at t)"
  "t_created_at (task_row t) = fmtDBTime (t_created_at t)"
  "t_updated_at (task_row t) = fmtDBTime (t_updated_at t)"
  by (simp_all add: task_row_def)

lemma scanTask_frame [simp]:
  "t_id (scanTask t) = t_id t" "t_status (scanTask t) = t_status t" "t_type (scanTask t) = t_type t"
  "t_queue (scanTask t) = t_queue t" "t_payload (scanTask t) = t_payload t"
  "t_retry_count (scanTask t) = t_retry_count t" "t_max_retries (scanTask t) = t_max_retries t"
  "t_parent_id (scanTask t) = t_parent_id t" "t_schedule_id (scanTask t) = t_schedule_id t"
  "t_priority (scanTask t) = t_priority t" "t_timeout_secs (scanTask t) = t_timeout_secs t"
  by (simp_all add: scanTask_def)

lemma task_row_scanTask [simp]: "task_row (scanTask r) = r"
  by (simp add: task_row_def scanTask_def)

subsection \<open>CreateTask\<close>

record create_task_input =
  cti_type :: string
  cti_queue :: string
  cti_payload :: "bytes option"
  cti_priority :: int
  cti_max_retries :: int
  cti_timeout_secs :: "int option"
  cti_run_at :: gotime
  cti_parent_id :: "string option"
  cti_schedule_id :: "string option"

definition new_task :: "env \<Rightarrow> create_task_input \<Rightarrow> task" where
  "new_task env i =
     (let now = e_now env in
      \<lparr>t_id = e_new_id env 0,
       t_type = cti_type i,
       t_queue = (if cti_queue i = [] then ''default'' else cti_queue i),
       t_payload = cti_payload i,
       t_status = Queued,
       t_priority = cti_priority i,
       t_retry_count = 0,
       t_max_retries = (if cti_max_retries i = 0 then 3 else cti_max_retries i),
       t_timeout_secs = cti_timeout_secs i,
       t_run_at = (if is_zero (cti_run_at i) then now else cti_run_at i),
       t_parent_id = cti_parent_id i,
       t_schedule_id = cti_schedule_id i,
       t_created_at = now,
       t_updated_at = now\<rparr>)"

definition create_task_tx :: "env \<Rightarrow> create_task_input \<Rightarrow> task tx" where
  "create_task_tx env i =
     (let t = new_task env i in
      bind_tx (sql env ''insert task'' (insert_task env (task_row t))) (\<lambda>_.
      bind_tx (sql env ''insert queued event''
                 (insert_event env
                    \<lparr>ev_id = e_new_id env 1, ev_task_id = t_id t, ev_event = EvQueued,
                     ev_detail = None, ev_created_at = fmtDBTime (e_now env)\<rparr>)) (\<lambda>_.
      ret t)))"

definition CreateTask :: "env \<Rightarrow> create_task_input \<Rightarrow> db \<Rightarrow> task outcome" where
  "CreateTask env i =
     store_op env (create_task_tx env i) (Wrap ''CreateTask'')
       (\<lambda>t. emit env (SSEEvent (t_id t) EvQueued)) (\<lambda>t. t)"

text \<open>What a committed CreateTask did to the tables.\<close>

lemma create_task_tx_D:
  assumes "create_task_tx env i d = (Inr t, d')"
  shows "t = new_task env i" and "t_id t \<notin> t_id ` set (d_tasks d)"
    and "e_new_id env 1 \<notin> ev_id ` set (d_events d)"
    and "ref_ok (e_fk env) (cti_schedule_id i) (map s_id (d_schedules d))"
    and "d' = d\<lparr>d_tasks := d_tasks d @ [task_row (new_task env i)],
               d_events := d_events d @
                 [\<lparr>ev_id = e_new_id env 1, ev_task_id = e_new_id env 0, ev_event = EvQueued,
                   ev_detail = None, ev_created_at = fmtDBTime (e_now env)\<rparr>]\<rparr>"
  using assms by (auto simp: create_task_tx_def new_task_def Let_def tx_Inr)

subsection \<open>GetTask\<close>

definition listAttemptsByTask :: "env \<Rightarrow> string \<Rightarrow> db \<Rightarrow> err + attempt list" where
  "listAttemptsByTask env i d =
     (if e_fault env ''listAttemptsByTask'' then Inl (Wrap ''listAttemptsByTask'' ErrDriver)
      else Inr (map scanAttempt
             (order_by (\<lambda>a. (a_num a, e_tie env (a_id a)))
                (filter (\<lambda>a. a_task_id a = i) (d_attempts d)))))"

definition listEventsByTask :: "env \<Rightarrow> string \<Rightarrow> db \<Rightarrow> err + task_event list" where
  "listEventsByTask env i d =
     (if e_fault env ''listEventsByTask'' then Inl (Wrap ''listEventsByTask'' ErrDriver)
      else Inr (map scanTaskEvent
             (order_by (\<lambda>e. (ev_created_at e, e_tie env (ev_id e)))
                (filter (\<lambda>e. ev_task_id e = i) (d_events d)))))"

definition GetTask ::
  "env \<Rightarrow> string \<Rightarrow> db \<Rightarrow> db \<Rightarrow> db \<Rightarrow> err + (task \<times> attempt list \<times> task_event list)" where
  "GetTask env i d1 d2 d3 =
     (if e_fault env ''GetTask'' then Inl (Wrap ''GetTask'' ErrDriver)
      else case find_row t_id i (d_tasks d1) of
        None \<Rightarrow> Inl ErrNotFound
      | Some r \<Rightarrow>
          (case listAttemptsByTask env i d2 of
             Inl e \<Rightarrow> Inl e
           | Inr as \<Rightarrow>
               (case listEventsByTask env i d3 of
                  Inl e \<Rightarrow> Inl e
                | Inr es \<Rightarrow> Inr (scanTask r, as, es))))"

subsection \<open>ListTasks\<close>

text \<open>
  The filter's status is any string: the API takes it from the query.  SQLite reads a negative
  OFFSET as none.
\<close>

record list_tasks_filter =
  ltf_status :: "string option"
  ltf_type :: "string option"
  ltf_queue :: "string option"
  ltf_limit :: int
  ltf_offset :: int

definition filter_eq :: "string option \<Rightarrow> string \<Rightarrow> bool" where
  "filter_eq f v \<longleftrightarrow> (case f of None \<Rightarrow> True | Some x \<Rightarrow> v = x)"

definition task_matches :: "list_tasks_filter \<Rightarrow> task \<Rightarrow> bool" where
  "task_matches f t \<longleftrightarrow>
     filter_eq (ltf_status f) (task_status_str (t_status t)) \<and>
     filter_eq (ltf_type f) (t_type t) \<and> filter_eq (ltf_queue f) (t_queue t)"

text \<open>\<open>ORDER BY priority DESC, created_at ASC\<close>, shared with the claim.\<close>

definition task_order :: "env \<Rightarrow> task \<Rightarrow> int \<times> int \<times> nat" where
  "task_order env t = (- t_priority t, t_created_at t, e_tie env (t_id t))"

definition ListTasks :: "env \<Rightarrow> list_tasks_filter \<Rightarrow> db \<Rightarrow> err + task list" where
  "ListTasks env f d =
     (let lim = (if ltf_limit f \<le> 0 then 50 else ltf_limit f) in
      if e_fault env ''ListTasks'' then Inl (Wrap ''ListTasks'' ErrDriver)
      else Inr (map scanTask
             (limit_offset lim (ltf_offset f)
                (order_by (task_order env) (filter (task_matches f) (d_tasks d))))))"

subsection \<open>What the operations promise\<close>

text \<open>
  The task a successful CreateTask returns, before the rounding to whole seconds that storing it
  implies, is the one a later read returns.
\<close>

lemma new_task_simps [simp]:
  "t_id (new_task env i) = e_new_id env 0" "t_status (new_task env i) = Queued"
  "t_retry_count (new_task env i) = 0" "t_type (new_task env i) = cti_type i"
  "t_parent_id (new_task env i) = cti_parent_id i"
  "t_schedule_id (new_task env i) = cti_schedule_id i"
  "t_max_retries (new_task env i) = (if cti_max_retries i = 0 then 3 else cti_max_retries i)"
  by (simp_all add: new_task_def Let_def)

lemma CreateTask_Inr:
  assumes "CreateTask env i d = (Inr t, d', es)"
  shows "t = new_task env i" "create_task_tx env i d = (Inr t, d')"
    "es = [\<lparr>sse_task_id = e_new_id env 0, sse_event = EvQueued, sse_detail = None,
            sse_timestamp = e_emit_now env\<rparr>]"
  using assms unfolding CreateTask_def
  by (auto elim!: store_op_Inr dest: create_task_tx_D(1)
      simp: emit_def SSEEvent_def is_zero_def)

text \<open>A list of tasks in the order of the query, read off the sorted key.\<close>

lemma task_order_le:
  "task_order env t \<le> task_order env t' \<Longrightarrow>
     t_priority t' < t_priority t \<or>
     t_priority t = t_priority t' \<and> t_created_at t \<le> t_created_at t'"
  by (auto simp: task_order_def less_eq_prod_def)

lemma set_limit_offset: "set (limit_offset lim off xs) \<subseteq> set xs"
  unfolding limit_offset_def by (meson set_drop_subset set_take_subset subset_trans)

lemma sorted_limit_offset: "sorted (map f xs) \<Longrightarrow> sorted (map f (limit_offset lim off xs))"
  unfolding limit_offset_def by (simp add: sorted_wrt_take sorted_wrt_drop take_map [symmetric]
      drop_map [symmetric])

lemma length_limit_offset: "length (limit_offset lim off xs) \<le> nat lim"
  by (simp add: limit_offset_def)

end
