(* ===== verification/ETQ_Workers.thy ===== *)
theory ETQ_Workers
  imports ETQ_Tasks
begin

section \<open>Workers (internal/store/workers.go)\<close>

text \<open>
  Registering a worker, reading one and listing them, and the two updates of a worker's load that
  the claim and the outcome operations make.  The task types are stored as the JSON array of the
  list; the model keeps the list.
\<close>

record create_worker_input =
  cwi_type :: string
  cwi_task_types :: "string list"
  cwi_queue :: string
  cwi_concurrency :: int
  cwi_socket_path :: "string option"

definition new_worker :: "env \<Rightarrow> create_worker_input \<Rightarrow> worker" where
  "new_worker env i =
     \<lparr>w_id = e_new_id env 0,
      w_type = cwi_type i,
      w_task_types = cwi_task_types i,
      w_queue = (if cwi_queue i = [] then ''default'' else cwi_queue i),
      w_concurrency = (if cwi_concurrency i \<le> 0 then 1 else cwi_concurrency i),
      w_current_task_count = 0,
      w_status = WIdle,
      w_started_at = e_now env,
      w_heartbeat_at = None,
      w_socket_path = cwi_socket_path i\<rparr>"

definition scanWorker :: "worker \<Rightarrow> worker" where
  "scanWorker r = r\<lparr>w_started_at := parseDBTime (w_started_at r),
                   w_heartbeat_at := parseNullDBTime (w_heartbeat_at r)\<rparr>"

definition create_worker_tx :: "env \<Rightarrow> create_worker_input \<Rightarrow> worker tx" where
  "create_worker_tx env i =
     (let w = new_worker env i in
      bind_tx (sql env ''insert worker''
                 (insert_worker env (w\<lparr>w_started_at := fmtDBTime (w_started_at w)\<rparr>))) (\<lambda>_.
      ret w))"

definition CreateWorker :: "env \<Rightarrow> create_worker_input \<Rightarrow> db \<Rightarrow> worker outcome" where
  "CreateWorker env i =
     store_op env (create_worker_tx env i) (Wrap ''CreateWorker'') (\<lambda>_. []) (\<lambda>w. w)"

definition GetWorker :: "env \<Rightarrow> string \<Rightarrow> db \<Rightarrow> err + worker" where
  "GetWorker env i d =
     (if e_fault env ''GetWorker'' then Inl (Wrap ''GetWorker'' ErrDriver)
      else case find_row w_id i (d_workers d) of
        None \<Rightarrow> Inl ErrNotFound
      | Some r \<Rightarrow> Inr (scanWorker r))"

definition ListWorkers :: "env \<Rightarrow> db \<Rightarrow> err + worker list" where
  "ListWorkers env d =
     (if e_fault env ''ListWorkers'' then Inl (Wrap ''ListWorkers'' ErrDriver)
      else Inr (map scanWorker
             (order_by (\<lambda>w. (w_started_at w, e_tie env (w_id w))) (d_workers d))))"

subsection \<open>The load counter\<close>

text \<open>
  SQL evaluates every right-hand side of an UPDATE on the old row.  \<open>worker_inc\<close> is the UPDATE of
  the claim (claim.go), \<open>worker_dec\<close> that of \<open>decrementWorker\<close> (attempts.go).
\<close>

definition worker_inc :: "worker \<Rightarrow> worker" where
  "worker_inc w =
     w\<lparr>w_current_task_count := w_current_task_count w + 1,
       w_status := (if w_current_task_count w + 1 \<ge> w_concurrency w then WBusy else WIdle)\<rparr>"

definition worker_dec :: "worker \<Rightarrow> worker" where
  "worker_dec w =
     w\<lparr>w_current_task_count := w_current_task_count w - 1,
       w_status := (if w_current_task_count w - 1 < w_concurrency w then WIdle else WBusy)\<rparr>"

definition decrementWorker :: "env \<Rightarrow> string \<Rightarrow> unit tx" where
  "decrementWorker env i = sqlw env ''decrement worker'' (exec (upd_worker i worker_dec))"

text \<open>A worker's status says whether its load has reached its concurrency.\<close>

definition worker_ok :: "worker \<Rightarrow> bool" where
  "worker_ok w \<longleftrightarrow>
     1 \<le> w_concurrency w \<and>
     w_status w = (if w_current_task_count w < w_concurrency w then WIdle else WBusy)"

lemma worker_ok_new: "worker_ok (new_worker env i)"
  by (simp add: worker_ok_def new_worker_def)

lemma worker_ok_inc: "worker_ok w \<Longrightarrow> worker_ok (worker_inc w)"
  by (auto simp: worker_ok_def worker_inc_def)

lemma worker_ok_dec: "worker_ok w \<Longrightarrow> worker_ok (worker_dec w)"
  by (auto simp: worker_ok_def worker_dec_def)

lemma worker_inc_dec: "worker_ok w \<Longrightarrow> worker_dec (worker_inc w) = w"
  by (auto simp: worker_ok_def worker_inc_def worker_dec_def)

lemma worker_load_frame [simp]:
  "w_id (worker_inc w) = w_id w" "w_id (worker_dec w) = w_id w"
  "w_concurrency (worker_inc w) = w_concurrency w" "w_concurrency (worker_dec w) = w_concurrency w"
  "w_current_task_count (worker_inc w) = w_current_task_count w + 1"
  "w_current_task_count (worker_dec w) = w_current_task_count w - 1"
  by (simp_all add: worker_inc_def worker_dec_def)

lemma create_worker_tx_D:
  assumes "create_worker_tx env i d = (Inr w, d')"
  shows "w = new_worker env i" and "w_id w \<notin> w_id ` set (d_workers d)"
    and "d' = d\<lparr>d_workers := d_workers d @ [w\<lparr>w_started_at := fmtDBTime (w_started_at w)\<rparr>]\<rparr>"
  using assms by (auto simp: create_worker_tx_def Let_def tx_Inr)

end
