(* ===== verification/ETQ_Schedules.thy ===== *)
theory ETQ_Schedules
  imports ETQ_Workers
begin

section \<open>Schedules (internal/store/schedules.go)\<close>

text \<open>
  Creating, reading, listing and patching recurring schedules.  A patch sets exactly the fields its
  input has; with none of them it is a plain read.
\<close>

record create_schedule_input =
  csi_task_type :: string
  csi_queue :: string
  csi_payload :: "bytes option"
  csi_cron_expr :: "string option"
  csi_interval_secs :: "int option"
  csi_enabled :: bool
  csi_next_run_at :: "gotime option"

definition new_schedule :: "env \<Rightarrow> create_schedule_input \<Rightarrow> schedule" where
  "new_schedule env i =
     \<lparr>s_id = e_new_id env 0,
      s_task_type = csi_task_type i,
      s_queue = (if csi_queue i = [] then ''default'' else csi_queue i),
      s_payload = csi_payload i,
      s_cron_expr = csi_cron_expr i,
      s_interval_secs = csi_interval_secs i,
      s_enabled = csi_enabled i,
      s_last_run_at = None,
      s_next_run_at = csi_next_run_at i,
      s_created_at = e_now env\<rparr>"

definition scanSchedule :: "schedule \<Rightarrow> schedule" where
  "scanSchedule r = r\<lparr>s_last_run_at := parseNullDBTime (s_last_run_at r),
                     s_next_run_at := parseNullDBTime (s_next_run_at r),
                     s_created_at := parseDBTime (s_created_at r)\<rparr>"

text \<open>The INSERT does not name \<open>last_run_at\<close>, which is therefore NULL.\<close>

definition schedule_row :: "schedule \<Rightarrow> schedule" where
  "schedule_row s = s\<lparr>s_last_run_at := None, s_next_run_at := nullTime (s_next_run_at s),
                     s_created_at := fmtDBTime (s_created_at s)\<rparr>"

definition create_schedule_tx :: "env \<Rightarrow> create_schedule_input \<Rightarrow> schedule tx" where
  "create_schedule_tx env i =
     (let s = new_schedule env i in
      bind_tx (sql env ''insert schedule'' (insert_schedule env (schedule_row s))) (\<lambda>_. ret s))"

definition CreateSchedule :: "env \<Rightarrow> create_schedule_input \<Rightarrow> db \<Rightarrow> schedule outcome" where
  "CreateSchedule env i =
     store_op env (create_schedule_tx env i) (Wrap ''CreateSchedule'') (\<lambda>_. []) (\<lambda>s. s)"

definition GetSchedule :: "env \<Rightarrow> string \<Rightarrow> db \<Rightarrow> err + schedule" where
  "GetSchedule env i d =
     (if e_fault env ''GetSchedule'' then Inl (Wrap ''GetSchedule'' ErrDriver)
      else case find_row s_id i (d_schedules d) of
        None \<Rightarrow> Inl ErrNotFound
      | Some r \<Rightarrow> Inr (scanSchedule r))"

definition ListSchedules :: "env \<Rightarrow> db \<Rightarrow> err + schedule list" where
  "ListSchedules env d =
     (if e_fault env ''ListSchedules'' then Inl (Wrap ''ListSchedules'' ErrDriver)
      else Inr (map scanSchedule
             (order_by (\<lambda>s. (s_created_at s, e_tie env (s_id s))) (d_schedules d))))"

subsection \<open>UpdateSchedule\<close>

record update_schedule_input =
  usi_enabled :: "bool option"
  usi_cron_expr :: "string option"
  usi_interval_secs :: "int option"
  usi_next_run_at :: "gotime option"

text \<open>The assignments of the SET clause, one per field that is present.\<close>

definition schedule_sets :: "update_schedule_input \<Rightarrow> (schedule \<Rightarrow> schedule) list" where
  "schedule_sets i =
     (case usi_enabled i of None \<Rightarrow> [] | Some b \<Rightarrow> [\<lambda>s. s\<lparr>s_enabled := b\<rparr>]) @
     (case usi_cron_expr i of None \<Rightarrow> [] | Some c \<Rightarrow> [\<lambda>s. s\<lparr>s_cron_expr := Some c\<rparr>]) @
     (case usi_interval_secs i of None \<Rightarrow> [] | Some n \<Rightarrow> [\<lambda>s. s\<lparr>s_interval_secs := Some n\<rparr>]) @
     (case usi_next_run_at i of None \<Rightarrow> []
        | Some t \<Rightarrow> [\<lambda>s. s\<lparr>s_next_run_at := Some (fmtDBTime t)\<rparr>])"

definition apply_sets :: "('r \<Rightarrow> 'r) list \<Rightarrow> 'r \<Rightarrow> 'r" where
  "apply_sets fs r = fold (\<lambda>f x. f x) fs r"

text \<open>
  The body returns the number of rows the UPDATE changed.  After the commit the method reads the row back
  with a query of its own; here nothing comes between the two.  What other goroutines do there can only
  change the schedule that is returned, never what the call does to the database.
\<close>

definition update_schedule_tx :: "env \<Rightarrow> string \<Rightarrow> update_schedule_input \<Rightarrow> int tx" where
  "update_schedule_tx env i inp =
     bind_tx (sql env ''update schedule''
                (query (\<lambda>d. count_where (\<lambda>s. s_id s = i) (d_schedules d)))) (\<lambda>n.
     bind_tx (exec (upd_schedule i (apply_sets (schedule_sets inp)))) (\<lambda>_.
     sql env ''rows affected'' (ret n)))"

definition UpdateSchedule ::
  "env \<Rightarrow> string \<Rightarrow> update_schedule_input \<Rightarrow> db \<Rightarrow> schedule outcome" where
  "UpdateSchedule env i inp d =
     (if schedule_sets inp = [] then (GetSchedule env i d, d, [])
      else case store_op env (update_schedule_tx env i inp) (Wrap ''UpdateSchedule'')
                  (\<lambda>_. []) (\<lambda>n. n) d of
        (Inl e, d', _) \<Rightarrow> (Inl e, d', [])
      | (Inr n, d', _) \<Rightarrow>
          if n = 0 then (Inl ErrNotFound, d', []) else (GetSchedule env i d', d', []))"

lemma create_schedule_tx_D:
  assumes "create_schedule_tx env i d = (Inr s, d')"
  shows "s = new_schedule env i" and "s_id s \<notin> s_id ` set (d_schedules d)"
    and "d' = d\<lparr>d_schedules := d_schedules d @ [schedule_row s]\<rparr>"
  using assms by (auto simp: create_schedule_tx_def Let_def tx_Inr schedule_row_def)

lemma apply_sets_schedule_frame [simp]:
  "s_id (apply_sets (schedule_sets i) s) = s_id s"
  "s_task_type (apply_sets (schedule_sets i) s) = s_task_type s"
  "s_last_run_at (apply_sets (schedule_sets i) s) = s_last_run_at s"
  by (auto simp: schedule_sets_def apply_sets_def split: option.splits)

lemma apply_sets_schedule:
  "apply_sets (schedule_sets i) s =
     s\<lparr>s_enabled := (case usi_enabled i of None \<Rightarrow> s_enabled s | Some b \<Rightarrow> b),
       s_cron_expr := (case usi_cron_expr i of None \<Rightarrow> s_cron_expr s | Some c \<Rightarrow> Some c),
       s_interval_secs :=
         (case usi_interval_secs i of None \<Rightarrow> s_interval_secs s | Some n \<Rightarrow> Some n),
       s_next_run_at :=
         (case usi_next_run_at i of None \<Rightarrow> s_next_run_at s | Some t \<Rightarrow> Some (fmtDBTime t))\<rparr>"
  by (auto simp: schedule_sets_def apply_sets_def split: option.splits)

lemma update_schedule_tx_D:
  assumes "update_schedule_tx env i inp d = (Inr n, d')"
  shows "n = count_where (\<lambda>s. s_id s = i) (d_schedules d)"
    and "d' = upd_schedule i (apply_sets (schedule_sets inp)) d"
  using assms by (auto simp: update_schedule_tx_def tx_Inr)

lemma UpdateSchedule_invariant:
  assumes "I d" and "I (upd_schedule i (apply_sets (schedule_sets inp)) d)"
  shows "I (db_of (UpdateSchedule env i inp d))"
proof (cases "schedule_sets inp = []")
  case True
  with assms(1) show ?thesis by (simp add: UpdateSchedule_def)
next
  case False
  obtain r d' es where eq: "store_op env (update_schedule_tx env i inp) (Wrap ''UpdateSchedule'')
      (\<lambda>_. []) (\<lambda>n. n) d = (r, d', es)"
    by (rule prod_cases3)
  have "I (db_of (store_op env (update_schedule_tx env i inp) (Wrap ''UpdateSchedule'')
            (\<lambda>_. []) (\<lambda>n. n) d))"
    by (rule store_op_invariant [where I = I, OF assms(1)])
      (drule update_schedule_tx_D(2), simp add: assms(2))
  then have "I d'" by (simp add: eq)
  with False show ?thesis by (cases r) (simp_all add: UpdateSchedule_def eq)
qed

end
