(* ===== verification/ETQ_Claim.thy ===== *)
theory ETQ_Claim
  imports ETQ_Schedules
begin

section \<open>Claiming a task (internal/store/claim.go)\<close>

text \<open>
  The transaction of \<open>ClaimTask\<close>: the global, queue and type guards against the numbers of running
  tasks, the UPDATE of the best claimable row, the new attempt with the next number, the worker's
  load and the started event.  The body's value is the claimed task with the attempt's ID, or None
  when a guard is closed or nothing is claimable.
\<close>

definition running :: "task \<Rightarrow> bool" where
  "running t \<longleftrightarrow> t_status t = Running"

text \<open>Guard 2: is the queue at its limit?  No query runs when it has none.\<close>

definition queue_guard :: "env \<Rightarrow> config \<Rightarrow> string \<Rightarrow> bool tx" where
  "queue_guard env cfg q =
     (if QueueLimit cfg q > 0 then
        bind_tx (sqlw env ''queue count''
                   (query (\<lambda>d. count_where (\<lambda>t. running t \<and> t_queue t = q) (d_tasks d)))) (\<lambda>n.
        ret (n \<ge> QueueLimit cfg q))
      else ret False)"

text \<open>Guard 3: the requested types that are below their limits, in the order of the request.\<close>

fun eligible_types :: "env \<Rightarrow> config \<Rightarrow> string list \<Rightarrow> string list tx" where
  "eligible_types env cfg [] = ret []"
| "eligible_types env cfg (tt # tts) =
     bind_tx
       (if TaskTypeLimit cfg tt > 0 then
          bind_tx (sqlw env (''type count '' @ go_quote tt)
                     (query (\<lambda>d. count_where (\<lambda>t. running t \<and> t_type t = tt) (d_tasks d)))) (\<lambda>n.
          ret (n \<ge> TaskTypeLimit cfg tt))
        else ret False) (\<lambda>full.
     bind_tx (eligible_types env cfg tts) (\<lambda>rest.
     ret (if full then rest else tt # rest)))"

definition claimable :: "string \<Rightarrow> string list \<Rightarrow> dbtime \<Rightarrow> task \<Rightarrow> bool" where
  "claimable q el now t \<longleftrightarrow>
     t_status t = Queued \<and> t_queue t = q \<and> t_type t \<in> set el \<and> t_run_at t \<le> now"

definition claim_row :: "dbtime \<Rightarrow> task \<Rightarrow> task" where
  "claim_row now t = t\<lparr>t_status := Running, t_updated_at := now\<rparr>"

text \<open>\<open>UPDATE ... WHERE id = (SELECT ... LIMIT 1) RETURNING\<close>: the changed row, if there is one.\<close>

definition claim_update :: "env \<Rightarrow> string \<Rightarrow> string list \<Rightarrow> dbtime \<Rightarrow> task option tx" where
  "claim_update env q el now d =
     (case order_by (task_order env) (filter (claimable q el now) (d_tasks d)) of
        [] \<Rightarrow> (Inr None, d)
      | t # _ \<Rightarrow>
          (let d' = upd_task (t_id t) (claim_row now) d in
           (Inr (map_option scanTask (find_row t_id (t_id t) (d_tasks d'))), d')))"

text \<open>\<open>COALESCE(MAX(attempt_num), 0)\<close> over the attempts of a task.\<close>

definition max_attempt_num :: "string \<Rightarrow> db \<Rightarrow> int" where
  "max_attempt_num i d =
     (case map a_num (filter (\<lambda>a. a_task_id a = i) (d_attempts d)) of
        [] \<Rightarrow> 0
      | n # ns \<Rightarrow> fold max ns n)"

text \<open>Steps 4 to 7 of the transaction, for the types that are left.\<close>

definition claim_eligible ::
  "env \<Rightarrow> string \<Rightarrow> string \<Rightarrow> string list \<Rightarrow> (task \<times> string) option tx" where
  "claim_eligible env wid q el =
     (let now = fmtDBTime (e_now env); aid = e_new_id env 0 in
      bind_tx (sqlw env ''claim UPDATE'' (claim_update env q el now)) (\<lambda>r.
      case r of
        None \<Rightarrow> ret None
      | Some t \<Rightarrow>
          bind_tx (sqlw env ''attempt_num query'' (query (max_attempt_num (t_id t)))) (\<lambda>prev.
          bind_tx (sqlw env ''insert attempt''
                     (insert_attempt env
                        \<lparr>a_id = aid, a_task_id = t_id t, a_num = prev + 1, a_worker_id = Some wid,
                         a_status = ARunning, a_result = None, a_error = None,
                         a_started_at = Some now, a_finished_at = None,
                         a_heartbeat_at = None\<rparr>)) (\<lambda>_.
          bind_tx (sqlw env ''update worker'' (exec (upd_worker wid worker_inc))) (\<lambda>_.
          bind_tx (sqlw env ''insert started event''
                     (insert_event env
                        \<lparr>ev_id = e_new_id env 1, ev_task_id = t_id t, ev_event = EvStarted,
                         ev_detail = Some [(''attempt_id'', JStr aid)], ev_created_at = now\<rparr>)) (\<lambda>_.
          ret (Some (t, aid))))))))"

definition claim_tx ::
  "env \<Rightarrow> config \<Rightarrow> string \<Rightarrow> string \<Rightarrow> string list \<Rightarrow> (task \<times> string) option tx" where
  "claim_tx env cfg wid q types =
     bind_tx (sqlw env ''global count'' (query (\<lambda>d. count_where running (d_tasks d)))) (\<lambda>g.
     if g \<ge> c_global cfg then ret None else
     bind_tx (queue_guard env cfg q) (\<lambda>full.
     if full then ret None else
     bind_tx (eligible_types env cfg types) (\<lambda>el.
     if el = [] then ret None else claim_eligible env wid q el)))"

definition ClaimTask ::
  "env \<Rightarrow> config \<Rightarrow> string \<Rightarrow> string \<Rightarrow> string list \<Rightarrow> db \<Rightarrow> (task \<times> string) option outcome" where
  "ClaimTask env cfg wid q types d =
     (if types = [] then (Inr None, d, [])
      else store_op env (claim_tx env cfg wid q types) (\<lambda>e. e)
        (\<lambda>r. case r of None \<Rightarrow> [] | Some (t, aid) \<Rightarrow> emit env (SSEEvent (t_id t) EvStarted))
        (\<lambda>r. r) d)"

subsection \<open>What the guards compute\<close>

definition type_full :: "config \<Rightarrow> db \<Rightarrow> string \<Rightarrow> bool" where
  "type_full cfg d tt \<longleftrightarrow>
     TaskTypeLimit cfg tt > 0 \<and>
     count_where (\<lambda>t. running t \<and> t_type t = tt) (d_tasks d) \<ge> TaskTypeLimit cfg tt"

definition queue_full :: "config \<Rightarrow> db \<Rightarrow> string \<Rightarrow> bool" where
  "queue_full cfg d q \<longleftrightarrow>
     QueueLimit cfg q > 0 \<and>
     count_where (\<lambda>t. running t \<and> t_queue t = q) (d_tasks d) \<ge> QueueLimit cfg q"

lemma queue_guard_Inr:
  "queue_guard env cfg q d = (Inr b, d') \<Longrightarrow> b = queue_full cfg d q \<and> d' = d"
  by (auto simp: queue_guard_def queue_full_def tx_Inr split: if_splits)

lemma eligible_types_Inr:
  "eligible_types env cfg tts d = (Inr el, d') \<Longrightarrow>
     el = filter (\<lambda>tt. \<not> type_full cfg d tt) tts \<and> d' = d"
proof (induction tts arbitrary: el d')
  case Nil
  then show ?case by simp
next
  case (Cons tt tts)
  then show ?case
    by (auto simp: type_full_def tx_Inr split: if_splits)
qed

lemma claim_row_frame [simp]:
  "t_id (claim_row now t) = t_id t" "t_type (claim_row now t) = t_type t"
  "t_queue (claim_row now t) = t_queue t" "t_status (claim_row now t) = Running"
  "t_retry_count (claim_row now t) = t_retry_count t"
  "t_max_retries (claim_row now t) = t_max_retries t"
  "t_parent_id (claim_row now t) = t_parent_id t" "t_priority (claim_row now t) = t_priority t"
  "t_created_at (claim_row now t) = t_created_at t" "t_run_at (claim_row now t) = t_run_at t"
  by (simp_all add: claim_row_def)

subsection \<open>What a committed claim did\<close>

definition claim_attempt :: "env \<Rightarrow> string \<Rightarrow> string \<Rightarrow> db \<Rightarrow> attempt" where
  "claim_attempt env wid i d =
     \<lparr>a_id = e_new_id env 0, a_task_id = i, a_num = max_attempt_num i d + 1,
      a_worker_id = Some wid, a_status = ARunning, a_result = None, a_error = None,
      a_started_at = Some (fmtDBTime (e_now env)), a_finished_at = None, a_heartbeat_at = None\<rparr>"

definition claim_db :: "env \<Rightarrow> string \<Rightarrow> string \<Rightarrow> db \<Rightarrow> db" where
  "claim_db env wid i d =
     d\<lparr>d_tasks := update_where (\<lambda>t. t_id t = i) (claim_row (fmtDBTime (e_now env))) (d_tasks d),
       d_attempts := d_attempts d @ [claim_attempt env wid i d],
       d_workers := update_where (\<lambda>w. w_id w = wid) worker_inc (d_workers d),
       d_events := d_events d @
         [\<lparr>ev_id = e_new_id env 1, ev_task_id = i, ev_event = EvStarted,
           ev_detail = Some [(''attempt_id'', JStr (e_new_id env 0))],
           ev_created_at = fmtDBTime (e_now env)\<rparr>]\<rparr>"

lemma claim_db_fields:
  "d_tasks (claim_db env wid i d) =
     update_where (\<lambda>t. t_id t = i) (claim_row (fmtDBTime (e_now env))) (d_tasks d)"
  "d_attempts (claim_db env wid i d) = d_attempts d @ [claim_attempt env wid i d]"
  "d_workers (claim_db env wid i d) =
     update_where (\<lambda>w. w_id w = wid) worker_inc (d_workers d)"
  "d_events (claim_db env wid i d) = d_events d @
     [\<lparr>ev_id = e_new_id env 1, ev_task_id = i, ev_event = EvStarted,
       ev_detail = Some [(''attempt_id'', JStr (e_new_id env 0))],
       ev_created_at = fmtDBTime (e_now env)\<rparr>]"
  "d_schedules (claim_db env wid i d) = d_schedules d"
  by (simp_all add: claim_db_def)

text \<open>The claim picks a claimable row of least order, with every guard open.\<close>

definition claim_pick ::
  "env \<Rightarrow> config \<Rightarrow> string \<Rightarrow> string list \<Rightarrow> db \<Rightarrow> task option" where
  "claim_pick env cfg q types d =
     (if count_where running (d_tasks d) \<ge> c_global cfg \<or> queue_full cfg d q then None
      else case order_by (task_order env)
                  (filter (claimable q (filter (\<lambda>tt. \<not> type_full cfg d tt) types)
                             (fmtDBTime (e_now env))) (d_tasks d)) of
        [] \<Rightarrow> None
      | t # _ \<Rightarrow> Some t)"

lemma claim_update_Inr:
  assumes "claim_update env q el now d = (Inr r, d')" and "distinct (map t_id (d_tasks d))"
  shows "(r = None \<and> d' = d \<and> filter (claimable q el now) (d_tasks d) = []) \<or>
         (\<exists>t rest. order_by (task_order env) (filter (claimable q el now) (d_tasks d)) = t # rest \<and>
            r = Some (scanTask (claim_row now t)) \<and> d' = upd_task (t_id t) (claim_row now) d)"
proof (cases "order_by (task_order env) (filter (claimable q el now) (d_tasks d))")
  case Nil
  then show ?thesis using assms(1) by (auto simp: claim_update_def)
next
  case (Cons t rest)
  then have "t \<in> set (filter (claimable q el now) (d_tasks d))"
    by (metis list.set_intros(1) set_order_by)
  then have "find_row t_id (t_id t) (d_tasks d) = Some t"
    using assms(2) by (simp add: find_row_unique)
  with Cons assms(1) show ?thesis
    by (auto simp: claim_update_def upd_task_def Let_def find_row_update_same)
qed

lemma claim_eligible_D:
  assumes "claim_eligible env wid q el d = (Inr r, d')" and "distinct (map t_id (d_tasks d))"
  defines "cs \<equiv> order_by (task_order env)
                   (filter (claimable q el (fmtDBTime (e_now env))) (d_tasks d))"
  shows "(r = None \<and> d' = d \<and> cs = []) \<or>
         (\<exists>t rest. cs = t # rest \<and>
            r = Some (scanTask (claim_row (fmtDBTime (e_now env)) t), e_new_id env 0) \<and>
            e_new_id env 0 \<notin> a_id ` set (d_attempts d) \<and>
            e_new_id env 1 \<notin> ev_id ` set (d_events d) \<and>
            ref_ok (e_fk env) (Some wid) (map w_id (d_workers d)) \<and>
            d' = claim_db env wid (t_id t) d)"
proof -
  from assms(1) obtain t1 d1 where
    u: "claim_update env q el (fmtDBTime (e_now env)) d = (Inr t1, d1)"
    unfolding claim_eligible_def Let_def bind_tx_Inr sqlw_Inr by blast
  show ?thesis
    using claim_update_Inr [OF u assms(2)] u assms(1)
    by (auto simp: claim_eligible_def Let_def tx_Inr cs_def claim_db_def claim_attempt_def
        upd_task_def upd_worker_def max_attempt_num_def)
qed

lemma claim_tx_D:
  assumes "claim_tx env cfg wid q types d = (Inr r, d')" and "distinct (map t_id (d_tasks d))"
  shows "(r = None \<and> d' = d \<and> claim_pick env cfg q types d = None) \<or>
         (\<exists>t. claim_pick env cfg q types d = Some t \<and>
            r = Some (scanTask (claim_row (fmtDBTime (e_now env)) t), e_new_id env 0) \<and>
            e_new_id env 0 \<notin> a_id ` set (d_attempts d) \<and>
            e_new_id env 1 \<notin> ev_id ` set (d_events d) \<and>
            ref_ok (e_fk env) (Some wid) (map w_id (d_workers d)) \<and>
            d' = claim_db env wid (t_id t) d)"
proof (cases "c_global cfg \<le> count_where running (d_tasks d) \<or> queue_full cfg d q")
  case True
  then have "r = None \<and> d' = d"
    using assms(1)
    by (cases r) (auto simp: claim_tx_def tx_Inr split: if_splits dest: queue_guard_Inr)
  moreover from True have "claim_pick env cfg q types d = None"
    by (auto simp: claim_pick_def)
  ultimately show ?thesis by simp
next
  case False
  let ?el = "filter (\<lambda>tt. \<not> type_full cfg d tt) types"
  from False assms(1) have "(if ?el = [] then ret None else claim_eligible env wid q ?el) d = (Inr r, d')"
    by (auto simp: claim_tx_def tx_Inr simp del: ret_Inr filter_empty_conv split: if_splits
        dest!: queue_guard_Inr eligible_types_Inr)
  moreover have "claim_pick env cfg q types d = None" if "?el = []"
    using that by (simp add: claim_pick_def claimable_def)
  ultimately show ?thesis
    using False claim_eligible_D [OF _ assms(2), of env wid q ?el r d']
    by (auto simp: claim_pick_def simp del: filter_empty_conv split: if_splits)
qed

lemma claim_pick_Some:
  assumes "claim_pick env cfg q types d = Some t"
  shows "t \<in> set (d_tasks d)" "t_status t = Queued" "t_queue t = q" "t_type t \<in> set types"
    "t_run_at t \<le> fmtDBTime (e_now env)"
    "count_where running (d_tasks d) < c_global cfg" "\<not> queue_full cfg d q"
    "\<not> type_full cfg d (t_type t)"
    "\<And>t'. t' \<in> set (d_tasks d) \<Longrightarrow>
       claimable q (filter (\<lambda>tt. \<not> type_full cfg d tt) types) (fmtDBTime (e_now env)) t' \<Longrightarrow>
       task_order env t \<le> task_order env t'"
proof -
  let ?cs = "filter (claimable q (filter (\<lambda>tt. \<not> type_full cfg d tt) types)
                (fmtDBTime (e_now env))) (d_tasks d)"
  from assms obtain rest where o: "order_by (task_order env) ?cs = t # rest"
    and g: "count_where running (d_tasks d) < c_global cfg" "\<not> queue_full cfg d q"
    by (auto simp: claim_pick_def split: if_splits list.splits)
  from o have "t \<in> set ?cs" by (metis list.set_intros(1) set_order_by)
  then show "t \<in> set (d_tasks d)" "t_status t = Queued" "t_queue t = q" "t_type t \<in> set types"
    "t_run_at t \<le> fmtDBTime (e_now env)" "\<not> type_full cfg d (t_type t)"
    by (auto simp: claimable_def)
  show "count_where running (d_tasks d) < c_global cfg" "\<not> queue_full cfg d q" by (fact g)+
  show "task_order env t \<le> task_order env t'" if "t' \<in> set (d_tasks d)"
    "claimable q (filter (\<lambda>tt. \<not> type_full cfg d tt) types) (fmtDBTime (e_now env)) t'" for t'
    using order_by_hd_least [OF o, of t'] that by simp
qed

lemma ClaimTask_invariant:
  assumes "distinct (map t_id (d_tasks d))" and "I d"
    and "\<And>t. claim_pick env cfg q types d = Some t \<Longrightarrow>
           e_new_id env 0 \<notin> a_id ` set (d_attempts d) \<Longrightarrow>
           e_new_id env 1 \<notin> ev_id ` set (d_events d) \<Longrightarrow>
           ref_ok (e_fk env) (Some wid) (map w_id (d_workers d)) \<Longrightarrow>
           I (claim_db env wid (t_id t) d)"
  shows "I (db_of (ClaimTask env cfg wid q types d))"
proof (cases "types = []")
  case True
  with assms(2) show ?thesis by (simp add: ClaimTask_def)
next
  case False
  have "I d'" if "claim_tx env cfg wid q types d = (Inr x, d')" for x d'
    using claim_tx_D [OF that assms(1)] assms(2,3) by metis
  then show ?thesis
    unfolding ClaimTask_def using False
    by (simp add: store_op_invariant [where I = I, OF assms(2)])
qed

end
