(* ===== verification/ETQ_Attempts.thy ===== *)
theory ETQ_Attempts
  imports ETQ_Claim "HOL-Library.Word"
begin

section \<open>Outcomes of attempts (internal/store/attempts.go)\<close>

text \<open>
  The backoff in 64-bit nanoseconds, and the four writes a worker makes about an attempt: its
  success, its failure, its cancellation and its heartbeat.  The three outcomes share a shape: the
  attempt must be running; it is finished, its task moved, its worker's load decremented and an
  event written.  \<open>finish_db\<close> is that shape, and \<open>TimeoutAttempt\<close> (maintenance.go) has it too.
\<close>

subsection \<open>Backoff\<close>

type_synonym duration = "64 word"

definition second :: duration where "second = 1000000000"

definition retryBaseDelay :: duration where "retryBaseDelay = 30 * second"

definition retryMaxDelay :: duration where "retryMaxDelay = 3600 * second"

definition retryBackoff :: "int \<Rightarrow> duration" where
  "retryBackoff retry_count =
     (let c0 = (if retry_count < 0 then 0 else retry_count);
          c = (if c0 > 7 then 7 else c0);
          d = retryBaseDelay * push_bit (nat c) 1
      in if sint d > sint retryMaxDelay then retryMaxDelay else d)"

definition time_add :: "gotime \<Rightarrow> duration \<Rightarrow> gotime" where
  "time_add t d = t + sint d"

text \<open>No product overflows, and the result is the doubling capped at an hour.\<close>

lemma retryBackoff_small:
  "sint (retryBackoff 0) = 30 * 1000000000" "sint (retryBackoff 1) = 60 * 1000000000"
  "sint (retryBackoff 2) = 120 * 1000000000" "sint (retryBackoff 3) = 240 * 1000000000"
  "sint (retryBackoff 4) = 480 * 1000000000" "sint (retryBackoff 5) = 960 * 1000000000"
  "sint (retryBackoff 6) = 1920 * 1000000000" "sint (retryBackoff 7) = 3600 * 1000000000"
  by (simp_all add: retryBackoff_def retryBaseDelay_def retryMaxDelay_def second_def Let_def
      push_bit_eq_mult)

lemma retryBackoff_neg: "c < 0 \<Longrightarrow> retryBackoff c = retryBackoff 0"
  by (simp add: retryBackoff_def)

lemma retryBackoff_big: "7 < c \<Longrightarrow> retryBackoff c = retryBackoff 7"
  by (simp add: retryBackoff_def)

lemma retryBackoff_value:
  assumes "0 \<le> c"
  shows "sint (retryBackoff c) = min (30 * 2 ^ nat c) 3600 * 1000000000"
proof (cases "c \<le> 7")
  case True
  with assms consider "c = 0" | "c = 1" | "c = 2" | "c = 3" | "c = 4" | "c = 5" | "c = 6" | "c = 7"
    by linarith
  then show ?thesis by cases (simp_all add: retryBackoff_small)
next
  case False
  then have "(2::int) ^ 7 \<le> 2 ^ nat c" by (intro power_increasing) auto
  with False show ?thesis by (simp add: retryBackoff_big retryBackoff_small)
qed

lemma retryBackoff_bounds:
  "30 * 1000000000 \<le> sint (retryBackoff c) \<and> sint (retryBackoff c) \<le> 3600 * 1000000000"
proof (cases "0 \<le> c")
  case True
  have "(1::int) \<le> 2 ^ nat c" by simp
  then show ?thesis using retryBackoff_value [OF True] by simp
next
  case False
  then show ?thesis by (simp add: retryBackoff_neg retryBackoff_small)
qed

subsection \<open>Loading the running attempt\<close>

definition worker_str :: "attempt \<Rightarrow> string" where
  "worker_str a = (case a_worker_id a of None \<Rightarrow> [] | Some w \<Rightarrow> w)"

definition loadRunningAttempt :: "env \<Rightarrow> string \<Rightarrow> (string \<times> string) tx" where
  "loadRunningAttempt env aid =
     bind_tx (sqlw env ''read attempt'' (query (\<lambda>d. find_row a_id aid (d_attempts d)))) (\<lambda>r.
     case r of
       None \<Rightarrow> fail ErrNotFound
     | Some a \<Rightarrow>
         if a_status a \<noteq> ARunning then fail ErrAttemptNotRunning
         else ret (a_task_id a, worker_str a))"

definition release_worker :: "env \<Rightarrow> string \<Rightarrow> unit tx" where
  "release_worker env wid = (if wid \<noteq> [] then decrementWorker env wid else ret ())"

subsection \<open>SucceedAttempt\<close>

definition attempt_succeeded :: "dbtime \<Rightarrow> bytes option \<Rightarrow> attempt \<Rightarrow> attempt" where
  "attempt_succeeded now result a =
     a\<lparr>a_status := ASucceeded, a_result := result, a_finished_at := Some now\<rparr>"

definition task_to :: "task_status \<Rightarrow> dbtime \<Rightarrow> task \<Rightarrow> task" where
  "task_to st now t = t\<lparr>t_status := st, t_updated_at := now\<rparr>"

definition succeed_tx :: "env \<Rightarrow> string \<Rightarrow> bytes option \<Rightarrow> string tx" where
  "succeed_tx env aid result =
     (let now = fmtDBTime (e_now env) in
      bind_tx (loadRunningAttempt env aid) (\<lambda>(tid, wid).
      bind_tx (sqlw env ''update attempt''
                 (exec (upd_attempt aid (attempt_succeeded now result)))) (\<lambda>_.
      bind_tx (sqlw env ''update task'' (exec (upd_task tid (task_to Succeeded now)))) (\<lambda>_.
      bind_tx (release_worker env wid) (\<lambda>_.
      bind_tx (sql env ''insert succeeded event''
                 (insert_event env
                    \<lparr>ev_id = e_new_id env 0, ev_task_id = tid, ev_event = EvSucceeded,
                     ev_detail = Some [(''attempt_id'', JStr aid)], ev_created_at = now\<rparr>)) (\<lambda>_.
      ret tid))))))"

definition SucceedAttempt :: "env \<Rightarrow> string \<Rightarrow> bytes option \<Rightarrow> db \<Rightarrow> unit outcome" where
  "SucceedAttempt env aid result =
     store_op env (succeed_tx env aid result) (\<lambda>e. e)
       (\<lambda>tid. emit env (SSEEvent tid EvSucceeded)) (\<lambda>_. ())"

subsection \<open>FailAttempt\<close>

definition attempt_failed :: "dbtime \<Rightarrow> string \<Rightarrow> attempt \<Rightarrow> attempt" where
  "attempt_failed now msg a = a\<lparr>a_status := AFailed, a_error := Some msg, a_finished_at := Some now\<rparr>"

definition task_retrying :: "dbtime \<Rightarrow> dbtime \<Rightarrow> task \<Rightarrow> task" where
  "task_retrying run_at now t =
     t\<lparr>t_status := Retrying, t_retry_count := t_retry_count t + 1, t_run_at := run_at,
       t_updated_at := now\<rparr>"

text \<open>
  The retry decision, from the counters the task row has before the update: the event type, its
  detail, and the update of the task.
\<close>

definition retry_decision ::
  "env \<Rightarrow> string \<Rightarrow> string \<Rightarrow> int \<Rightarrow> int \<Rightarrow>
     event_type \<times> (string \<times> jval) list \<times> string \<times> (task \<Rightarrow> task)" where
  "retry_decision env aid msg rc mr =
     (let now = fmtDBTime (e_now env) in
      if rc < mr then
        (EvRetrying,
         [(''attempt_id'', JStr aid), (''error'', JStr msg), (''retry_count'', JInt (rc + 1))],
         ''update task (retrying)'',
         task_retrying (fmtDBTime (time_add (e_now env) (retryBackoff rc))) now)
      else
        (EvDead, [(''attempt_id'', JStr aid), (''error'', JStr msg)],
         ''update task (dead)'', task_to Dead now))"

definition fail_body ::
  "env \<Rightarrow> string \<Rightarrow> string \<Rightarrow> (string \<times> event_type \<times> (string \<times> jval) list) tx" where
  "fail_body env aid msg =
     (let now = fmtDBTime (e_now env) in
      bind_tx (loadRunningAttempt env aid) (\<lambda>(tid, wid).
      bind_tx (sqlw env ''read task'' (query (\<lambda>d. find_row t_id tid (d_tasks d)))) (\<lambda>r.
      case r of
        None \<Rightarrow> fail (Wrap ''read task'' ErrNoRows)
      | Some t \<Rightarrow>
          bind_tx (sqlw env ''update attempt''
                     (exec (upd_attempt aid (attempt_failed now msg)))) (\<lambda>_.
          let (ev, detail, label, upd) =
                retry_decision env aid msg (t_retry_count t) (t_max_retries t) in
          bind_tx (sqlw env label (exec (upd_task tid upd))) (\<lambda>_.
          bind_tx (release_worker env wid) (\<lambda>_.
          ret (tid, ev, detail)))))))"

definition fail_tx :: "env \<Rightarrow> string \<Rightarrow> string \<Rightarrow> (string \<times> event_type) tx" where
  "fail_tx env aid msg =
     bind_tx (fail_body env aid msg) (\<lambda>(tid, ev, detail).
     bind_tx (sql env ''insert outcome event''
                (insert_event env
                   \<lparr>ev_id = e_new_id env 0, ev_task_id = tid, ev_event = ev,
                    ev_detail = Some detail, ev_created_at = fmtDBTime (e_now env)\<rparr>)) (\<lambda>_.
     ret (tid, ev)))"

definition FailAttempt :: "env \<Rightarrow> string \<Rightarrow> string \<Rightarrow> db \<Rightarrow> unit outcome" where
  "FailAttempt env aid msg =
     store_op env (fail_tx env aid msg) (\<lambda>e. e)
       (\<lambda>(tid, ev). emit env (SSEEvent tid ev)) (\<lambda>_. ())"

subsection \<open>CancelAttempt and UpdateHeartbeat\<close>

definition attempt_cancelled :: "dbtime \<Rightarrow> attempt \<Rightarrow> attempt" where
  "attempt_cancelled now a = a\<lparr>a_status := ACancelled, a_finished_at := Some now\<rparr>"

definition cancel_attempt_tx :: "env \<Rightarrow> string \<Rightarrow> string tx" where
  "cancel_attempt_tx env aid =
     (let now = fmtDBTime (e_now env) in
      bind_tx (loadRunningAttempt env aid) (\<lambda>(tid, wid).
      bind_tx (sqlw env ''update attempt''
                 (exec (upd_attempt aid (attempt_cancelled now)))) (\<lambda>_.
      bind_tx (sqlw env ''update task'' (exec (upd_task tid (task_to Cancelled now)))) (\<lambda>_.
      bind_tx (release_worker env wid) (\<lambda>_.
      bind_tx (sql env ''insert cancelled event''
                 (insert_event env
                    \<lparr>ev_id = e_new_id env 0, ev_task_id = tid, ev_event = EvCancelled,
                     ev_detail = Some [(''attempt_id'', JStr aid)], ev_created_at = now\<rparr>)) (\<lambda>_.
      ret tid))))))"

definition CancelAttempt :: "env \<Rightarrow> string \<Rightarrow> db \<Rightarrow> unit outcome" where
  "CancelAttempt env aid =
     store_op env (cancel_attempt_tx env aid) (\<lambda>e. e)
       (\<lambda>tid. emit env (SSEEvent tid EvCancelled)) (\<lambda>_. ())"

definition heartbeat_db :: "dbtime \<Rightarrow> string \<Rightarrow> db \<Rightarrow> db" where
  "heartbeat_db now aid d =
     d\<lparr>d_attempts := update_where (\<lambda>a. a_id a = aid \<and> a_status a = ARunning)
                       (\<lambda>a. a\<lparr>a_heartbeat_at := Some now\<rparr>) (d_attempts d)\<rparr>"

definition UpdateHeartbeat :: "env \<Rightarrow> string \<Rightarrow> db \<Rightarrow> unit outcome" where
  "UpdateHeartbeat env aid =
     store_op env (sql env ''update heartbeat'' (exec (heartbeat_db (fmtDBTime (e_now env)) aid)))
       (\<lambda>e. e) (\<lambda>_. []) (\<lambda>_. ())"

subsection \<open>The shape the outcomes share\<close>

definition release_rows :: "string \<Rightarrow> worker list \<Rightarrow> worker list" where
  "release_rows wid ws =
     (if wid \<noteq> [] then update_where (\<lambda>w. w_id w = wid) worker_dec ws else ws)"

definition finish_db ::
  "(attempt \<Rightarrow> attempt) \<Rightarrow> (task \<Rightarrow> task) \<Rightarrow> attempt \<Rightarrow> task_event \<Rightarrow> db \<Rightarrow> db" where
  "finish_db f g a ev d =
     d\<lparr>d_attempts := update_where (\<lambda>x. a_id x = a_id a) f (d_attempts d),
       d_tasks := update_where (\<lambda>t. t_id t = a_task_id a) g (d_tasks d),
       d_workers := release_rows (worker_str a) (d_workers d),
       d_events := d_events d @ [ev]\<rparr>"

lemma loadRunningAttempt_Inr:
  "loadRunningAttempt env aid d = (Inr r, d') \<longleftrightarrow>
     \<not> e_fault env ''read attempt'' \<and>
     (\<exists>a. find_row a_id aid (d_attempts d) = Some a \<and> a_id a = aid \<and> a_status a = ARunning \<and>
        r = (a_task_id a, worker_str a) \<and> d' = d)"
  by (auto simp: loadRunningAttempt_def tx_Inr split: option.splits dest: find_row_SomeD)

lemma release_worker_Inr:
  "release_worker env wid d = (Inr r, d') \<Longrightarrow>
     d' = d\<lparr>d_workers := release_rows wid (d_workers d)\<rparr>"
  by (auto simp: release_worker_def decrementWorker_def tx_Inr upd_worker_def release_rows_def
      split: if_splits)

lemma loadRunningAttempt_errors:
  "find_row a_id aid (d_attempts d) = None \<Longrightarrow> \<not> e_fault env ''read attempt'' \<Longrightarrow>
     loadRunningAttempt env aid d = (Inl ErrNotFound, d)"
  "find_row a_id aid (d_attempts d) = Some a \<Longrightarrow> a_status a \<noteq> ARunning \<Longrightarrow>
     \<not> e_fault env ''read attempt'' \<Longrightarrow> loadRunningAttempt env aid d = (Inl ErrAttemptNotRunning, d)"
  by (simp_all add: loadRunningAttempt_def bind_tx_def sqlw_def wrapped_def sql_def query_def
      fail_def)

lemma succeed_tx_D:
  assumes "succeed_tx env aid result d = (Inr tid, d')"
  obtains a where "find_row a_id aid (d_attempts d) = Some a" and "a_status a = ARunning"
    and "tid = a_task_id a" and "e_new_id env 0 \<notin> ev_id ` set (d_events d)"
    and "d' = finish_db (attempt_succeeded (fmtDBTime (e_now env)) result)
                (task_to Succeeded (fmtDBTime (e_now env))) a
                \<lparr>ev_id = e_new_id env 0, ev_task_id = a_task_id a, ev_event = EvSucceeded,
                 ev_detail = Some [(''attempt_id'', JStr aid)],
                 ev_created_at = fmtDBTime (e_now env)\<rparr> d"
  using assms
  by (auto simp: succeed_tx_def Let_def tx_Inr loadRunningAttempt_Inr finish_db_def
      upd_attempt_def upd_task_def dest!: release_worker_Inr)

lemma cancel_attempt_tx_D:
  assumes "cancel_attempt_tx env aid d = (Inr tid, d')"
  obtains a where "find_row a_id aid (d_attempts d) = Some a" and "a_status a = ARunning"
    and "tid = a_task_id a" and "e_new_id env 0 \<notin> ev_id ` set (d_events d)"
    and "d' = finish_db (attempt_cancelled (fmtDBTime (e_now env)))
                (task_to Cancelled (fmtDBTime (e_now env))) a
                \<lparr>ev_id = e_new_id env 0, ev_task_id = a_task_id a, ev_event = EvCancelled,
                 ev_detail = Some [(''attempt_id'', JStr aid)],
                 ev_created_at = fmtDBTime (e_now env)\<rparr> d"
  using assms
  by (auto simp: cancel_attempt_tx_def Let_def tx_Inr loadRunningAttempt_Inr finish_db_def
      upd_attempt_def upd_task_def dest!: release_worker_Inr)

lemma fail_body_D:
  assumes "fail_body env aid msg d = (Inr (tid, ev, detail), d')"
  obtains a t label upd where "find_row a_id aid (d_attempts d) = Some a" and "a_id a = aid"
    and "a_status a = ARunning" and "tid = a_task_id a"
    and "find_row t_id (a_task_id a) (d_tasks d) = Some t"
    and "retry_decision env aid msg (t_retry_count t) (t_max_retries t) = (ev, detail, label, upd)"
    and "d' = d\<lparr>d_attempts := update_where (\<lambda>x. a_id x = aid)
                     (attempt_failed (fmtDBTime (e_now env)) msg) (d_attempts d),
                 d_tasks := update_where (\<lambda>t. t_id t = a_task_id a) upd (d_tasks d),
                 d_workers := release_rows (worker_str a) (d_workers d)\<rparr>"
proof -
  from assms obtain a t where a: "find_row a_id aid (d_attempts d) = Some a" "a_id a = aid"
      "a_status a = ARunning"
    and t: "find_row t_id (a_task_id a) (d_tasks d) = Some t"
    by (auto simp: fail_body_def Let_def bind_tx_Inr sqlw_Inr loadRunningAttempt_Inr
        split: option.splits)
  obtain ev' detail' label upd where
    rd: "retry_decision env aid msg (t_retry_count t) (t_max_retries t) = (ev', detail', label, upd)"
    by (rule prod_cases4)
  from assms a t rd show thesis
    by (intro that [of a t label upd])
      (auto simp: fail_body_def Let_def bind_tx_Inr sqlw_Inr loadRunningAttempt_Inr
        upd_attempt_def upd_task_def dest!: release_worker_Inr)
qed

lemma fail_tx_D:
  assumes "fail_tx env aid msg d = (Inr (tid, ev), d')"
  obtains a t detail label upd where "find_row a_id aid (d_attempts d) = Some a"
    and "a_status a = ARunning" and "tid = a_task_id a"
    and "find_row t_id (a_task_id a) (d_tasks d) = Some t"
    and "e_new_id env 0 \<notin> ev_id ` set (d_events d)"
    and "retry_decision env aid msg (t_retry_count t) (t_max_retries t) = (ev, detail, label, upd)"
    and "d' = finish_db (attempt_failed (fmtDBTime (e_now env)) msg) upd a
                \<lparr>ev_id = e_new_id env 0, ev_task_id = a_task_id a, ev_event = ev,
                 ev_detail = Some detail, ev_created_at = fmtDBTime (e_now env)\<rparr> d"
  using assms
  by (auto simp: fail_tx_def tx_Inr finish_db_def elim!: fail_body_D)

text \<open>The update a failure makes of its task, read off the decision.\<close>

lemma retry_decision_cases:
  assumes "retry_decision env aid msg rc mr = (ev, detail, label, upd)"
  shows "(rc < mr \<and> ev = EvRetrying \<and>
            upd = task_retrying (fmtDBTime (time_add (e_now env) (retryBackoff rc)))
                    (fmtDBTime (e_now env))) \<or>
         (\<not> rc < mr \<and> ev = EvDead \<and> upd = task_to Dead (fmtDBTime (e_now env)))"
  using assms by (auto simp: retry_decision_def Let_def split: if_splits)

lemma outcome_frame [simp]:
  "a_id (attempt_succeeded n r a) = a_id a" "a_id (attempt_failed n m a) = a_id a"
  "a_id (attempt_cancelled n a) = a_id a"
  "a_task_id (attempt_succeeded n r a) = a_task_id a" "a_task_id (attempt_failed n m a) = a_task_id a"
  "a_task_id (attempt_cancelled n a) = a_task_id a"
  "a_worker_id (attempt_succeeded n r a) = a_worker_id a"
  "a_worker_id (attempt_failed n m a) = a_worker_id a"
  "a_worker_id (attempt_cancelled n a) = a_worker_id a"
  "a_num (attempt_succeeded n r a) = a_num a" "a_num (attempt_failed n m a) = a_num a"
  "a_num (attempt_cancelled n a) = a_num a"
  "a_status (attempt_succeeded n r a) = ASucceeded" "a_status (attempt_failed n m a) = AFailed"
  "a_status (attempt_cancelled n a) = ACancelled"
  by (simp_all add: attempt_succeeded_def attempt_failed_def attempt_cancelled_def)

lemma task_to_frame [simp]:
  "t_id (task_to st n t) = t_id t" "t_status (task_to st n t) = st"
  "t_type (task_to st n t) = t_type t" "t_queue (task_to st n t) = t_queue t"
  "t_retry_count (task_to st n t) = t_retry_count t"
  "t_max_retries (task_to st n t) = t_max_retries t"
  "t_parent_id (task_to st n t) = t_parent_id t" "t_run_at (task_to st n t) = t_run_at t"
  "t_id (task_retrying ra n t) = t_id t" "t_status (task_retrying ra n t) = Retrying"
  "t_type (task_retrying ra n t) = t_type t" "t_queue (task_retrying ra n t) = t_queue t"
  "t_retry_count (task_retrying ra n t) = t_retry_count t + 1"
  "t_max_retries (task_retrying ra n t) = t_max_retries t"
  "t_parent_id (task_retrying ra n t) = t_parent_id t" "t_run_at (task_retrying ra n t) = ra"
  by (simp_all add: task_to_def task_retrying_def)

end
