(* ===== verification/ETQ_Control.thy ===== *)
theory ETQ_Control
  imports ETQ_Attempts
begin

section \<open>Control actions on tasks (internal/store/control.go)\<close>

text \<open>
  Halt, resume, cancel, retry and restart.  Each reads the task's status inside the transaction,
  refuses a source state it does not allow, updates the row and writes an event.  Restart
  supersedes the task and inserts a queued copy of it.
\<close>

subsection \<open>Helpers\<close>

definition taskStatusTx :: "env \<Rightarrow> string \<Rightarrow> task_status tx" where
  "taskStatusTx env i =
     bind_tx (sqlw env ''read task status'' (query (\<lambda>d. find_row t_id i (d_tasks d)))) (\<lambda>r.
     case r of None \<Rightarrow> fail ErrNotFound | Some t \<Rightarrow> ret (t_status t))"

definition readTaskTx :: "env \<Rightarrow> string \<Rightarrow> task tx" where
  "readTaskTx env i =
     bind_tx (sql env ''read task'' (query (\<lambda>d. find_row t_id i (d_tasks d)))) (\<lambda>r.
     case r of None \<Rightarrow> fail ErrNotFound | Some t \<Rightarrow> ret (scanTask t))"

text \<open>The event's ID is the \<open>k\<close>-th the call draws.\<close>

definition insertTaskEvent ::
  "env \<Rightarrow> nat \<Rightarrow> string \<Rightarrow> event_type \<Rightarrow> (string \<times> jval) list option \<Rightarrow> dbtime \<Rightarrow> unit tx" where
  "insertTaskEvent env k i ev detail now =
     sqlw env (''insert '' @ event_type_str ev @ '' event'')
       (insert_event env
          \<lparr>ev_id = e_new_id env k, ev_task_id = i, ev_event = ev, ev_detail = detail,
           ev_created_at = now\<rparr>)"

fun taskStatusOneOf :: "task_status \<Rightarrow> task_status list \<Rightarrow> bool" where
  "taskStatusOneOf st [] = False"
| "taskStatusOneOf st (a # as) = (if st = a then True else taskStatusOneOf st as)"

lemma taskStatusOneOf_iff [simp]: "taskStatusOneOf st as \<longleftrightarrow> st \<in> set as"
  by (induction as) auto

definition status_list_str :: "task_status list \<Rightarrow> string" where
  "status_list_str as =
     ''['' @ concat (case as of [] \<Rightarrow> [] | a # r \<Rightarrow>
               task_status_str a # map (\<lambda>x. '' '' @ task_status_str x) r) @ '']''"

definition control_tx ::
  "env \<Rightarrow> string \<Rightarrow> task_status list \<Rightarrow> task_status \<Rightarrow> event_type \<Rightarrow> unit tx" where
  "control_tx env i from_states to ev =
     (let now = fmtDBTime (e_now env) in
      bind_tx (taskStatusTx env i) (\<lambda>st.
      if \<not> taskStatusOneOf st from_states
      then fail (Wrap (''task is '' @ go_quote (task_status_str st) @ '', want one of ''
                       @ status_list_str from_states) ErrInvalidTransition)
      else
        bind_tx (sqlw env ''update task'' (exec (upd_task i (task_to to now)))) (\<lambda>_.
        insertTaskEvent env 0 i ev None now)))"

subsection \<open>The five actions\<close>

definition HaltTask :: "env \<Rightarrow> string \<Rightarrow> db \<Rightarrow> unit outcome" where
  "HaltTask env i =
     store_op env (control_tx env i [Running] Halted EvHalted) (\<lambda>e. e)
       (\<lambda>_. emit env (SSEEvent i EvHalted)) (\<lambda>x. x)"

definition CancelTask :: "env \<Rightarrow> string \<Rightarrow> db \<Rightarrow> unit outcome" where
  "CancelTask env i =
     store_op env (control_tx env i [Queued, Halted] Cancelled EvCancelled) (\<lambda>e. e)
       (\<lambda>_. emit env (SSEEvent i EvCancelled)) (\<lambda>x. x)"

definition task_resumed :: "dbtime \<Rightarrow> task \<Rightarrow> task" where
  "task_resumed now t = t\<lparr>t_status := Queued, t_run_at := now, t_updated_at := now\<rparr>"

definition resume_tx :: "env \<Rightarrow> string \<Rightarrow> unit tx" where
  "resume_tx env i =
     (let now = fmtDBTime (e_now env) in
      bind_tx (taskStatusTx env i) (\<lambda>st.
      if st \<noteq> Halted
      then fail (Wrap (''ResumeTask: task is '' @ go_quote (task_status_str st)
                       @ '', want halted'') ErrInvalidTransition)
      else
        bind_tx (sqlw env ''update task'' (exec (upd_task i (task_resumed now)))) (\<lambda>_.
        insertTaskEvent env 0 i EvQueued None now)))"

definition ResumeTask :: "env \<Rightarrow> string \<Rightarrow> db \<Rightarrow> unit outcome" where
  "ResumeTask env i =
     store_op env (resume_tx env i) (\<lambda>e. e) (\<lambda>_. emit env (SSEEvent i EvQueued)) (\<lambda>x. x)"

definition task_retried :: "dbtime \<Rightarrow> task \<Rightarrow> task" where
  "task_retried now t =
     t\<lparr>t_status := Queued, t_retry_count := 0, t_run_at := now, t_updated_at := now\<rparr>"

definition retry_tx :: "env \<Rightarrow> string \<Rightarrow> unit tx" where
  "retry_tx env i =
     (let now = fmtDBTime (e_now env) in
      bind_tx (taskStatusTx env i) (\<lambda>st.
      if st \<noteq> Dead \<and> st \<noteq> Cancelled
      then fail (Wrap (''RetryTask: task is '' @ go_quote (task_status_str st)
                       @ '', want dead or cancelled'') ErrInvalidTransition)
      else
        bind_tx (sqlw env ''update task'' (exec (upd_task i (task_retried now)))) (\<lambda>_.
        insertTaskEvent env 0 i EvQueued None now)))"

definition RetryTask :: "env \<Rightarrow> string \<Rightarrow> db \<Rightarrow> unit outcome" where
  "RetryTask env i =
     store_op env (retry_tx env i) (\<lambda>e. e) (\<lambda>_. emit env (SSEEvent i EvQueued)) (\<lambda>x. x)"

definition restart_copy :: "env \<Rightarrow> string \<Rightarrow> task \<Rightarrow> task" where
  "restart_copy env i orig =
     (let now = e_now env in
      \<lparr>t_id = e_new_id env 0,
       t_type = t_type orig,
       t_queue = t_queue orig,
       t_payload = t_payload orig,
       t_status = Queued,
       t_priority = t_priority orig,
       t_retry_count = 0,
       t_max_retries = t_max_retries orig,
       t_timeout_secs = t_timeout_secs orig,
       t_run_at = now,
       t_parent_id = Some i,
       t_schedule_id = t_schedule_id orig,
       t_created_at = now,
       t_updated_at = now\<rparr>)"

definition restart_tx :: "env \<Rightarrow> string \<Rightarrow> task tx" where
  "restart_tx env i =
     (let now = fmtDBTime (e_now env) in
      bind_tx (readTaskTx env i) (\<lambda>orig.
      if t_status orig \<notin> {Queued, Succeeded, Dead, Cancelled, Halted}
      then fail (Wrap (''RestartTask: task is '' @ go_quote (task_status_str (t_status orig))
                       @ '', cannot restart from this state'') ErrInvalidTransition)
      else
        bind_tx (sqlw env ''supersede original''
                   (exec (upd_task i (task_to Superseded now)))) (\<lambda>_.
        let nt = restart_copy env i orig in
        bind_tx (sqlw env ''insert new task'' (insert_task env (task_row nt))) (\<lambda>_.
        bind_tx (insertTaskEvent env 1 (t_id nt) EvQueued None now) (\<lambda>_.
        ret nt)))))"

definition RestartTask :: "env \<Rightarrow> string \<Rightarrow> db \<Rightarrow> task outcome" where
  "RestartTask env i =
     store_op env (restart_tx env i) (\<lambda>e. e)
       (\<lambda>nt. emit env (SSEEvent i EvSuperseded) @ emit env (SSEEvent (t_id nt) EvQueued))
       (\<lambda>nt. nt)"

subsection \<open>What a committed action did\<close>

definition move_db :: "string \<Rightarrow> (task \<Rightarrow> task) \<Rightarrow> task_event \<Rightarrow> db \<Rightarrow> db" where
  "move_db i g ev d =
     d\<lparr>d_tasks := update_where (\<lambda>t. t_id t = i) g (d_tasks d), d_events := d_events d @ [ev]\<rparr>"

definition control_event :: "env \<Rightarrow> string \<Rightarrow> event_type \<Rightarrow> task_event" where
  "control_event env i ev =
     \<lparr>ev_id = e_new_id env 0, ev_task_id = i, ev_event = ev, ev_detail = None,
      ev_created_at = fmtDBTime (e_now env)\<rparr>"

lemma taskStatusTx_Inr:
  "taskStatusTx env i d = (Inr st, d') \<longleftrightarrow>
     \<not> e_fault env ''read task status'' \<and>
     (\<exists>t. find_row t_id i (d_tasks d) = Some t \<and> st = t_status t) \<and> d' = d"
  by (auto simp: taskStatusTx_def tx_Inr split: option.splits)

lemma control_tx_D:
  assumes "control_tx env i from_states to ev d = (Inr x, d')"
  obtains t where "find_row t_id i (d_tasks d) = Some t" and "t_status t \<in> set from_states"
    and "e_new_id env 0 \<notin> ev_id ` set (d_events d)"
    and "d' = move_db i (task_to to (fmtDBTime (e_now env))) (control_event env i ev) d"
  using assms
  by (auto simp: control_tx_def Let_def tx_Inr taskStatusTx_Inr insertTaskEvent_def upd_task_def
      move_db_def control_event_def split: if_splits)

lemma resume_tx_D:
  assumes "resume_tx env i d = (Inr x, d')"
  obtains t where "find_row t_id i (d_tasks d) = Some t" and "t_status t = Halted"
    and "e_new_id env 0 \<notin> ev_id ` set (d_events d)"
    and "d' = move_db i (task_resumed (fmtDBTime (e_now env))) (control_event env i EvQueued) d"
  using assms
  by (auto simp: resume_tx_def Let_def tx_Inr taskStatusTx_Inr insertTaskEvent_def upd_task_def
      move_db_def control_event_def split: if_splits)

lemma retry_tx_D:
  assumes "retry_tx env i d = (Inr x, d')"
  obtains t where "find_row t_id i (d_tasks d) = Some t" and "t_status t \<in> {Dead, Cancelled}"
    and "e_new_id env 0 \<notin> ev_id ` set (d_events d)"
    and "d' = move_db i (task_retried (fmtDBTime (e_now env))) (control_event env i EvQueued) d"
  using assms
  by (auto simp: retry_tx_def Let_def tx_Inr taskStatusTx_Inr insertTaskEvent_def upd_task_def
      move_db_def control_event_def split: if_splits)

definition restart_db :: "env \<Rightarrow> string \<Rightarrow> task \<Rightarrow> db \<Rightarrow> db" where
  "restart_db env i orig d =
     d\<lparr>d_tasks := update_where (\<lambda>t. t_id t = i) (task_to Superseded (fmtDBTime (e_now env)))
                    (d_tasks d) @ [task_row (restart_copy env i orig)],
       d_events := d_events d @
         [\<lparr>ev_id = e_new_id env 1, ev_task_id = e_new_id env 0, ev_event = EvQueued,
           ev_detail = None, ev_created_at = fmtDBTime (e_now env)\<rparr>]\<rparr>"

lemma restart_copy_simps [simp]:
  "t_id (restart_copy env i orig) = e_new_id env 0" "t_status (restart_copy env i orig) = Queued"
  "t_retry_count (restart_copy env i orig) = 0" "t_type (restart_copy env i orig) = t_type orig"
  "t_queue (restart_copy env i orig) = t_queue orig"
  "t_max_retries (restart_copy env i orig) = t_max_retries orig"
  "t_parent_id (restart_copy env i orig) = Some i"
  "t_schedule_id (restart_copy env i orig) = t_schedule_id orig"
  by (simp_all add: restart_copy_def Let_def)

lemma restart_copy_scan [simp]: "restart_copy env i (scanTask t) = restart_copy env i t"
  by (simp add: restart_copy_def Let_def scanTask_def)

lemma restart_tx_D:
  assumes "restart_tx env i d = (Inr nt, d')"
  obtains t where "find_row t_id i (d_tasks d) = Some t"
    and "t_status t \<in> {Queued, Succeeded, Dead, Cancelled, Halted}"
    and "nt = restart_copy env i t"
    and "e_new_id env 0 \<notin> t_id ` set (d_tasks d)"
    and "e_new_id env 1 \<notin> ev_id ` set (d_events d)"
    and "ref_ok (e_fk env) (t_schedule_id t) (map s_id (d_schedules d))"
    and "d' = restart_db env i t d"
proof -
  from assms obtain t where t: "find_row t_id i (d_tasks d) = Some t"
    by (auto simp: restart_tx_def Let_def readTaskTx_def tx_Inr split: option.splits)
  have ids: "t_id ` set (update_where (\<lambda>t. t_id t = i) (task_to Superseded n) (d_tasks d)) =
      t_id ` set (d_tasks d)" for n
    by (simp add: image_update_where_frame)
  from assms t show thesis
    by (intro that [of t])
      (auto simp: restart_tx_def Let_def readTaskTx_def tx_Inr insertTaskEvent_def upd_task_def
        restart_db_def ids simp del: set_update_where split: if_splits)
qed

lemma control_update_frame [simp]:
  "t_id (task_resumed n t) = t_id t" "t_status (task_resumed n t) = Queued"
  "t_type (task_resumed n t) = t_type t" "t_queue (task_resumed n t) = t_queue t"
  "t_retry_count (task_resumed n t) = t_retry_count t"
  "t_max_retries (task_resumed n t) = t_max_retries t"
  "t_id (task_retried n t) = t_id t" "t_status (task_retried n t) = Queued"
  "t_type (task_retried n t) = t_type t" "t_queue (task_retried n t) = t_queue t"
  "t_retry_count (task_retried n t) = 0" "t_max_retries (task_retried n t) = t_max_retries t"
  "t_parent_id (task_resumed n t) = t_parent_id t" "t_parent_id (task_retried n t) = t_parent_id t"
  "t_run_at (task_resumed n t) = n" "t_run_at (task_retried n t) = n"
  by (simp_all add: task_resumed_def task_retried_def)

end
