(* ===== verification/ETQ_Maintenance.thy ===== *)
theory ETQ_Maintenance
  imports ETQ_Control
begin

section \<open>Maintenance (internal/store/maintenance.go)\<close>

text \<open>
  What the background schedulers call: promoting retrying tasks whose time has come, finding and
  timing out stale attempts, finding due schedules and recording that one has fired.  The two
  queries name no order; the environment's tie order is the engine's.
\<close>

definition retry_due :: "dbtime \<Rightarrow> task \<Rightarrow> bool" where
  "retry_due now t \<longleftrightarrow> t_status t = Retrying \<and> t_run_at t \<le> now"

definition requeue_db :: "dbtime \<Rightarrow> db \<Rightarrow> db" where
  "requeue_db now d = d\<lparr>d_tasks := update_where (retry_due now) (task_to Queued now) (d_tasks d)\<rparr>"

definition requeue_tx :: "env \<Rightarrow> int tx" where
  "requeue_tx env =
     (let now = fmtDBTime (e_now env) in
      bind_tx (sqlw env ''RequeueRetrying''
                 (query (\<lambda>d. count_where (retry_due now) (d_tasks d)))) (\<lambda>n.
      bind_tx (exec (requeue_db now)) (\<lambda>_.
      sql env ''rows affected'' (ret n))))"

definition RequeueRetrying :: "env \<Rightarrow> db \<Rightarrow> int outcome" where
  "RequeueRetrying env = store_op env (requeue_tx env) (\<lambda>e. e) (\<lambda>_. []) (\<lambda>n. n)"

text \<open>\<open>COALESCE(heartbeat_at, started_at) <= ?\<close>, which NULL does not satisfy.\<close>

definition last_sign :: "attempt \<Rightarrow> dbtime option" where
  "last_sign a = (case a_heartbeat_at a of None \<Rightarrow> a_started_at a | Some h \<Rightarrow> Some h)"

definition stale :: "dbtime \<Rightarrow> attempt \<Rightarrow> bool" where
  "stale cutoff a \<longleftrightarrow>
     a_status a = ARunning \<and> (case last_sign a of None \<Rightarrow> False | Some t \<Rightarrow> t \<le> cutoff)"

definition FindStaleAttempts :: "env \<Rightarrow> gotime \<Rightarrow> db \<Rightarrow> err + attempt list" where
  "FindStaleAttempts env cutoff d =
     (if e_fault env ''FindStaleAttempts'' then Inl (Wrap ''FindStaleAttempts'' ErrDriver)
      else Inr (map scanAttempt
             (order_by (\<lambda>a. e_tie env (a_id a)) (filter (stale (fmtDBTime cutoff)) (d_attempts d)))))"

definition timeout_tx :: "env \<Rightarrow> string \<Rightarrow> string tx" where
  "timeout_tx env aid =
     bind_tx (fail_body env aid ''heartbeat timeout'') (\<lambda>(tid, ev, detail).
     bind_tx (insertTaskEvent env 0 tid EvHeartbeatTimeout (Some detail)
                (fmtDBTime (e_now env))) (\<lambda>_.
     ret tid))"

definition TimeoutAttempt :: "env \<Rightarrow> string \<Rightarrow> db \<Rightarrow> unit outcome" where
  "TimeoutAttempt env aid =
     store_op env (timeout_tx env aid) (\<lambda>e. e)
       (\<lambda>tid. emit env (SSEEvent tid EvHeartbeatTimeout)) (\<lambda>_. ())"

definition schedule_due :: "dbtime \<Rightarrow> schedule \<Rightarrow> bool" where
  "schedule_due now s \<longleftrightarrow>
     s_enabled s \<and> (case s_next_run_at s of None \<Rightarrow> False | Some t \<Rightarrow> t \<le> now)"

definition DueSchedules :: "env \<Rightarrow> db \<Rightarrow> err + schedule list" where
  "DueSchedules env d =
     (if e_fault env ''DueSchedules'' then Inl (Wrap ''DueSchedules'' ErrDriver)
      else Inr (map scanSchedule
             (order_by (\<lambda>s. e_tie env (s_id s))
                (filter (schedule_due (fmtDBTime (e_now env))) (d_schedules d)))))"

definition schedule_ran :: "dbtime \<Rightarrow> dbtime \<Rightarrow> schedule \<Rightarrow> schedule" where
  "schedule_ran now next_run s = s\<lparr>s_last_run_at := Some now, s_next_run_at := Some next_run\<rparr>"

definition record_run_tx :: "env \<Rightarrow> string \<Rightarrow> gotime \<Rightarrow> unit tx" where
  "record_run_tx env i next_run =
     bind_tx (sqlw env ''RecordScheduleRun''
                (query (\<lambda>d. count_where (\<lambda>s. s_id s = i) (d_schedules d)))) (\<lambda>n.
     bind_tx (exec (upd_schedule i
                (schedule_ran (fmtDBTime (e_now env)) (fmtDBTime next_run)))) (\<lambda>_.
     bind_tx (sql env ''rows affected'' (ret n)) (\<lambda>n.
     if n = 0 then fail ErrNotFound else ret ())))"

definition RecordScheduleRun :: "env \<Rightarrow> string \<Rightarrow> gotime \<Rightarrow> db \<Rightarrow> unit outcome" where
  "RecordScheduleRun env i next_run =
     store_op env (record_run_tx env i next_run) (\<lambda>e. e) (\<lambda>_. []) (\<lambda>x. x)"

subsection \<open>What a committed operation did\<close>

lemma requeue_tx_D:
  assumes "requeue_tx env d = (Inr n, d')"
  shows "n = count_where (retry_due (fmtDBTime (e_now env))) (d_tasks d)"
    and "d' = requeue_db (fmtDBTime (e_now env)) d"
  using assms by (auto simp: requeue_tx_def Let_def tx_Inr)

lemma timeout_tx_D:
  assumes "timeout_tx env aid d = (Inr tid, d')"
  obtains a t ev detail label upd where "find_row a_id aid (d_attempts d) = Some a"
    and "a_status a = ARunning" and "tid = a_task_id a"
    and "find_row t_id (a_task_id a) (d_tasks d) = Some t"
    and "e_new_id env 0 \<notin> ev_id ` set (d_events d)"
    and "retry_decision env aid ''heartbeat timeout'' (t_retry_count t) (t_max_retries t) =
           (ev, detail, label, upd)"
    and "d' = finish_db (attempt_failed (fmtDBTime (e_now env)) ''heartbeat timeout'') upd a
                \<lparr>ev_id = e_new_id env 0, ev_task_id = a_task_id a, ev_event = EvHeartbeatTimeout,
                 ev_detail = Some detail, ev_created_at = fmtDBTime (e_now env)\<rparr> d"
  using assms
  by (auto simp: timeout_tx_def tx_Inr insertTaskEvent_def finish_db_def elim!: fail_body_D)

lemma record_run_tx_D:
  assumes "record_run_tx env i next_run d = (Inr x, d')"
  shows "d' = upd_schedule i (schedule_ran (fmtDBTime (e_now env)) (fmtDBTime next_run)) d"
    and "i \<in> s_id ` set (d_schedules d)"
proof -
  from assms show "d' = upd_schedule i (schedule_ran (fmtDBTime (e_now env)) (fmtDBTime next_run)) d"
    by (auto simp: record_run_tx_def tx_Inr split: if_splits)
  from assms have "count_where (\<lambda>s. s_id s = i) (d_schedules d) \<noteq> 0"
    by (auto simp: record_run_tx_def tx_Inr split: if_splits)
  then show "i \<in> s_id ` set (d_schedules d)"
    by (auto simp: count_where_zero_iff)
qed

lemma record_run_missing:
  assumes "i \<notin> s_id ` set (d_schedules d)" and "\<And>l. \<not> e_fault env l"
  shows "\<exists>d'. record_run_tx env i next_run d = (Inl ErrNotFound, d')"
proof -
  have "count_where (\<lambda>s. s_id s = i) (d_schedules d) = 0"
    using assms(1) by (auto simp: count_where_zero_iff)
  then show ?thesis
    using assms(2)
    by (simp add: record_run_tx_def bind_tx_def sqlw_def wrapped_def sql_def query_def exec_def
        ret_def fail_def)
qed

lemma schedule_ran_frame [simp]:
  "s_id (schedule_ran n x s) = s_id s" "s_enabled (schedule_ran n x s) = s_enabled s"
  "s_last_run_at (schedule_ran n x s) = Some n" "s_next_run_at (schedule_ran n x s) = Some x"
  "s_interval_secs (schedule_ran n x s) = s_interval_secs s"
  "s_cron_expr (schedule_ran n x s) = s_cron_expr s"
  by (simp_all add: schedule_ran_def)

end
