(* ===== verification/ETQ_Machine.thy ===== *)
theory ETQ_Machine
  imports ETQ_Maintenance
begin

section \<open>The store as a state machine\<close>

text \<open>
  All writing operations of the store as one datatype, the function that runs one of them on the
  database, and the abstract contract they implement: a step relation with one rule per operation,
  whose premises are the operation's guard and whose conclusion is its whole effect.

  Every call of the program either leaves the database as it is or makes the step of its operation
  (\<open>apply_op_step\<close>); a call that is served and whose statements do not fail makes the step whenever
  its guard holds (\<open>apply_op_enabled\<close>).  The reachable databases are those some sequence of calls
  leads to from the empty one, with any environment for each call.
\<close>

datatype store_call =
  OpCreateTask create_task_input
| OpClaim string string "string list"
| OpSucceed string "bytes option"
| OpFail string string
| OpCancelAttempt string
| OpHeartbeat string
| OpHalt string
| OpResume string
| OpCancel string
| OpRetry string
| OpRestart string
| OpRequeue
| OpTimeout string
| OpCreateWorker create_worker_input
| OpCreateSchedule create_schedule_input
| OpUpdateSchedule string update_schedule_input
| OpRecordRun string gotime

fun apply_op :: "config \<Rightarrow> env \<Rightarrow> store_call \<Rightarrow> db \<Rightarrow> db" where
  "apply_op cfg env (OpCreateTask i) d = db_of (CreateTask env i d)"
| "apply_op cfg env (OpClaim wid q types) d = db_of (ClaimTask env cfg wid q types d)"
| "apply_op cfg env (OpSucceed aid r) d = db_of (SucceedAttempt env aid r d)"
| "apply_op cfg env (OpFail aid msg) d = db_of (FailAttempt env aid msg d)"
| "apply_op cfg env (OpCancelAttempt aid) d = db_of (CancelAttempt env aid d)"
| "apply_op cfg env (OpHeartbeat aid) d = db_of (UpdateHeartbeat env aid d)"
| "apply_op cfg env (OpHalt i) d = db_of (HaltTask env i d)"
| "apply_op cfg env (OpResume i) d = db_of (ResumeTask env i d)"
| "apply_op cfg env (OpCancel i) d = db_of (CancelTask env i d)"
| "apply_op cfg env (OpRetry i) d = db_of (RetryTask env i d)"
| "apply_op cfg env (OpRestart i) d = db_of (RestartTask env i d)"
| "apply_op cfg env OpRequeue d = db_of (RequeueRetrying env d)"
| "apply_op cfg env (OpTimeout aid) d = db_of (TimeoutAttempt env aid d)"
| "apply_op cfg env (OpCreateWorker i) d = db_of (CreateWorker env i d)"
| "apply_op cfg env (OpCreateSchedule i) d = db_of (CreateSchedule env i d)"
| "apply_op cfg env (OpUpdateSchedule i inp) d = db_of (UpdateSchedule env i inp d)"
| "apply_op cfg env (OpRecordRun i next_run) d = db_of (RecordScheduleRun env i next_run d)"

subsection \<open>Steps\<close>

text \<open>The update of the attempt, the update of the task and the event an outcome makes.\<close>

fun outcome_of ::
  "env \<Rightarrow> store_call \<Rightarrow> task \<Rightarrow>
     (string \<times> (attempt \<Rightarrow> attempt) \<times> (task \<Rightarrow> task) \<times> event_type \<times> (string \<times> jval) list) option"
where
  "outcome_of env (OpSucceed aid r) t =
     Some (aid, attempt_succeeded (fmtDBTime (e_now env)) r,
           task_to Succeeded (fmtDBTime (e_now env)), EvSucceeded, [(''attempt_id'', JStr aid)])"
| "outcome_of env (OpCancelAttempt aid) t =
     Some (aid, attempt_cancelled (fmtDBTime (e_now env)),
           task_to Cancelled (fmtDBTime (e_now env)), EvCancelled, [(''attempt_id'', JStr aid)])"
| "outcome_of env (OpFail aid msg) t =
     (case retry_decision env aid msg (t_retry_count t) (t_max_retries t) of
        (ev, detail, label, upd) \<Rightarrow>
          Some (aid, attempt_failed (fmtDBTime (e_now env)) msg, upd, ev, detail))"
| "outcome_of env (OpTimeout aid) t =
     (case retry_decision env aid ''heartbeat timeout'' (t_retry_count t) (t_max_retries t) of
        (ev, detail, label, upd) \<Rightarrow>
          Some (aid, attempt_failed (fmtDBTime (e_now env)) ''heartbeat timeout'', upd,
                EvHeartbeatTimeout, detail))"
| "outcome_of env _ t = None"

text \<open>The source states, the row update and the event of the plain control actions.\<close>

fun action_of ::
  "env \<Rightarrow> store_call \<Rightarrow> (string \<times> task_status list \<times> (task \<Rightarrow> task) \<times> event_type) option" where
  "action_of env (OpHalt i) =
     Some (i, [Running], task_to Halted (fmtDBTime (e_now env)), EvHalted)"
| "action_of env (OpResume i) =
     Some (i, [Halted], task_resumed (fmtDBTime (e_now env)), EvQueued)"
| "action_of env (OpCancel i) =
     Some (i, [Queued, Halted], task_to Cancelled (fmtDBTime (e_now env)), EvCancelled)"
| "action_of env (OpRetry i) =
     Some (i, [Dead, Cancelled], task_retried (fmtDBTime (e_now env)), EvQueued)"
| "action_of env _ = None"

inductive step :: "config \<Rightarrow> env \<Rightarrow> store_call \<Rightarrow> db \<Rightarrow> db \<Rightarrow> bool" for cfg env where
  create_task:
    "e_new_id env 0 \<notin> t_id ` set (d_tasks d) \<Longrightarrow> e_new_id env 1 \<notin> ev_id ` set (d_events d) \<Longrightarrow>
     ref_ok (e_fk env) (cti_parent_id i) (e_new_id env 0 # map t_id (d_tasks d)) \<Longrightarrow>
     ref_ok (e_fk env) (cti_schedule_id i) (map s_id (d_schedules d)) \<Longrightarrow>
     step cfg env (OpCreateTask i) d
       (d\<lparr>d_tasks := d_tasks d @ [task_row (new_task env i)],
          d_events := d_events d @
            [\<lparr>ev_id = e_new_id env 1, ev_task_id = e_new_id env 0, ev_event = EvQueued,
              ev_detail = None, ev_created_at = fmtDBTime (e_now env)\<rparr>]\<rparr>)"
| claim:
    "types \<noteq> [] \<Longrightarrow> claim_pick env cfg q types d = Some t \<Longrightarrow>
     e_new_id env 0 \<notin> a_id ` set (d_attempts d) \<Longrightarrow> e_new_id env 1 \<notin> ev_id ` set (d_events d) \<Longrightarrow>
     ref_ok (e_fk env) (Some wid) (map w_id (d_workers d)) \<Longrightarrow>
     step cfg env (OpClaim wid q types) d (claim_db env wid (t_id t) d)"
| finish:
    "outcome_of env op t = Some (aid, f, g, ev, detail) \<Longrightarrow>
     find_row a_id aid (d_attempts d) = Some a \<Longrightarrow> a_status a = ARunning \<Longrightarrow>
     find_row t_id (a_task_id a) (d_tasks d) = Some t \<Longrightarrow>
     e_new_id env 0 \<notin> ev_id ` set (d_events d) \<Longrightarrow>
     step cfg env op d
       (finish_db f g a
          \<lparr>ev_id = e_new_id env 0, ev_task_id = a_task_id a, ev_event = ev,
           ev_detail = Some detail, ev_created_at = fmtDBTime (e_now env)\<rparr> d)"
| heartbeat:
    "step cfg env (OpHeartbeat aid) d (heartbeat_db (fmtDBTime (e_now env)) aid d)"
| action:
    "action_of env op = Some (i, from_states, g, ev) \<Longrightarrow>
     find_row t_id i (d_tasks d) = Some t \<Longrightarrow> t_status t \<in> set from_states \<Longrightarrow>
     e_new_id env 0 \<notin> ev_id ` set (d_events d) \<Longrightarrow>
     step cfg env op d (move_db i g (control_event env i ev) d)"
| restart:
    "find_row t_id i (d_tasks d) = Some t \<Longrightarrow>
     t_status t \<in> {Queued, Succeeded, Dead, Cancelled, Halted} \<Longrightarrow>
     e_new_id env 0 \<notin> t_id ` set (d_tasks d) \<Longrightarrow> e_new_id env 1 \<notin> ev_id ` set (d_events d) \<Longrightarrow>
     ref_ok (e_fk env) (t_schedule_id t) (map s_id (d_schedules d)) \<Longrightarrow>
     step cfg env (OpRestart i) d (restart_db env i t d)"
| requeue:
    "step cfg env OpRequeue d (requeue_db (fmtDBTime (e_now env)) d)"
| create_worker:
    "e_new_id env 0 \<notin> w_id ` set (d_workers d) \<Longrightarrow>
     step cfg env (OpCreateWorker i) d
       (d\<lparr>d_workers := d_workers d @
            [(new_worker env i)\<lparr>w_started_at := fmtDBTime (e_now env)\<rparr>]\<rparr>)"
| create_schedule:
    "e_new_id env 0 \<notin> s_id ` set (d_schedules d) \<Longrightarrow>
     step cfg env (OpCreateSchedule i) d
       (d\<lparr>d_schedules := d_schedules d @ [schedule_row (new_schedule env i)]\<rparr>)"
| update_schedule:
    "step cfg env (OpUpdateSchedule i inp) d (upd_schedule i (apply_sets (schedule_sets inp)) d)"
| record_run:
    "i \<in> s_id ` set (d_schedules d) \<Longrightarrow>
     step cfg env (OpRecordRun i next_run) d
       (upd_schedule i (schedule_ran (fmtDBTime (e_now env)) (fmtDBTime next_run)) d)"

text \<open>The task of a running attempt exists: what an outcome needs beside its guard.\<close>

definition tasks_exist :: "db \<Rightarrow> bool" where
  "tasks_exist d \<longleftrightarrow>
     (\<forall>a \<in> set (d_attempts d). a_task_id a \<in> t_id ` set (d_tasks d)) \<and>
     (\<forall>e \<in> set (d_events d). ev_task_id e \<in> t_id ` set (d_tasks d))"

lemma tasks_existD:
  assumes "tasks_exist d" and "find_row a_id aid (d_attempts d) = Some a"
  obtains t where "find_row t_id (a_task_id a) (d_tasks d) = Some t"
proof -
  from assms have "a_task_id a \<in> t_id ` set (d_tasks d)"
    by (auto simp: tasks_exist_def dest: find_row_SomeD)
  then show thesis using that by (cases "find_row t_id (a_task_id a) (d_tasks d)")
      (auto simp: find_row_None_iff)
qed

subsection \<open>Every call makes its step or none\<close>

lemma finish_step:
  assumes "tasks_exist d" and "find_row a_id aid (d_attempts d) = Some a" and "a_status a = ARunning"
    and "e_new_id env 0 \<notin> ev_id ` set (d_events d)"
    and "\<And>t. find_row t_id (a_task_id a) (d_tasks d) = Some t \<Longrightarrow>
           outcome_of env op t = Some (aid, f, g, ev, detail)"
  shows "step cfg env op d
       (finish_db f g a
          \<lparr>ev_id = e_new_id env 0, ev_task_id = a_task_id a, ev_event = ev,
           ev_detail = Some detail, ev_created_at = fmtDBTime (e_now env)\<rparr> d)"
  using assms(2-5) tasks_existD [OF assms(1,2)] by (metis step.finish)

text \<open>Per operation: what its body leaves behind is its step.\<close>

lemma step_of_bodies:
  shows "create_task_tx env i d = (Inr x1, d') \<Longrightarrow> step cfg env (OpCreateTask i) d d'"
    and "requeue_tx env d = (Inr x2, d') \<Longrightarrow> step cfg env OpRequeue d d'"
    and "create_worker_tx env wi d = (Inr x3, d') \<Longrightarrow> step cfg env (OpCreateWorker wi) d d'"
    and "create_schedule_tx env si d = (Inr x4, d') \<Longrightarrow> step cfg env (OpCreateSchedule si) d d'"
    and "record_run_tx env k nr d = (Inr x5, d') \<Longrightarrow> step cfg env (OpRecordRun k nr) d d'"
proof -
  show "step cfg env (OpCreateTask i) d d'" if "create_task_tx env i d = (Inr x1, d')"
    using that by (auto simp: create_task_tx_def Let_def tx_Inr simp del: One_nat_def
        intro!: step.create_task)
  show "step cfg env OpRequeue d d'" if "requeue_tx env d = (Inr x2, d')"
    using requeue_tx_D(2) [OF that] by (auto intro: step.requeue)
  show "step cfg env (OpCreateWorker wi) d d'" if "create_worker_tx env wi d = (Inr x3, d')"
    using create_worker_tx_D [OF that] step.create_worker [of env d cfg wi]
    by (simp add: new_worker_def)
  show "step cfg env (OpCreateSchedule si) d d'" if "create_schedule_tx env si d = (Inr x4, d')"
    using create_schedule_tx_D [OF that] step.create_schedule [of env d cfg si]
    by (simp add: new_schedule_def)
  show "step cfg env (OpRecordRun k nr) d d'" if "record_run_tx env k nr d = (Inr x5, d')"
    using record_run_tx_D [OF that] by (auto intro: step.record_run)
qed

lemma step_of_actions:
  shows "control_tx env i [Running] Halted EvHalted d = (Inr x, d') \<Longrightarrow> step cfg env (OpHalt i) d d'"
    and "control_tx env i [Queued, Halted] Cancelled EvCancelled d = (Inr x, d') \<Longrightarrow>
           step cfg env (OpCancel i) d d'"
    and "resume_tx env i d = (Inr x, d') \<Longrightarrow> step cfg env (OpResume i) d d'"
    and "retry_tx env i d = (Inr x, d') \<Longrightarrow> step cfg env (OpRetry i) d d'"
  by (auto elim!: control_tx_D resume_tx_D retry_tx_D intro!: step.action)

lemma step_of_outcomes:
  assumes "tasks_exist d"
  shows "succeed_tx env aid r d = (Inr x1, d') \<Longrightarrow> step cfg env (OpSucceed aid r) d d'"
    and "cancel_attempt_tx env aid d = (Inr x2, d') \<Longrightarrow> step cfg env (OpCancelAttempt aid) d d'"
    and "fail_tx env aid msg d = (Inr x3, d') \<Longrightarrow> step cfg env (OpFail aid msg) d d'"
    and "timeout_tx env aid d = (Inr x4, d') \<Longrightarrow> step cfg env (OpTimeout aid) d d'"
proof -
  show "step cfg env (OpSucceed aid r) d d'" if "succeed_tx env aid r d = (Inr x1, d')"
    using that by (elim succeed_tx_D) (auto intro!: finish_step [OF assms])
  show "step cfg env (OpCancelAttempt aid) d d'" if "cancel_attempt_tx env aid d = (Inr x2, d')"
    using that by (elim cancel_attempt_tx_D) (auto intro!: finish_step [OF assms])
  show "step cfg env (OpFail aid msg) d d'" if "fail_tx env aid msg d = (Inr x3, d')"
    using that by (cases x3) (auto elim!: fail_tx_D intro!: finish_step [OF assms])
  show "step cfg env (OpTimeout aid) d d'" if "timeout_tx env aid d = (Inr x4, d')"
    using that by (auto elim!: timeout_tx_D intro!: finish_step [OF assms])
qed

lemma op_step:
  "(\<And>x d'. fn d = (Inr x, d') \<Longrightarrow> step cfg env op d d') \<Longrightarrow>
     db_of (store_op env fn on_err evs out d) = d \<or>
     step cfg env op d (db_of (store_op env fn on_err evs out d))"
  by (metis store_op_db)

lemma apply_op_step:
  assumes "distinct (map t_id (d_tasks d))" and "tasks_exist d"
  shows "apply_op cfg env op d = d \<or> step cfg env op d (apply_op cfg env op d)"
proof -
  let ?I = "\<lambda>d'. d' = d \<or> step cfg env op d d'"
  have "?I d" by simp
  then have "?I (apply_op cfg env op d)"
  proof (cases op)
    case (OpClaim wid q types)
    show ?thesis
    proof (cases "types = []")
      case True
      then show ?thesis by (simp add: OpClaim ClaimTask_def)
    next
      case False
      show ?thesis
        unfolding OpClaim apply_op.simps
        by (rule ClaimTask_invariant [OF assms(1)]) (simp_all add: step.claim [OF False] del: One_nat_def)
    qed
  next
    case (OpUpdateSchedule i inp)
    show ?thesis
      unfolding OpUpdateSchedule apply_op.simps
      by (rule UpdateSchedule_invariant) (auto intro: step.update_schedule)
  next
    case (OpRestart i)
    have r: "step cfg env (OpRestart i) d d'" if "restart_tx env i d = (Inr x, d')" for x d'
      using that by (elim restart_tx_D) (auto intro!: step.restart simp del: One_nat_def)
    show ?thesis
      unfolding OpRestart apply_op.simps RestartTask_def by (rule op_step) (rule r)
  next
    case (OpHeartbeat aid)
    show ?thesis
      unfolding OpHeartbeat apply_op.simps UpdateHeartbeat_def
      by (rule op_step) (simp add: tx_Inr step.heartbeat)
  qed (simp_all add: CreateTask_def SucceedAttempt_def FailAttempt_def CancelAttempt_def
      HaltTask_def ResumeTask_def CancelTask_def RetryTask_def RequeueRetrying_def
      TimeoutAttempt_def CreateWorker_def CreateSchedule_def RecordScheduleRun_def,
      (rule op_step, erule step_of_bodies step_of_actions step_of_outcomes [OF assms(2)])+)
  then show ?thesis .
qed

text \<open>
  The other direction: a call that is served and whose statements do not fail makes the step of its
  operation whenever the step is enabled.
\<close>

definition smooth :: "env \<Rightarrow> bool" where
  "smooth env \<longleftrightarrow> e_fate env = Served \<and> e_fault env = (\<lambda>_. False)"

lemma smooth_store_op:
  "smooth env \<Longrightarrow> fn d = (Inr x, d') \<Longrightarrow> store_op env fn on_err evs out d = (Inr (out x), d', evs x)"
  by (simp add: smooth_def store_op_def store_write_def execTx_def)

lemma smooth_loadRunningAttempt:
  "smooth env \<Longrightarrow> find_row a_id aid (d_attempts d) = Some a \<Longrightarrow> a_status a = ARunning \<Longrightarrow>
     loadRunningAttempt env aid d = (Inr (a_task_id a, worker_str a), d)"
  by (auto simp: smooth_def loadRunningAttempt_Inr dest: find_row_SomeD)

lemma smooth_release_worker:
  "smooth env \<Longrightarrow>
     release_worker env wid d = (Inr (), d\<lparr>d_workers := release_rows wid (d_workers d)\<rparr>)"
  by (auto simp: smooth_def release_worker_def decrementWorker_def tx_Inr upd_worker_def
      release_rows_def)

lemma smooth_bodies:
  assumes "smooth env" and "find_row a_id aid (d_attempts d) = Some a" and "a_status a = ARunning"
    and "find_row t_id (a_task_id a) (d_tasks d) = Some t"
    and "e_new_id env 0 \<notin> ev_id ` set (d_events d)"
  defines "now \<equiv> fmtDBTime (e_now env)"
    and "event \<equiv> \<lambda>ev detail. \<lparr>ev_id = e_new_id env 0, ev_task_id = a_task_id a, ev_event = ev,
           ev_detail = Some detail, ev_created_at = fmtDBTime (e_now env)\<rparr>"
  shows "succeed_tx env aid r d = (Inr (a_task_id a),
           finish_db (attempt_succeeded now r) (task_to Succeeded now) a
             (event EvSucceeded [(''attempt_id'', JStr aid)]) d)"
    and "cancel_attempt_tx env aid d = (Inr (a_task_id a),
           finish_db (attempt_cancelled now) (task_to Cancelled now) a
             (event EvCancelled [(''attempt_id'', JStr aid)]) d)"
    and "retry_decision env aid msg (t_retry_count t) (t_max_retries t) = (ev, detail, label, upd) \<Longrightarrow>
           fail_tx env aid msg d = (Inr (a_task_id a, ev),
             finish_db (attempt_failed now msg) upd a (event ev detail) d)"
    and "retry_decision env aid ''heartbeat timeout'' (t_retry_count t) (t_max_retries t) =
             (ev, detail, label, upd) \<Longrightarrow>
           timeout_tx env aid d = (Inr (a_task_id a),
             finish_db (attempt_failed now ''heartbeat timeout'') upd a
               (event EvHeartbeatTimeout detail) d)"
proof -
  have fault: "e_fault env l = False" for l using assms(1) by (simp add: smooth_def)
  have aid: "a_id a = aid" using find_row_SomeD [OF assms(2)] by simp
  have tid: "ref_ok fk (Some (a_task_id a)) (map t_id (update_where P g (d_tasks d)))"
    if "\<And>t. t_id (g t) = t_id t" for fk P and g :: "task \<Rightarrow> task"
    using find_row_SomeD [OF assms(4)] that by (force simp: ref_ok_def map_update_where_frame)
  note body = smooth_loadRunningAttempt [OF assms(1-3)] smooth_release_worker [OF assms(1)] fault
    aid tid assms(4,5) tx_Inr Let_def finish_db_def upd_attempt_def upd_task_def
  show "succeed_tx env aid r d = (Inr (a_task_id a),
           finish_db (attempt_succeeded now r) (task_to Succeeded now) a
             (event EvSucceeded [(''attempt_id'', JStr aid)]) d)"
    by (simp add: succeed_tx_def body now_def event_def)
  show "cancel_attempt_tx env aid d = (Inr (a_task_id a),
           finish_db (attempt_cancelled now) (task_to Cancelled now) a
             (event EvCancelled [(''attempt_id'', JStr aid)]) d)"
    by (simp add: cancel_attempt_tx_def body now_def event_def)
  have upd_id: "t_id (upd t') = t_id t'"
    if "retry_decision env aid m rc mr = (ev, detail, label, upd)" for m t' rc mr
    using retry_decision_cases [OF that] by auto
  show "fail_tx env aid msg d = (Inr (a_task_id a, ev),
             finish_db (attempt_failed now msg) upd a (event ev detail) d)"
    if "retry_decision env aid msg (t_retry_count t) (t_max_retries t) = (ev, detail, label, upd)"
    using upd_id [OF that]
    by (simp add: fail_tx_def fail_body_def that body now_def event_def)
  show "timeout_tx env aid d = (Inr (a_task_id a),
             finish_db (attempt_failed now ''heartbeat timeout'') upd a
               (event EvHeartbeatTimeout detail) d)"
    if "retry_decision env aid ''heartbeat timeout'' (t_retry_count t) (t_max_retries t) =
             (ev, detail, label, upd)"
    using upd_id [OF that]
    by (simp add: timeout_tx_def fail_body_def insertTaskEvent_def that body now_def event_def)
qed

lemma smooth_restart_tx:
  assumes "smooth env" and "find_row t_id i (d_tasks d) = Some t"
    and "t_status t \<in> {Queued, Succeeded, Dead, Cancelled, Halted}"
    and "e_new_id env 0 \<notin> t_id ` set (d_tasks d)" and "e_new_id env 1 \<notin> ev_id ` set (d_events d)"
    and "ref_ok (e_fk env) (t_schedule_id t) (map s_id (d_schedules d))"
  shows "restart_tx env i d = (Inr (restart_copy env i t), restart_db env i t d)"
proof -
  have fault: "e_fault env l = False" for l using assms(1) by (simp add: smooth_def)
  show ?thesis
    using assms(2-6) find_row_SomeD [OF assms(2)]
    by (auto simp: restart_tx_def readTaskTx_def Let_def tx_Inr fault ref_ok_def upd_task_def
        insertTaskEvent_def restart_db_def map_update_where_frame image_update_where_frame
        simp del: One_nat_def split: option.splits)
qed

lemma smooth_action_bodies:
  assumes "smooth env" and "find_row t_id i (d_tasks d) = Some t"
    and "e_new_id env 0 \<notin> ev_id ` set (d_events d)"
  defines "now \<equiv> fmtDBTime (e_now env)"
  shows "t_status t \<in> set from_states \<Longrightarrow>
           control_tx env i from_states to ev d =
             (Inr (), move_db i (task_to to now) (control_event env i ev) d)"
    and "t_status t = Halted \<Longrightarrow>
           resume_tx env i d =
             (Inr (), move_db i (task_resumed now) (control_event env i EvQueued) d)"
    and "t_status t = Dead \<or> t_status t = Cancelled \<Longrightarrow>
           retry_tx env i d =
             (Inr (), move_db i (task_retried now) (control_event env i EvQueued) d)"
proof -
  have fault: "e_fault env l = False" for l using assms(1) by (simp add: smooth_def)
  have tid: "ref_ok fk (Some i) (map t_id (update_where P g (d_tasks d)))"
    if "\<And>t. t_id (g t) = t_id t" for fk P and g :: "task \<Rightarrow> task"
    using find_row_SomeD [OF assms(2)] that by (auto simp: ref_ok_def map_update_where_frame)
  note body = fault tid assms(2,3) tx_Inr Let_def upd_task_def taskStatusTx_Inr insertTaskEvent_def
    move_db_def control_event_def now_def
  show "control_tx env i from_states to ev d =
             (Inr (), move_db i (task_to to now) (control_event env i ev) d)"
    if "t_status t \<in> set from_states"
    using that by (simp add: control_tx_def body)
  show "resume_tx env i d =
             (Inr (), move_db i (task_resumed now) (control_event env i EvQueued) d)"
    if "t_status t = Halted"
    using that by (simp add: resume_tx_def body)
  show "retry_tx env i d =
             (Inr (), move_db i (task_retried now) (control_event env i EvQueued) d)"
    if "t_status t = Dead \<or> t_status t = Cancelled"
    using that by (auto simp: retry_tx_def body)
qed

lemma smooth_guards:
  assumes "smooth env"
  shows "queue_guard env cfg q d = (Inr (queue_full cfg d q), d)"
    and "eligible_types env cfg tts d = (Inr (filter (\<lambda>tt. \<not> type_full cfg d tt) tts), d)"
proof -
  have fault: "e_fault env l = False" for l using assms by (simp add: smooth_def)
  show "queue_guard env cfg q d = (Inr (queue_full cfg d q), d)"
    by (simp add: queue_guard_def queue_full_def tx_Inr fault)
  show "eligible_types env cfg tts d = (Inr (filter (\<lambda>tt. \<not> type_full cfg d tt) tts), d)"
    by (induction tts) (auto simp: type_full_def tx_Inr fault)
qed

lemma smooth_claim_tx:
  assumes "smooth env" and "distinct (map t_id (d_tasks d))"
    and "claim_pick env cfg q types d = Some t"
    and "e_new_id env 0 \<notin> a_id ` set (d_attempts d)" and "e_new_id env 1 \<notin> ev_id ` set (d_events d)"
    and "ref_ok (e_fk env) (Some wid) (map w_id (d_workers d))"
  shows "claim_tx env cfg wid q types d =
     (Inr (Some (scanTask (claim_row (fmtDBTime (e_now env)) t), e_new_id env 0)),
          claim_db env wid (t_id t) d)"
proof -
  let ?el = "filter (\<lambda>tt. \<not> type_full cfg d tt) types"
  let ?now = "fmtDBTime (e_now env)"
  have fault: "e_fault env l = False" for l using assms(1) by (simp add: smooth_def)
  note pick = claim_pick_Some [OF assms(3)]
  have el: "?el \<noteq> []" using pick(4,8) by (auto simp: filter_empty_conv)
  from assms(3) obtain rest where
    o: "order_by (task_order env) (filter (claimable q ?el ?now) (d_tasks d)) = t # rest"
    by (auto simp: claim_pick_def split: if_splits list.splits)
  have found: "find_row t_id (t_id t) (d_tasks d) = Some t"
    using pick(1) assms(2) by (simp add: find_row_unique)
  have u: "claim_update env q ?el ?now d =
      (Inr (Some (scanTask (claim_row ?now t))), upd_task (t_id t) (claim_row ?now) d)"
    using o found by (simp add: claim_update_def upd_task_def Let_def find_row_update_same)
  have tid: "ref_ok fk (Some (t_id t)) (map t_id (update_where P (claim_row n) (d_tasks d)))" for fk P n
    using pick(1) by (simp add: ref_ok_def map_update_where_frame)
  have "claim_eligible env wid q ?el d =
      (Inr (Some (scanTask (claim_row ?now t), e_new_id env 0)), claim_db env wid (t_id t) d)"
    using assms(4-6) u
    by (simp add: claim_eligible_def Let_def tx_Inr fault claim_db_def claim_attempt_def upd_task_def
        upd_worker_def tid max_attempt_num_def del: One_nat_def)
  then show ?thesis
    using pick(6,7) el
    by (auto simp: claim_tx_def tx_Inr fault smooth_guards [OF assms(1)] simp del: filter_empty_conv)
qed

lemma smooth_claim_none:
  assumes "smooth env" and "claim_pick env cfg q types d = None"
  shows "ClaimTask env cfg wid q types d = (Inr None, d, [])"
proof -
  let ?el = "filter (\<lambda>tt. \<not> type_full cfg d tt) types"
  have fault: "e_fault env l = False" for l using assms(1) by (simp add: smooth_def)
  have "claim_eligible env wid q ?el d = (Inr None, d)"
    if "\<not> (c_global cfg \<le> count_where running (d_tasks d) \<or> queue_full cfg d q)"
    using that assms(2)
    by (auto simp: claim_pick_def claim_eligible_def claim_update_def Let_def tx_Inr fault
        split: list.splits)
  then have "claim_tx env cfg wid q types d = (Inr None, d)"
    by (auto simp: claim_tx_def tx_Inr fault smooth_guards [OF assms(1)] simp del: filter_empty_conv)
  then show ?thesis by (simp add: ClaimTask_def smooth_store_op [OF assms(1)])
qed

theorem apply_op_enabled:
  assumes "smooth env" and "distinct (map t_id (d_tasks d))" and "step cfg env op d d'"
  shows "apply_op cfg env op d = d'"
proof -
  have fault: "e_fault env l = False" for l using assms(1) by (simp add: smooth_def)
  note run = smooth_store_op [OF assms(1)]
  from assms(3) show ?thesis
  proof cases
    case (finish t aid f g ev detail a)
    then show ?thesis
      by (cases op) (auto simp: SucceedAttempt_def CancelAttempt_def FailAttempt_def
          TimeoutAttempt_def smooth_bodies [OF assms(1)] run split: prod.splits)
  next
    case (action i from_states g ev t)
    then show ?thesis
      by (cases op) (auto simp: HaltTask_def ResumeTask_def CancelTask_def RetryTask_def
          smooth_action_bodies [OF assms(1)] run)
  next
    case (claim types q t wid)
    then show ?thesis
      by (simp add: ClaimTask_def run smooth_claim_tx [OF assms(1,2)] del: One_nat_def)
  next
    case (create_task i)
    have "create_task_tx env i d = (Inr (new_task env i), d')"
      using create_task
      by (simp add: create_task_tx_def Let_def tx_Inr fault ref_ok_def del: One_nat_def)
    then show ?thesis using create_task(1) by (simp add: CreateTask_def run)
  next
    case (heartbeat aid)
    then show ?thesis by (simp add: UpdateHeartbeat_def run sql_def fault exec_def)
  next
    case (restart i t)
    have "restart_tx env i d = (Inr (restart_copy env i t), d')"
      using smooth_restart_tx [OF assms(1) restart(3-7)] restart(2) by simp
    then show ?thesis using restart(1) by (simp add: RestartTask_def run)
  next
    case requeue
    have "requeue_tx env d =
        (Inr (count_where (retry_due (fmtDBTime (e_now env))) (d_tasks d)), d')"
      using requeue by (simp add: requeue_tx_def Let_def tx_Inr fault)
    then show ?thesis using requeue(1) by (simp add: RequeueRetrying_def run)
  next
    case (create_worker i)
    have "create_worker_tx env i d = (Inr (new_worker env i), d')"
      using create_worker by (simp add: create_worker_tx_def Let_def tx_Inr fault new_worker_def)
    then show ?thesis using create_worker(1) by (simp add: CreateWorker_def run)
  next
    case (create_schedule i)
    have "create_schedule_tx env i d = (Inr (new_schedule env i), d')"
      using create_schedule
      by (simp add: create_schedule_tx_def Let_def tx_Inr fault new_schedule_def schedule_row_def)
    then show ?thesis using create_schedule(1) by (simp add: CreateSchedule_def run)
  next
    case (update_schedule i inp)
    have u: "update_schedule_tx env i inp d = (Inr (count_where (\<lambda>s. s_id s = i) (d_schedules d)), d')"
      using update_schedule by (simp add: update_schedule_tx_def tx_Inr fault)
    show ?thesis
    proof (cases "schedule_sets inp = []")
      case True
      have "update_where P (apply_sets []) rs = rs" for P and rs :: "schedule list"
        by (induction rs) (auto simp: apply_sets_def)
      then have "upd_schedule i (apply_sets []) d = d"
        by (simp add: upd_schedule_def)
      then show ?thesis using True update_schedule by (simp add: UpdateSchedule_def)
    next
      case False
      then show ?thesis using update_schedule(1) by (simp add: UpdateSchedule_def run u)
    qed
  next
    case (record_run i next_run)
    have "count_where (\<lambda>s. s_id s = i) (d_schedules d) \<noteq> 0"
      using record_run(3) by (auto simp: count_where_zero_iff)
    then have "record_run_tx env i next_run d = (Inr (), d')"
      using record_run by (simp add: record_run_tx_def tx_Inr fault)
    then show ?thesis using record_run(1) by (simp add: RecordScheduleRun_def run)
  qed
qed

subsection \<open>Reachable databases and invariants\<close>

text \<open>
  What a new worker's ID is assumed to be, beside what the primary key enforces: it is not empty and
  no attempt already names it.
\<close>

definition uuid_ok :: "env \<Rightarrow> store_call \<Rightarrow> db \<Rightarrow> bool" where
  "uuid_ok env op d \<longleftrightarrow>
     (case op of
        OpCreateWorker i \<Rightarrow>
          e_new_id env 0 \<noteq> [] \<and> (\<forall>a \<in> set (d_attempts d). a_worker_id a \<noteq> Some (e_new_id env 0))
      | _ \<Rightarrow> True)"

text \<open>The databases that calls the predicate allows lead to, from the empty one.\<close>

inductive reachable :: "config \<Rightarrow> (store_call \<Rightarrow> bool) \<Rightarrow> db \<Rightarrow> bool" for cfg allowed where
  init: "reachable cfg allowed empty_db"
| call: "reachable cfg allowed d \<Longrightarrow> uuid_ok env op d \<Longrightarrow> allowed op \<Longrightarrow>
     reachable cfg allowed (apply_op cfg env op d)"

abbreviation any_call :: "store_call \<Rightarrow> bool" where "any_call \<equiv> \<lambda>_. True"

lemma reachable_any: "reachable cfg allowed d \<Longrightarrow> reachable cfg any_call d"
  by (induction rule: reachable.induct) (auto intro: reachable.intros)

text \<open>
  A contract for the invariants of the store: it holds of the empty database and every step keeps
  it, in the databases that satisfy an invariant established before (\<open>J\<close>).  What the locale gives
  back is that it holds of every reachable database.
\<close>

locale store_invariant =
  fixes cfg :: config and allowed :: "store_call \<Rightarrow> bool" and J :: "db \<Rightarrow> bool" and I :: "db \<Rightarrow> bool"
  assumes start: "I empty_db"
    and keep: "step cfg env op d d' \<Longrightarrow> allowed op \<Longrightarrow> uuid_ok env op d \<Longrightarrow> J d \<Longrightarrow> I d \<Longrightarrow> I d'"
    and base: "reachable cfg allowed d \<Longrightarrow> J d"
    and base_keys: "J d \<Longrightarrow> I d \<Longrightarrow> distinct (map t_id (d_tasks d)) \<and> tasks_exist d"
begin

lemma keep_call: "allowed op \<Longrightarrow> uuid_ok env op d \<Longrightarrow> J d \<Longrightarrow> I d \<Longrightarrow> I (apply_op cfg env op d)"
  using apply_op_step [of d cfg env op] base_keys [of d] keep [of env op d] by metis

lemma always: "reachable cfg allowed d \<Longrightarrow> I d"
  by (induction rule: reachable.induct) (simp_all add: start keep_call base)

end

subsection \<open>What the updates of a step leave alone\<close>

lemma outcome_of_frame:
  assumes "outcome_of env op t = Some (aid, f, g, ev, detail)"
  shows "a_id (f a) = a_id a" "a_task_id (f a) = a_task_id a" "a_num (f a) = a_num a"
    "a_worker_id (f a) = a_worker_id a" "a_started_at (f a) = a_started_at a"
    "a_status (f a) \<in> {ASucceeded, AFailed, ACancelled}"
    "t_id (g t') = t_id t'" "t_type (g t') = t_type t'" "t_queue (g t') = t_queue t'"
    "t_max_retries (g t') = t_max_retries t'"
    "t_status (g t') \<in> {Succeeded, Retrying, Dead, Cancelled}" "ev \<noteq> EvStarted"
proof -
  have rd: "(t_id (upd t') = t_id t' \<and> t_type (upd t') = t_type t' \<and> t_queue (upd t') = t_queue t' \<and>
      t_max_retries (upd t') = t_max_retries t' \<and> t_status (upd t') \<in> {Retrying, Dead}) \<and>
      ev \<noteq> EvStarted"
    if "retry_decision env i m rc mr = (ev, detail, label, upd)" for i m rc mr ev detail label upd t'
    using retry_decision_cases [OF that] by auto
  show "a_id (f a) = a_id a" "a_task_id (f a) = a_task_id a" "a_num (f a) = a_num a"
    "a_worker_id (f a) = a_worker_id a" "a_started_at (f a) = a_started_at a"
    "a_status (f a) \<in> {ASucceeded, AFailed, ACancelled}"
    "t_id (g t') = t_id t'" "t_type (g t') = t_type t'" "t_queue (g t') = t_queue t'"
    "t_max_retries (g t') = t_max_retries t'"
    "t_status (g t') \<in> {Succeeded, Retrying, Dead, Cancelled}" "ev \<noteq> EvStarted"
    using assms by (cases op; auto split: prod.splits dest: rd [where t' = t'] simp: attempt_succeeded_def
        attempt_failed_def attempt_cancelled_def)+
qed

lemma outcome_idle:
  assumes "outcome_of env op t = Some (aid, f, g, ev, detail)"
  shows "a_status (f a) \<noteq> ARunning" "\<not> running (g t')"
  using outcome_of_frame(6) [OF assms, of a] outcome_of_frame(11) [OF assms, of t']
  by (auto simp: running_def)

lemma action_of_frame:
  assumes "action_of env op = Some (i, from_states, g, ev)"
  shows "t_id (g t) = t_id t" "t_type (g t) = t_type t" "t_queue (g t) = t_queue t"
    "t_max_retries (g t) = t_max_retries t" "t_status (g t) \<in> {Halted, Queued, Cancelled}"
    "t_retry_count (g t) = t_retry_count t \<or> t_retry_count (g t) = 0" "ev \<noteq> EvStarted"
  using assms by (cases op; auto)+

lemma action_idle: "action_of env op = Some (i, from_states, g, ev) \<Longrightarrow> \<not> running (g t)"
  using action_of_frame(5) [of env op i from_states g ev t] by (auto simp: running_def)

end
