(* ===== verification/ETQ_Invariants.thy ===== *)
theory ETQ_Invariants
  imports ETQ_Machine
begin

section \<open>Invariants of the store\<close>

text \<open>
  What holds of every database the store can reach, whatever the calls, their order, their faults
  and their environments.  Each invariant interprets \<open>store_invariant\<close>; the first is the base the
  others rest on.
\<close>

subsection \<open>Keys and references\<close>

definition keys_ok :: "db \<Rightarrow> bool" where
  "keys_ok d \<longleftrightarrow>
     distinct (map t_id (d_tasks d)) \<and> distinct (map a_id (d_attempts d)) \<and>
     distinct (map ev_id (d_events d)) \<and> distinct (map w_id (d_workers d)) \<and>
     distinct (map s_id (d_schedules d))"

definition base_ok :: "db \<Rightarrow> bool" where
  "base_ok d \<longleftrightarrow> keys_ok d \<and> tasks_exist d"

lemma release_rows_keys [simp]: "map w_id (release_rows wid ws) = map w_id ws"
  by (simp add: release_rows_def map_update_where_frame)

lemma keys_ok_step:
  assumes "step cfg env op d d'" and "keys_ok d"
  shows "keys_ok d'"
  using assms
proof cases
  case (finish t aid f g ev detail a)
  note fr = outcome_of_frame [OF finish(2)]
  from finish assms(2) show ?thesis
    by (simp add: keys_ok_def finish_db_def map_update_where_frame fr)
next
  case (action i from_states g ev t)
  note fr = action_of_frame [OF action(2)]
  from action assms(2) show ?thesis
    by (simp add: keys_ok_def move_db_def control_event_def map_update_where_frame fr)
next
  case (create_task i)
  then show ?thesis using assms(2) by (simp add: keys_ok_def del: One_nat_def)
next
  case (claim types q t wid)
  then show ?thesis using assms(2)
    by (simp add: keys_ok_def claim_db_def claim_attempt_def map_update_where_frame del: One_nat_def)
next
  case (restart i t)
  then show ?thesis using assms(2)
    by (simp add: keys_ok_def restart_db_def map_update_where_frame image_update_where_frame
        del: One_nat_def)
qed (use assms(2) in \<open>simp_all add: keys_ok_def heartbeat_db_def requeue_db_def upd_schedule_def
    map_update_where_frame new_worker_def new_schedule_def schedule_row_def\<close>)

lemma tasks_exist_image:
  "tasks_exist d \<longleftrightarrow> a_task_id ` set (d_attempts d) \<subseteq> t_id ` set (d_tasks d) \<and>
     ev_task_id ` set (d_events d) \<subseteq> t_id ` set (d_tasks d)"
  by (auto simp: tasks_exist_def)

lemma tasks_exist_step:
  assumes "step cfg env op d d'" and "tasks_exist d"
  shows "tasks_exist d'"
  using assms
proof cases
  case (finish t aid f g ev detail a)
  note fr = outcome_of_frame [OF finish(2)]
  from finish(3) have "a \<in> set (d_attempts d)" by (simp add: find_row_SomeD)
  with finish assms(2) show ?thesis
    by (auto simp: tasks_exist_image finish_db_def image_update_where_frame fr)
next
  case (action i from_states g ev t)
  note fr = action_of_frame [OF action(2)]
  from action(3) have "i \<in> t_id ` set (d_tasks d)" by (auto dest: find_row_SomeD)
  with action assms(2) show ?thesis
    by (auto simp: tasks_exist_image move_db_def control_event_def image_update_where_frame fr)
next
  case (claim types q t wid)
  then show ?thesis using assms(2) claim_pick_Some(1) [OF claim(4)]
    by (auto simp: tasks_exist_image claim_db_def claim_attempt_def image_update_where_frame)
next
  case (restart i t)
  then show ?thesis using assms(2)
    by (auto simp: tasks_exist_image restart_db_def image_update_where_frame)
next
  case (heartbeat aid)
  then show ?thesis using assms(2)
    by (auto simp: tasks_exist_image heartbeat_db_def image_update_where_frame)
next
  case requeue
  then show ?thesis using assms(2)
    by (auto simp: tasks_exist_image requeue_db_def image_update_where_frame)
qed (use assms(2) in \<open>auto simp: tasks_exist_image upd_schedule_def\<close>)

interpretation base_inv: store_invariant cfg allowed "\<lambda>_. True" base_ok for cfg allowed
proof unfold_locales
  show "base_ok empty_db" by (simp add: base_ok_def keys_ok_def tasks_exist_def empty_db_def)
qed (auto simp: base_ok_def keys_ok_def intro: keys_ok_step tasks_exist_step
    dest: keys_ok_step [unfolded keys_ok_def])

lemmas reachable_base = base_inv.always

lemma base_ok_D: "base_ok d \<Longrightarrow> distinct (map t_id (d_tasks d)) \<and> tasks_exist d"
  by (simp add: base_ok_def keys_ok_def)

text \<open>The row an operation found is the only one under its key.\<close>

lemma found_task:
  "base_ok d \<Longrightarrow> find_row t_id i (d_tasks d) = Some t \<Longrightarrow> x \<in> set (d_tasks d) \<Longrightarrow> t_id x = i \<Longrightarrow> x = t"
  by (auto simp: base_ok_def keys_ok_def find_row_unique dest: distinct_keys_eq)

lemma found_attempt:
  "base_ok d \<Longrightarrow> find_row a_id i (d_attempts d) = Some a \<Longrightarrow> x \<in> set (d_attempts d) \<Longrightarrow> a_id x = a_id a \<Longrightarrow>
     x = a"
  by (auto simp: base_ok_def keys_ok_def find_row_unique dest: distinct_keys_eq)

lemma reachable_keys:
  "reachable cfg allowed d \<Longrightarrow> distinct (map t_id (d_tasks d)) \<and> distinct (map a_id (d_attempts d)) \<and>
     distinct (map w_id (d_workers d))"
  using reachable_base [of cfg allowed d] by (simp add: base_ok_def keys_ok_def)

subsection \<open>Rows of tasks and attempts\<close>

text \<open>
  An attempt has a finish time exactly when it is not running, an error exactly when it failed and
  a result only when it succeeded; it names its worker and its start.
\<close>

definition attempt_ok :: "attempt \<Rightarrow> bool" where
  "attempt_ok a \<longleftrightarrow>
     (a_status a = ARunning \<longleftrightarrow> a_finished_at a = None) \<and>
     (a_status a = AFailed \<longleftrightarrow> a_error a \<noteq> None) \<and>
     (a_result a \<noteq> None \<longrightarrow> a_status a = ASucceeded) \<and>
     a_started_at a \<noteq> None \<and> a_worker_id a \<noteq> None \<and> 1 \<le> a_num a"

text \<open>A task's retries stay within its budget, and it has a queue and a nonzero budget.\<close>

definition task_ok :: "task \<Rightarrow> bool" where
  "task_ok t \<longleftrightarrow>
     0 \<le> t_retry_count t \<and> t_retry_count t \<le> max 0 (t_max_retries t) \<and>
     t_max_retries t \<noteq> 0 \<and> t_queue t \<noteq> []"

definition rows_ok :: "db \<Rightarrow> bool" where
  "rows_ok d \<longleftrightarrow> (\<forall>t \<in> set (d_tasks d). task_ok t) \<and> (\<forall>a \<in> set (d_attempts d). attempt_ok a)"

lemma fold_max_ge: "(n::int) \<le> fold max ns n"
  proof (induction ns arbitrary: n)
  case (Cons m ns)
  show ?case using order_trans [OF max.cobounded2 Cons, of n m] by simp
qed simp

lemma max_attempt_num_ge:
  assumes "\<forall>a \<in> set (d_attempts d). 1 \<le> a_num a"
  shows "0 \<le> max_attempt_num i d"
proof (cases "map a_num (filter (\<lambda>a. a_task_id a = i) (d_attempts d))")
  case (Cons n ns)
  then have "n \<in> a_num ` set (filter (\<lambda>a. a_task_id a = i) (d_attempts d))"
    by (metis list.set_intros(1) set_map)
  then have "1 \<le> n" using assms by auto
  then show ?thesis using fold_max_ge [of n ns] Cons by (simp add: max_attempt_num_def)
qed (simp add: max_attempt_num_def)

lemma outcome_attempt_ok:
  assumes "outcome_of env op t = Some (aid, f, g, ev, detail)" and "attempt_ok a" and "a_status a = ARunning"
  shows "attempt_ok (f a)"
  using assms by (cases op) (auto simp: attempt_ok_def attempt_succeeded_def attempt_failed_def
      attempt_cancelled_def split: prod.splits)

lemma outcome_task_ok:
  assumes "outcome_of env op t = Some (aid, f, g, ev, detail)" and "task_ok t"
  shows "task_ok (g t)"
  using assms by (cases op) (auto simp: task_ok_def split: prod.splits dest!: retry_decision_cases)

lemma action_task_ok:
  assumes "action_of env op = Some (i, from_states, g, ev)" and "task_ok t"
  shows "task_ok (g t)"
  using assms by (cases op) (auto simp: task_ok_def)

lemma rows_ok_step:
  assumes "step cfg env op d d'" and "base_ok d" and "rows_ok d"
  shows "rows_ok d'"
proof -
  from assms(3) have ts: "\<forall>t \<in> set (d_tasks d). task_ok t"
    and as: "\<forall>a \<in> set (d_attempts d). attempt_ok a" by (simp_all add: rows_ok_def)
  from assms(1) show ?thesis
  proof cases
    case (finish t aid f g ev detail a)
    have "\<forall>x \<in> set (update_where (\<lambda>x. a_id x = a_id a) f (d_attempts d)). attempt_ok x"
      using as by (rule ball_update_where)
        (use found_attempt [OF assms(2) finish(3)] finish(4) outcome_attempt_ok [OF finish(2)] in blast)
    moreover have "\<forall>x \<in> set (update_where (\<lambda>t. t_id t = a_task_id a) g (d_tasks d)). task_ok x"
      using ts by (rule ball_update_where)
        (use found_task [OF assms(2) finish(5)] outcome_task_ok [OF finish(2)] in blast)
    ultimately show ?thesis by (simp add: finish(1) rows_ok_def finish_db_def)
  next
    case (action i from_states g ev t)
    have "\<forall>x \<in> set (update_where (\<lambda>t. t_id t = i) g (d_tasks d)). task_ok x"
      using ts by (rule ball_update_where) (rule action_task_ok [OF action(2)])
    then show ?thesis using action(1) as by (simp add: rows_ok_def move_db_def)
  next
    case (create_task i)
    then show ?thesis using ts as by (auto simp: rows_ok_def task_ok_def new_task_def Let_def)
  next
    case (claim types q t wid)
    have "1 \<le> a_num a" if "a \<in> set (d_attempts d)" for a
      using as that by (simp add: attempt_ok_def)
    with max_attempt_num_ge [of d "t_id t"] have "attempt_ok (claim_attempt env wid (t_id t) d)"
      by (simp add: attempt_ok_def claim_attempt_def)
    then show ?thesis using claim ts as
      by (auto simp: rows_ok_def claim_db_def set_update_where task_ok_def)
  next
    case (restart i t)
    then have "task_ok t" using ts by (auto dest: find_row_SomeD)
    then show ?thesis using restart ts as
      by (auto simp: rows_ok_def restart_db_def set_update_where task_ok_def)
  next
    case (heartbeat aid)
    then show ?thesis using ts as
      by (auto simp: rows_ok_def heartbeat_db_def set_update_where attempt_ok_def)
  next
    case requeue
    then show ?thesis using ts as
      by (auto simp: rows_ok_def requeue_db_def set_update_where task_ok_def)
  qed (use ts as in \<open>simp_all add: rows_ok_def upd_schedule_def\<close>)
qed

interpretation rows_inv: store_invariant cfg allowed base_ok rows_ok for cfg allowed
proof unfold_locales
  show "rows_ok empty_db" by (simp add: rows_ok_def empty_db_def)
qed (auto intro: rows_ok_step reachable_base dest: base_ok_D)

subsection \<open>The load of the workers\<close>

text \<open>
  The counter of a worker is the number of running attempts that name it, and its status says
  whether the counter has reached its concurrency.
\<close>

definition load_of :: "string \<Rightarrow> attempt list \<Rightarrow> int" where
  "load_of wid as = count_where (\<lambda>a. a_status a = ARunning \<and> a_worker_id a = Some wid) as"

definition loads_ok :: "db \<Rightarrow> bool" where
  "loads_ok d \<longleftrightarrow>
     (\<forall>w \<in> set (d_workers d). w_id w \<noteq> [] \<and> worker_ok w \<and>
        w_current_task_count w = load_of (w_id w) (d_attempts d))"

lemma load_of_finish:
  assumes "distinct (map a_id as)" and "find_row a_id aid as = Some a" and "a_status a = ARunning"
    and "a_status (f a) \<noteq> ARunning"
  shows "load_of wid (update_where (\<lambda>x. a_id x = a_id a) f as) =
           load_of wid as - of_bool (a_worker_id a = Some wid)"
proof -
  have "find_row a_id (a_id a) as = Some a" using assms(2) by (auto dest: find_row_SomeD)
  then show ?thesis
    using assms by (simp add: load_of_def count_where_update_row [where key = a_id])
qed

lemma release_rows_D:
  assumes "w' \<in> set (release_rows (worker_str a) ws)" and "\<forall>w \<in> set ws. w_id w \<noteq> []"
  obtains w where "w \<in> set ws" and "w_id w' = w_id w"
    and "w' = (if a_worker_id a = Some (w_id w) then worker_dec w else w)"
  using assms by (auto simp: release_rows_def worker_str_def set_update_where split: if_splits option.splits)

lemma loads_ok_step:
  assumes "step cfg env op d d'" and "uuid_ok env op d" and "base_ok d" and "loads_ok d"
  shows "loads_ok d'"
proof -
  have ids: "distinct (map a_id (d_attempts d))" using assms(3) by (simp add: base_ok_def keys_ok_def)
  from assms(1) show ?thesis
  proof cases
    case (finish t aid f g ev detail a)
    have load: "load_of wid (update_where (\<lambda>x. a_id x = a_id a) f (d_attempts d)) =
        load_of wid (d_attempts d) - of_bool (a_worker_id a = Some wid)" for wid
      by (rule load_of_finish [OF ids finish(3,4)]) (rule outcome_idle(1) [OF finish(2)])
    have ws: "\<forall>w \<in> set (d_workers d). w_id w \<noteq> []" using assms(4) by (simp add: loads_ok_def)
    have "w_id w' \<noteq> [] \<and> worker_ok w' \<and> w_current_task_count w' =
        load_of (w_id w') (d_attempts d) - of_bool (a_worker_id a = Some (w_id w'))"
      if "w' \<in> set (release_rows (worker_str a) (d_workers d))" for w'
    proof -
      from release_rows_D [OF that ws] obtain w where w: "w \<in> set (d_workers d)" "w_id w' = w_id w"
        "w' = (if a_worker_id a = Some (w_id w) then worker_dec w else w)" by blast
      with assms(4) show ?thesis by (simp add: loads_ok_def worker_ok_dec split: if_splits)
    qed
    then show ?thesis by (simp add: loads_ok_def finish(1) finish_db_def load)
  next
    case (action i from_states g ev t)
    then show ?thesis using assms(4) by (simp add: loads_ok_def move_db_def)
  next
    case (claim types q t wid)
    have load: "load_of v (d_attempts d @ [claim_attempt env wid i d]) =
        load_of v (d_attempts d) + of_bool (v = wid)" for v i
      by (auto simp: load_of_def claim_attempt_def)
    have "\<forall>w \<in> set (update_where (\<lambda>w. w_id w = wid) worker_inc (d_workers d)).
        w_id w \<noteq> [] \<and> worker_ok w \<and>
        w_current_task_count w = load_of (w_id w) (d_attempts d) + of_bool (w_id w = wid)"
      using assms(4) unfolding set_update_where loads_ok_def
      by (intro ballI) (force simp: worker_ok_inc split: if_splits)
    then show ?thesis by (simp only: loads_ok_def claim(2) claim_db_fields load)
  next
    case (heartbeat aid)
    have "load_of wid (update_where P (\<lambda>a. a\<lparr>a_heartbeat_at := h\<rparr>) as) = load_of wid as" for wid P h as
      by (simp add: load_of_def count_where_update_frame)
    then show ?thesis using heartbeat assms(4) by (simp add: loads_ok_def heartbeat_db_def)
  next
    case (create_worker i)
    have "load_of (e_new_id env 0) (d_attempts d) = 0"
      using assms(2) create_worker(1) by (auto simp: load_of_def count_where_zero_iff uuid_ok_def)
    moreover have "worker_ok ((new_worker env i)\<lparr>w_started_at := n\<rparr>)" for n
      by (simp add: worker_ok_def new_worker_def)
    ultimately show ?thesis using create_worker assms(2,4)
      by (auto simp: loads_ok_def new_worker_def uuid_ok_def)
  qed (use assms(4) in \<open>simp_all add: loads_ok_def restart_db_def requeue_db_def upd_schedule_def\<close>)
qed

interpretation loads_inv: store_invariant cfg allowed base_ok loads_ok for cfg allowed
proof unfold_locales
  show "loads_ok empty_db" by (simp add: loads_ok_def empty_db_def)
qed (auto intro: loads_ok_step reachable_base dest: base_ok_D)

subsection \<open>The execution limits\<close>

definition running_count :: "(task \<Rightarrow> bool) \<Rightarrow> db \<Rightarrow> int" where
  "running_count S d = count_where (\<lambda>t. running t \<and> S t) (d_tasks d)"

text \<open>Only a claim adds to a count of running tasks, and it adds the task it picked.\<close>

lemma running_count_step:
  assumes "step cfg env op d d'" and "base_ok d"
    and S: "\<And>t t'. t_type t = t_type t' \<Longrightarrow> t_queue t = t_queue t' \<Longrightarrow> S t = S t'"
  shows "running_count S d' \<le> running_count S d \<or>
    (\<exists>q types t. claim_pick env cfg q types d = Some t \<and>
       running_count S d' = running_count S d + of_bool (S t))"
  using assms(1)
proof cases
  case (finish t aid f g ev detail a)
  note fr = outcome_of_frame [OF finish(2)]
  note idle = outcome_idle(2) [OF finish(2)]
  have "running_count S d' \<le> running_count S d"
    by (simp add: finish(1) finish_db_def running_count_def)
      (rule count_where_update_le, simp add: idle)
  then show ?thesis ..
next
  case (action i from_states g ev t)
  note idle = action_idle [OF action(2)]
  have "running_count S d' \<le> running_count S d"
    by (simp add: action(1) move_db_def running_count_def)
      (rule count_where_update_le, simp add: idle)
  then show ?thesis ..
next
  case (claim types q t wid)
  note pick = claim_pick_Some [OF claim(4)]
  have "find_row t_id (t_id t) (d_tasks d) = Some t" and ids: "distinct (map t_id (d_tasks d))"
    using pick(1) assms(2) by (simp_all add: find_row_unique base_ok_def keys_ok_def)
  moreover have "S (claim_row n t) = S t" for n by (rule S) simp_all
  ultimately have "running_count S d' = running_count S d + of_bool (S t)"
    using pick(2)
    by (simp add: claim(2) claim_db_def running_count_def count_where_update_row [OF ids] running_def)
  then show ?thesis using claim(4) by blast
next
  case requeue
  then show ?thesis
    by (intro disjI1, simp add: requeue_db_def running_count_def)
      (rule count_where_update_le, simp add: running_def)
next
  case (restart i t)
  then show ?thesis
    by (intro disjI1, simp add: restart_db_def running_count_def running_def)
      (rule count_where_update_le, simp add: running_def)
qed (simp_all add: running_count_def running_def heartbeat_db_def upd_schedule_def)

definition limits_ok :: "config \<Rightarrow> db \<Rightarrow> bool" where
  "limits_ok cfg d \<longleftrightarrow>
     running_count (\<lambda>_. True) d \<le> max 0 (c_global cfg) \<and>
     (\<forall>q. 0 < QueueLimit cfg q \<longrightarrow> running_count (\<lambda>t. t_queue t = q) d \<le> QueueLimit cfg q) \<and>
     (\<forall>tt. 0 < TaskTypeLimit cfg tt \<longrightarrow> running_count (\<lambda>t. t_type t = tt) d \<le> TaskTypeLimit cfg tt)"

lemma claim_pick_limits:
  assumes "claim_pick env cfg q types d = Some t"
  shows "running_count (\<lambda>_. True) d < c_global cfg"
    and "0 < QueueLimit cfg (t_queue t) \<Longrightarrow>
           running_count (\<lambda>x. t_queue x = t_queue t) d < QueueLimit cfg (t_queue t)"
    and "0 < TaskTypeLimit cfg (t_type t) \<Longrightarrow>
           running_count (\<lambda>x. t_type x = t_type t) d < TaskTypeLimit cfg (t_type t)"
  using claim_pick_Some(3,6,7,8) [OF assms]
  by (auto simp: running_count_def queue_full_def type_full_def)

lemma limits_ok_step:
  assumes "step cfg env op d d'" and "base_ok d" and "limits_ok cfg d"
  shows "limits_ok cfg d'"
proof -
  note cnt = running_count_step [OF assms(1,2)]
  have "running_count (\<lambda>_. True) d' \<le> max 0 (c_global cfg)"
    using cnt [of "\<lambda>_. True"] assms(3) by (force simp: limits_ok_def dest: claim_pick_limits(1))
  moreover have "running_count (\<lambda>t. t_queue t = q) d' \<le> QueueLimit cfg q" if "0 < QueueLimit cfg q" for q
    using cnt [of "\<lambda>t. t_queue t = q"] assms(3) that
    by (force simp: limits_ok_def of_bool_def dest: claim_pick_limits(2) split: if_splits)
  moreover have "running_count (\<lambda>t. t_type t = tt) d' \<le> TaskTypeLimit cfg tt"
    if "0 < TaskTypeLimit cfg tt" for tt
    using cnt [of "\<lambda>t. t_type t = tt"] assms(3) that
    by (force simp: limits_ok_def of_bool_def dest: claim_pick_limits(3) split: if_splits)
  ultimately show ?thesis by (simp add: limits_ok_def)
qed

interpretation limits_inv: store_invariant cfg allowed base_ok "limits_ok cfg" for cfg allowed
proof unfold_locales
  show "limits_ok cfg empty_db" by (simp add: limits_ok_def empty_db_def running_count_def)
qed (auto intro: limits_ok_step reachable_base dest: base_ok_D)

end
