(* ===== verification/ETQ_Lifecycle.thy ===== *)
theory ETQ_Lifecycle
  imports ETQ_Invariants
begin

section \<open>The life of a task and of its attempts\<close>

text \<open>
  The record the store keeps of a task's execution (numbered attempts, the events of the timeline),
  what can never change once written, the status edges of each operation, and what is true of runs
  in which no task is halted: there a task is running exactly while one attempt of it is, so that
  the limits on running tasks are limits on running attempts.
\<close>

subsection \<open>Numbered attempts and the timeline\<close>

definition attempts_of :: "string \<Rightarrow> db \<Rightarrow> attempt list" where
  "attempts_of i d = filter (\<lambda>a. a_task_id a = i) (d_attempts d)"

definition started_count :: "string \<Rightarrow> db \<Rightarrow> int" where
  "started_count i d = count_where (\<lambda>e. ev_event e = EvStarted \<and> ev_task_id e = i) (d_events d)"

text \<open>
  The attempts of a task are numbered 1, 2, ... in the order they were made, and the timeline has
  one started event for each of them and a queued event for the task.
\<close>

definition history_ok :: "db \<Rightarrow> bool" where
  "history_ok d \<longleftrightarrow>
     (\<forall>i. map a_num (attempts_of i d) = [1..int (length (attempts_of i d))] \<and>
          started_count i d = int (length (attempts_of i d))) \<and>
     (\<forall>t \<in> set (d_tasks d). \<exists>e \<in> set (d_events d). ev_task_id e = t_id t \<and> ev_event e = EvQueued)"

lemma max_attempt_num_upto:
  assumes "map a_num (attempts_of i d) = [1..int n]"
  shows "max_attempt_num i d = int n"
proof (cases n)
  case 0
  then show ?thesis using assms by (simp add: max_attempt_num_def attempts_of_def)
next
  case (Suc m)
  then have eq: "[1..int n] = 1 # [2..int n]" by (simp add: upto_rec1)
  have "fold max [2..int n] 1 = Max (set (1 # [2..int n]))" by (rule Max.set_eq_fold [symmetric])
  also have "\<dots> = Max {1..int n}" using eq by (metis set_upto)
  also have "\<dots> = int n" using Suc by (intro Max_eqI) auto
  finally show ?thesis using assms eq by (simp add: max_attempt_num_def attempts_of_def)
qed

lemma attempts_of_update:
  "(\<And>a. a_task_id (f a) = a_task_id a) \<Longrightarrow>
     filter (\<lambda>a. a_task_id a = i) (update_where P f as) =
       update_where P f (filter (\<lambda>a. a_task_id a = i) as)"
  by (induction as) auto

text \<open>Every step but a claim leaves the numbers and the started events as they are.\<close>

lemma history_step:
  assumes "step cfg env op d d'"
  shows "(map a_num (attempts_of i d') = map a_num (attempts_of i d) \<and>
            started_count i d' = started_count i d) \<or>
         (\<exists>q types t wid. claim_pick env cfg q types d = Some t \<and> d' = claim_db env wid (t_id t) d)"
  using assms
proof cases
  case (finish t aid f g ev detail a)
  note fr = outcome_of_frame [OF finish(2)]
  from finish(1) show ?thesis
    by (simp add: attempts_of_def finish_db_def attempts_of_update map_update_where_frame fr
        started_count_def)
next
  case (action i from_states g ev t)
  then show ?thesis
    by (simp add: attempts_of_def move_db_def started_count_def control_event_def action_of_frame(7))
next
  case (claim types q t wid)
  then show ?thesis by blast
qed (auto simp: attempts_of_def started_count_def heartbeat_db_def attempts_of_update
    map_update_where_frame restart_db_def requeue_db_def upd_schedule_def)

lemma tasks_step:
  assumes "step cfg env op d d'"
  shows "set (d_events d) \<subseteq> set (d_events d') \<and>
    (\<forall>i \<in> t_id ` set (d_tasks d'). i \<in> t_id ` set (d_tasks d) \<or>
       (\<exists>e \<in> set (d_events d'). ev_task_id e = i \<and> ev_event e = EvQueued))"
  using assms
proof cases
  case (finish t aid f g ev detail a)
  note fr = outcome_of_frame [OF finish(2)]
  from finish(1) show ?thesis by (simp add: finish_db_def image_update_where_frame fr subset_insertI)
next
  case (action i from_states g ev t)
  then show ?thesis by (simp add: move_db_def image_update_where_frame action_of_frame subset_insertI)
next
  case (claim types q t wid)
  then show ?thesis by (simp add: claim_db_def image_update_where_frame subset_insertI)
next
  case (restart i t)
  then show ?thesis by (simp add: restart_db_def image_update_where_frame subset_insertI)
qed (auto simp: heartbeat_db_def requeue_db_def upd_schedule_def image_update_where_frame)

lemma history_ok_step:
  assumes "step cfg env op d d'" and "history_ok d"
  shows "history_ok d'"
proof -
  have "map a_num (attempts_of i d') = [1..int (length (attempts_of i d'))] \<and>
          started_count i d' = int (length (attempts_of i d'))" for i
    using history_step [OF assms(1), of i]
  proof (elim disjE exE conjE)
    assume eq: "map a_num (attempts_of i d') = map a_num (attempts_of i d)"
      "started_count i d' = started_count i d"
    have "length (attempts_of i d') = length (attempts_of i d)" by (metis eq(1) length_map)
    then show ?thesis using eq assms(2) by (simp add: history_ok_def)
  next
    fix q types t wid
    assume d': "d' = claim_db env wid (t_id t) d"
    let ?n = "length (attempts_of i d)"
    have old: "map a_num (attempts_of i d) = [1..int ?n]" "started_count i d = int ?n"
      using assms(2) by (auto simp: history_ok_def)
    show ?thesis
    proof (cases "t_id t = i")
      case True
      then have "attempts_of i d' = attempts_of i d @ [claim_attempt env wid i d]"
        by (simp add: attempts_of_def d' claim_db_def claim_attempt_def)
      moreover have "started_count i d' = started_count i d + 1"
        using True by (simp add: started_count_def d' claim_db_def)
      moreover have "a_num (claim_attempt env wid i d) = int ?n + 1"
        by (simp add: claim_attempt_def max_attempt_num_upto [OF old(1)])
      ultimately show ?thesis using old upto_rec2 [of 1 "int ?n + 1"] by (simp add: add.commute)
    next
      case False
      then have "attempts_of i d' = attempts_of i d" "started_count i d' = started_count i d"
        by (simp_all add: attempts_of_def started_count_def d' claim_db_def claim_attempt_def)
      then show ?thesis using old by simp
    qed
  qed
  moreover have "\<exists>e \<in> set (d_events d'). ev_task_id e = t_id t \<and> ev_event e = EvQueued"
    if "t \<in> set (d_tasks d')" for t
  proof -
    have grow: "set (d_events d) \<subseteq> set (d_events d')"
      and new: "t_id t \<in> t_id ` set (d_tasks d) \<or>
        (\<exists>e \<in> set (d_events d'). ev_task_id e = t_id t \<and> ev_event e = EvQueued)"
      using tasks_step [OF assms(1)] that by auto
    from new show ?thesis
    proof
      assume "t_id t \<in> t_id ` set (d_tasks d)"
      then obtain e where "e \<in> set (d_events d)" "ev_task_id e = t_id t" "ev_event e = EvQueued"
        using assms(2) by (auto simp: history_ok_def)
      then show ?thesis using grow by blast
    qed
  qed
  ultimately show ?thesis by (simp add: history_ok_def)
qed

interpretation history_inv: store_invariant cfg allowed base_ok history_ok for cfg allowed
proof unfold_locales
  show "history_ok empty_db"
    by (simp add: history_ok_def attempts_of_def started_count_def empty_db_def)
qed (auto intro: history_ok_step reachable_base dest: base_ok_D)

subsection \<open>What is never rewritten\<close>

text \<open>The columns of a task and of an attempt that no operation assigns after the INSERT.\<close>

definition task_core ::
  "task \<Rightarrow> string \<times> string \<times> string \<times> bytes option \<times> int \<times> int \<times> int option \<times> string option \<times>
     string option \<times> dbtime" where
  "task_core t = (t_id t, t_type t, t_queue t, t_payload t, t_priority t, t_max_retries t,
                  t_timeout_secs t, t_parent_id t, t_schedule_id t, t_created_at t)"

definition attempt_core :: "attempt \<Rightarrow> string \<times> string \<times> int \<times> string option \<times> dbtime option" where
  "attempt_core a = (a_id a, a_task_id a, a_num a, a_worker_id a, a_started_at a)"

text \<open>
  A database extends another: the tasks and attempts of the first are there, in place, with the
  columns they were made with, every finished attempt is there unchanged, and the timeline of the
  first is the beginning of that of the second.
\<close>

definition extends :: "db \<Rightarrow> db \<Rightarrow> bool" where
  "extends d d' \<longleftrightarrow>
     (\<exists>ts. map task_core (d_tasks d') = map task_core (d_tasks d) @ ts) \<and>
     (\<exists>as. map attempt_core (d_attempts d') = map attempt_core (d_attempts d) @ as) \<and>
     (\<exists>es. d_events d' = d_events d @ es) \<and>
     (\<forall>a \<in> set (d_attempts d). a_status a \<noteq> ARunning \<longrightarrow> a \<in> set (d_attempts d'))"

lemma extends_refl [simp]: "extends d d"
  by (simp add: extends_def)

lemma extends_trans: "extends d d' \<Longrightarrow> extends d' d'' \<Longrightarrow> extends d d''"
  unfolding extends_def by (metis append.assoc)

lemma outcome_core:
  assumes "outcome_of env op t = Some (aid, f, g, ev, detail)"
  shows "task_core (g x) = task_core x" "attempt_core (f a) = attempt_core a"
  using assms by (cases op; auto simp: task_core_def attempt_core_def task_to_def task_retrying_def
      attempt_succeeded_def attempt_failed_def attempt_cancelled_def split: prod.splits
      dest!: retry_decision_cases)+

lemma action_core: "action_of env op = Some (i, from_states, g, ev) \<Longrightarrow> task_core (g x) = task_core x"
  by (cases op) (auto simp: task_core_def task_to_def task_resumed_def task_retried_def)

lemma task_core_frame:
  "task_core (task_to st n t) = task_core t" "task_core (claim_row n t) = task_core t"
  by (simp_all add: task_core_def task_to_def claim_row_def)

lemma map_update_append_frame:
  "(\<And>r. P r \<Longrightarrow> g (f r) = g r) \<Longrightarrow> \<exists>ys. map g (update_where P f rs @ xs) = map g rs @ ys"
  by (simp add: map_update_where_frame)

lemma kept_row: "r \<in> set rs \<Longrightarrow> \<not> P r \<Longrightarrow> r \<in> set (update_where P f rs)"
  by (force simp: set_update_where)

lemma extends_step:
  assumes "step cfg env op d d'" and "base_ok d"
  shows "extends d d'"
  using assms(1)
proof cases
  case (finish t aid f g ev detail a)
  note core = outcome_core [OF finish(2)]
  have "x \<in> set (update_where (\<lambda>x. a_id x = a_id a) f (d_attempts d))"
    if "x \<in> set (d_attempts d)" "a_status x \<noteq> ARunning" for x
    using that found_attempt [OF assms(2) finish(3) that(1)] finish(4) by (auto intro: kept_row)
  then show ?thesis
    by (auto simp: extends_def finish(1) finish_db_def map_update_where_frame core)
next
  case (action i from_states g ev t)
  note core = action_core [OF action(2)]
  show ?thesis by (simp add: extends_def action(1) move_db_def map_update_where_frame core)
next
  case (heartbeat aid)
  then show ?thesis
    by (auto simp: extends_def heartbeat_db_def map_update_where_frame attempt_core_def intro: kept_row)
qed (auto simp: extends_def claim_db_def restart_db_def requeue_db_def upd_schedule_def
    map_update_where_frame task_core_frame)

text \<open>A sequence of calls, each in its own environment.\<close>

fun run_calls :: "config \<Rightarrow> (env \<times> store_call) list \<Rightarrow> db \<Rightarrow> db" where
  "run_calls cfg [] d = d"
| "run_calls cfg ((env, op) # calls) d = run_calls cfg calls (apply_op cfg env op d)"

lemma apply_op_base: "base_ok d \<Longrightarrow> base_ok (apply_op cfg env op d)"
  using apply_op_step [of d cfg env op] base_ok_D [of d] keys_ok_step tasks_exist_step
  by (metis base_ok_def)

lemma run_calls_extends: "base_ok d \<Longrightarrow> extends d (run_calls cfg calls d)"
proof (induction cfg calls d rule: run_calls.induct)
  case (2 cfg env op calls d)
  have "extends d (apply_op cfg env op d)"
    using apply_op_step [of d cfg env op] base_ok_D [OF "2.prems"] extends_step [OF _ "2.prems"]
      extends_refl by metis
  then show ?case using 2 apply_op_base by (simp add: extends_trans)
qed simp

subsection \<open>Running tasks and running attempts\<close>

definition running_attempts :: "string \<Rightarrow> db \<Rightarrow> int" where
  "running_attempts i d =
     count_where (\<lambda>a. a_status a = ARunning \<and> a_task_id a = i) (d_attempts d)"

definition was_halted :: "string \<Rightarrow> db \<Rightarrow> bool" where
  "was_halted i d \<longleftrightarrow> (\<exists>e \<in> set (d_events d). ev_task_id e = i \<and> ev_event e = EvHalted)"

text \<open>
  A running task has a running attempt; and a task that was never halted has one exactly while it
  is running, and never two.
\<close>

definition attempts_agree :: "db \<Rightarrow> bool" where
  "attempts_agree d \<longleftrightarrow>
     (\<forall>t \<in> set (d_tasks d).
        (running t \<longrightarrow> 1 \<le> running_attempts (t_id t) d) \<and>
        (\<not> was_halted (t_id t) d \<longrightarrow> running_attempts (t_id t) d = of_bool (running t)))"

lemma running_attempts_finish:
  assumes "base_ok d" and "find_row a_id aid (d_attempts d) = Some a" and "a_status a = ARunning"
    and "\<And>x. a_task_id (f x) = a_task_id x" and "\<And>x. a_status (f x) \<noteq> ARunning"
  shows "running_attempts i (finish_db f g a e d) = running_attempts i d - of_bool (a_task_id a = i)"
proof -
  have "distinct (map a_id (d_attempts d))" using assms(1) by (simp add: base_ok_def keys_ok_def)
  moreover have "find_row a_id (a_id a) (d_attempts d) = Some a"
    using assms(2) by (auto dest: find_row_SomeD)
  ultimately show ?thesis
    using assms(3-5)
    by (simp add: running_attempts_def finish_db_def count_where_update_row [where key = a_id])
qed

lemma was_halted_mono: "set (d_events d) \<subseteq> set (d_events d') \<Longrightarrow> was_halted i d \<Longrightarrow> was_halted i d'"
  by (auto simp: was_halted_def)

lemma running_attempts_fresh:
  assumes "base_ok d" and "i \<notin> t_id ` set (d_tasks d)"
  shows "running_attempts i d = 0"
proof -
  have "a_task_id a \<in> t_id ` set (d_tasks d)" if "a \<in> set (d_attempts d)" for a
    using assms(1) that by (simp add: base_ok_def tasks_exist_def)
  then show ?thesis using assms(2) by (auto simp: running_attempts_def count_where_zero_iff)
qed

lemma attempts_agree_frame:
  assumes "attempts_agree d" and "\<And>i. running_attempts i d' = running_attempts i d"
    and "set (d_events d) \<subseteq> set (d_events d')"
    and "\<And>t'. t' \<in> set (d_tasks d') \<Longrightarrow> \<not> was_halted (t_id t') d' \<Longrightarrow>
           (\<exists>t \<in> set (d_tasks d). t_id t = t_id t' \<and> running t = running t') \<or>
           (\<not> running t' \<and> running_attempts (t_id t') d = 0)"
    and "\<And>t'. t' \<in> set (d_tasks d') \<Longrightarrow> running t' \<Longrightarrow>
           \<exists>t \<in> set (d_tasks d). t_id t = t_id t' \<and> running t"
  shows "attempts_agree d'"
  unfolding attempts_agree_def
proof (intro ballI conjI impI)
  fix t' assume t': "t' \<in> set (d_tasks d')"
  show "1 \<le> running_attempts (t_id t') d'" if "running t'"
    using assms(1,2) assms(5) [OF t' that] unfolding attempts_agree_def by metis
  show "running_attempts (t_id t') d' = of_bool (running t')" if n: "\<not> was_halted (t_id t') d'"
    using assms(4) [OF t' n]
  proof
    assume "\<exists>t \<in> set (d_tasks d). t_id t = t_id t' \<and> running t = running t'"
    then obtain t where t: "t \<in> set (d_tasks d)" "t_id t = t_id t'" "running t = running t'" by blast
    moreover have "\<not> was_halted (t_id t) d" using n t(2) was_halted_mono [OF assms(3)] by auto
    ultimately show ?thesis using assms(1,2) by (auto simp: attempts_agree_def)
  qed (simp add: assms(2))
qed

lemma attempts_agree_step:
  assumes "step cfg env op d d'" and "base_ok d" and "attempts_agree d"
  shows "attempts_agree d'"
  using assms(1)
proof cases
  case (finish t aid f g ev detail a)
  note fr = outcome_of_frame [OF finish(2)]
  note idle = outcome_idle(2) [OF finish(2)]
  have ra: "running_attempts i d' = running_attempts i d - of_bool (a_task_id a = i)" for i
    unfolding finish(1)
    by (rule running_attempts_finish [OF assms(2) finish(3,4)])
      (simp_all add: fr outcome_idle [OF finish(2)])
  have halted: "was_halted i d \<Longrightarrow> was_halted i d'" for i
    by (rule was_halted_mono) (auto simp: finish(1) finish_db_def)
  have t: "t \<in> set (d_tasks d)" "t_id t = a_task_id a" using finish(5) by (simp_all add: find_row_SomeD)
  have "0 \<le> running_attempts (a_task_id a) d'" by (simp add: running_attempts_def)
  then have pos: "1 \<le> running_attempts (a_task_id a) d" by (simp add: ra)
  show ?thesis
    unfolding attempts_agree_def
  proof (intro ballI)
    fix t' assume "t' \<in> set (d_tasks d')"
    then have "(t_id t' = a_task_id a \<and> \<not> running t') \<or> (t_id t' \<noteq> a_task_id a \<and> t' \<in> set (d_tasks d))"
      by (auto simp: finish(1) finish_db_def set_update_where fr idle split: if_splits)
    then show "(running t' \<longrightarrow> 1 \<le> running_attempts (t_id t') d') \<and>
        (\<not> was_halted (t_id t') d' \<longrightarrow> running_attempts (t_id t') d' = of_bool (running t'))"
      using assms(3) t pos halted [of "t_id t'"] unfolding attempts_agree_def ra
      by (smt (verit, best) of_bool_def)
  qed
next
  case (claim types q t wid)
  note pick = claim_pick_Some [OF claim(4)]
  have ra: "running_attempts i d' = running_attempts i d + of_bool (i = t_id t)" for i
    by (auto simp: running_attempts_def claim(2) claim_db_def claim_attempt_def)
  have halted: "was_halted i d' = was_halted i d" for i
    by (auto simp: was_halted_def claim(2) claim_db_def)
  have rows: "t' = claim_row (fmtDBTime (e_now env)) t \<or> t_id t' \<noteq> t_id t \<and> t' \<in> set (d_tasks d)"
    if "t' \<in> set (d_tasks d')" for t'
    using that pick(1) assms(2)
    by (auto simp: claim(2) claim_db_def set_update_where base_ok_def keys_ok_def
        dest: distinct_keys_eq split: if_splits)
  have pos: "0 \<le> running_attempts (t_id t) d" by (simp add: running_attempts_def)
  show ?thesis
    unfolding attempts_agree_def ra halted
  proof (intro ballI)
    fix t' assume "t' \<in> set (d_tasks d')"
    from rows [OF this]
    show "(running t' \<longrightarrow> 1 \<le> running_attempts (t_id t') d + of_bool (t_id t' = t_id t)) \<and>
        (\<not> was_halted (t_id t') d \<longrightarrow>
          running_attempts (t_id t') d + of_bool (t_id t' = t_id t) = of_bool (running t'))"
      using assms(3) pick(1,2) pos by (elim disjE) (auto simp: attempts_agree_def running_def)
  qed
next
  case (heartbeat aid)
  show ?thesis
    by (rule attempts_agree_frame [OF assms(3)])
      (auto simp: heartbeat heartbeat_db_def running_attempts_def count_where_update_frame)
next
  case (action i from_states g ev t)
  have t: "t \<in> set (d_tasks d)" "t_id t = i" using action(3) by (simp_all add: find_row_SomeD)
  note idle = action_idle [OF action(2)]
  have was: "\<not> running t \<or> ev = EvHalted"
    using action(2,4) by (cases op) (auto simp: running_def)
  have ids: "t_id (g x) = t_id x" for x by (rule action_of_frame(1) [OF action(2)])
  have rows: "t' = g t \<or> t_id t' \<noteq> i \<and> t' \<in> set (d_tasks d)" if "t' \<in> set (d_tasks d')" for t'
    using that found_task [OF assms(2) action(3)]
    by (auto simp: action(1) move_db_def set_update_where split: if_splits)
  have halted: "was_halted i d'" if "ev = EvHalted"
    using that by (auto simp: was_halted_def action(1) move_db_def control_event_def)
  show ?thesis
  proof (rule attempts_agree_frame [OF assms(3)])
    fix t' assume t': "t' \<in> set (d_tasks d')"
    show "(\<exists>t \<in> set (d_tasks d). t_id t = t_id t' \<and> running t = running t') \<or>
        (\<not> running t' \<and> running_attempts (t_id t') d = 0)" if "\<not> was_halted (t_id t') d'"
      using rows [OF t'] t was halted idle ids that by auto
    show "\<exists>t \<in> set (d_tasks d). t_id t = t_id t' \<and> running t" if "running t'"
      using rows [OF t'] idle that by blast
  qed (auto simp: action(1) move_db_def running_attempts_def)
next
  case (create_task i)
  have "running_attempts (e_new_id env 0) d = 0"
    by (rule running_attempts_fresh [OF assms(2) create_task(3)])
  then show ?thesis
    by (intro attempts_agree_frame [OF assms(3)])
      (auto simp: create_task running_attempts_def running_def simp del: One_nat_def)
next
  case (restart i t)
  have "running_attempts (e_new_id env 0) d = 0"
    by (rule running_attempts_fresh [OF assms(2) restart(5)])
  moreover have "t_id x = i \<Longrightarrow> x \<in> set (d_tasks d) \<Longrightarrow> \<not> running x" for x
    using found_task [OF assms(2) restart(3)] restart(4) by (auto simp: running_def)
  ultimately show ?thesis
    by (intro attempts_agree_frame [OF assms(3)])
      (auto simp: restart restart_db_def running_attempts_def set_update_where
        simp del: One_nat_def split: if_splits, auto simp: running_def)
next
  case requeue
  show ?thesis
    by (rule attempts_agree_frame [OF assms(3)])
      (auto simp: requeue requeue_db_def running_attempts_def set_update_where running_def
        retry_due_def split: if_splits)
qed (rule attempts_agree_frame [OF assms(3)];
    auto simp: running_attempts_def upd_schedule_def)+

interpretation agree_inv: store_invariant cfg allowed base_ok attempts_agree for cfg allowed
proof unfold_locales
  show "attempts_agree empty_db" by (simp add: attempts_agree_def empty_db_def)
qed (auto intro: attempts_agree_step reachable_base dest: base_ok_D)

text \<open>Without halted tasks the running attempts are as many as the running tasks.\<close>

lemma count_where_partition:
  assumes "distinct ids" and "\<forall>a \<in> set as. P a \<longrightarrow> key a \<in> set ids"
  shows "count_where P as = sum_list (map (\<lambda>i. count_where (\<lambda>a. P a \<and> key a = i) as) ids)"
  using assms(2)
proof (induction as)
  case Nil
  show ?case by (induction ids) simp_all
next
  case (Cons a as)
  have "sum_list (map (\<lambda>i. of_bool (P a \<and> key a = i)) ids) = (of_bool (P a \<and> key a \<in> set ids) :: int)"
    using assms(1) by (induction ids) (auto simp: of_bool_def)
  then show ?case using Cons by (auto simp: sum_list_addf)
qed

lemma sum_list_of_bool: "sum_list (map (\<lambda>x. of_bool (P x)) xs) = count_where P xs"
  by (induction xs) simp_all

definition all_running_attempts :: "db \<Rightarrow> int" where
  "all_running_attempts d = count_where (\<lambda>a. a_status a = ARunning) (d_attempts d)"

lemma running_attempts_total:
  assumes "base_ok d" and "attempts_agree d" and "\<And>i. \<not> was_halted i d"
  shows "all_running_attempts d = running_count (\<lambda>_. True) d"
proof -
  have "all_running_attempts d = sum_list (map (\<lambda>i. running_attempts i d) (map t_id (d_tasks d)))"
    unfolding all_running_attempts_def running_attempts_def
    by (rule count_where_partition)
      (use assms(1) in \<open>simp_all add: base_ok_def keys_ok_def tasks_exist_def\<close>)
  also have "\<dots> = sum_list (map (\<lambda>t. of_bool (running t)) (d_tasks d))"
    using assms(2,3) by (auto simp: attempts_agree_def intro!: arg_cong [where f = sum_list])
  finally show ?thesis by (simp add: sum_list_of_bool running_count_def)
qed

subsection \<open>The status edges\<close>

definition status_of :: "string \<Rightarrow> db \<Rightarrow> task_status option" where
  "status_of i d = map_option t_status (find_row t_id i (d_tasks d))"

text \<open>
  The edges of each operation: the source states its comment names (or its statement selects) and the
  target.  \<open>diagram\<close> has the edges that README.md, AGENT.md and DESIGN.md draw, for comparison; that a
  restart leads the original to superseded is said beside the diagrams.
\<close>

fun edges :: "store_call \<Rightarrow> (task_status \<times> task_status) list" where
  "edges (OpClaim wid q types) = [(Queued, Running)]"
| "edges (OpSucceed aid r) = [(Running, Succeeded)]"
| "edges (OpFail aid msg) = [(Running, Retrying), (Running, Dead)]"
| "edges (OpTimeout aid) = [(Running, Retrying), (Running, Dead)]"
| "edges (OpCancelAttempt aid) = [(Running, Cancelled)]"
| "edges (OpHalt i) = [(Running, Halted)]"
| "edges (OpResume i) = [(Halted, Queued)]"
| "edges (OpCancel i) = [(Queued, Cancelled), (Halted, Cancelled)]"
| "edges (OpRetry i) = [(Dead, Queued), (Cancelled, Queued)]"
| "edges (OpRestart i) =
     [(Queued, Superseded), (Succeeded, Superseded), (Dead, Superseded), (Cancelled, Superseded),
      (Halted, Superseded)]"
| "edges OpRequeue = [(Retrying, Queued)]"
| "edges _ = []"

definition diagram :: "(task_status \<times> task_status) list" where
  "diagram =
     [(Queued, Running), (Running, Succeeded), (Running, Retrying), (Retrying, Queued), (Running, Dead),
      (Running, Halted), (Halted, Queued), (Halted, Cancelled), (Running, Cancelled)]"

definition beside_diagram :: "store_call \<Rightarrow> task_status \<Rightarrow> task_status \<Rightarrow> bool" where
  "beside_diagram op s s' \<longleftrightarrow>
     (case op of
        OpRestart i \<Rightarrow> s' = Superseded
      | OpCancel i \<Rightarrow> s = Queued \<and> s' = Cancelled
      | OpRetry i \<Rightarrow> (s = Dead \<or> s = Cancelled) \<and> s' = Queued
      | _ \<Rightarrow> False)"

lemma edges_diagram: "(s, s') \<in> set (edges op) \<Longrightarrow> (s, s') \<in> set diagram \<or> beside_diagram op s s'"
  by (cases op) (auto simp: diagram_def beside_diagram_def)

lemma status_of_update:
  assumes "\<And>t. t_id (f t) = t_id t" and "find_row t_id i (d_tasks d) = Some t"
    and "d_tasks d' = update_where P f (d_tasks d) @ new" and "distinct (map t_id (d_tasks d))"
  shows "status_of i d' = Some (if P t then t_status (f t) else t_status t)"
  using assms by (simp add: status_of_def find_row_append find_row_update_where)

lemma outcome_edge:
  assumes "outcome_of env op t = Some (aid, f, g, ev, detail)"
  shows "(Running, t_status (g t')) \<in> set (edges op)"
  using assms by (cases op) (auto split: prod.splits dest!: retry_decision_cases)

lemma action_edge:
  assumes "action_of env op = Some (i, from_states, g, ev)" and "t_status t \<in> set from_states"
  shows "(t_status t, t_status (g t)) \<in> set (edges op)"
  using assms by (cases op) auto

text \<open>
  A step leaves a task's status, or moves it along an edge of its operation, or is the late outcome
  of an attempt whose task is no longer running.
\<close>

lemma status_step:
  assumes "step cfg env op d d'" and "base_ok d" and t: "find_row t_id i (d_tasks d) = Some t"
  shows "\<exists>s'. status_of i d' = Some s' \<and>
    (s' = t_status t \<or> (t_status t, s') \<in> set (edges op) \<or>
     (t_status t \<noteq> Running \<and> (Running, s') \<in> set (edges op) \<and> 1 \<le> running_attempts i d))"
proof -
  have ids: "distinct (map t_id (d_tasks d))" using assms(2) by (simp add: base_ok_def keys_ok_def)
  note upd = status_of_update [OF _ t _ ids]
  from assms(1) show ?thesis
  proof cases
    case (finish t1 aid f g ev detail a)
    have "d_tasks d' = update_where (\<lambda>t. t_id t = a_task_id a) g (d_tasks d) @ []"
      by (simp add: finish(1) finish_db_def)
    note st = upd [OF outcome_of_frame(7) [OF finish(2)] this]
    have "a \<in> set (d_attempts d)" using finish(3) by (simp add: find_row_SomeD)
    then have "1 \<le> running_attempts (a_task_id a) d"
      using finish(4) by (simp add: running_attempts_def count_where_pos)
    then show ?thesis
      using outcome_edge [OF finish(2), of t] st find_row_SomeD [OF t] by auto
  next
    case (action j from_states g ev t1)
    have "d_tasks d' = update_where (\<lambda>t. t_id t = j) g (d_tasks d) @ []"
      by (simp add: action(1) move_db_def)
    note st = upd [OF action_of_frame(1) [OF action(2)] this]
    show ?thesis
      using st action(3,4) t action_edge [OF action(2), of t] find_row_SomeD [OF t]
      by (cases "i = j") auto
  next
    case (claim types q t1 wid)
    note pick = claim_pick_Some [OF claim(4)]
    have "d_tasks d' = update_where (\<lambda>t. t_id t = t_id t1) (claim_row (fmtDBTime (e_now env))) (d_tasks d) @ []"
      by (simp add: claim(2) claim_db_def)
    note st = upd [OF claim_row_frame(1) this]
    have "t = t1" if "t_id t = t_id t1"
      using that pick(1) ids find_row_SomeD [OF t] by (auto dest: distinct_keys_eq)
    then show ?thesis using st pick(2) claim(1) by auto
  next
    case (restart j t1)
    have "d_tasks d' = update_where (\<lambda>t. t_id t = j) (task_to Superseded (fmtDBTime (e_now env))) (d_tasks d) @
        [task_row (restart_copy env j t1)]"
      by (simp add: restart(2) restart_db_def)
    note st = upd [OF task_to_frame(1) this]
    show ?thesis using st restart(1,3,4) t find_row_SomeD [OF t] by (cases "i = j") auto
  next
    case requeue
    have "d_tasks d' = update_where (retry_due (fmtDBTime (e_now env)))
        (task_to Queued (fmtDBTime (e_now env))) (d_tasks d) @ []"
      by (simp add: requeue requeue_db_def)
    note st = upd [OF task_to_frame(1) this]
    show ?thesis using st requeue(1) by (auto simp: retry_due_def)
  next
    case (create_task i')
    then show ?thesis using t by (simp add: status_of_def find_row_append)
  qed (use t in \<open>simp_all add: status_of_def heartbeat_db_def upd_schedule_def\<close>)
qed

subsection \<open>How often a task is executed\<close>

definition queued_count :: "string \<Rightarrow> db \<Rightarrow> int" where
  "queued_count i d = count_where (\<lambda>e. ev_event e = EvQueued \<and> ev_task_id e = i) (d_events d)"

text \<open>
  A task that was queued once, by its creation, and never halted has made one attempt more than it
  has counted retries at most, and none more while it waits.
\<close>

definition waiting :: "task \<Rightarrow> bool" where
  "waiting t \<longleftrightarrow> t_status t = Queued \<or> t_status t = Retrying"

definition attempt_budget :: "db \<Rightarrow> bool" where
  "attempt_budget d \<longleftrightarrow>
     (\<forall>t \<in> set (d_tasks d). queued_count (t_id t) d = 1 \<and> \<not> was_halted (t_id t) d \<longrightarrow>
        int (length (attempts_of (t_id t) d)) \<le> t_retry_count t + of_bool (\<not> waiting t)) \<and>
     (\<forall>t \<in> set (d_tasks d). 1 \<le> queued_count (t_id t) d)"

lemma queued_count_mono: "d_events d' = d_events d @ es \<Longrightarrow> queued_count i d \<le> queued_count i d'"
  by (simp add: queued_count_def)

text \<open>The shape of every case: a row of the new database that comes from one of the old.\<close>

lemma attempt_budget_row:
  assumes "attempt_budget d" and "t \<in> set (d_tasks d)" and "t_id t = t_id t'"
    and "d_events d' = d_events d @ es"
    and "queued_count (t_id t') d' = 1 \<Longrightarrow> \<not> was_halted (t_id t) d \<Longrightarrow> \<not> was_halted (t_id t') d' \<Longrightarrow>
           int (length (attempts_of (t_id t) d')) - int (length (attempts_of (t_id t) d)) \<le>
           t_retry_count t' + of_bool (\<not> waiting t') - (t_retry_count t + of_bool (\<not> waiting t))"
  shows "(queued_count (t_id t') d' = 1 \<and> \<not> was_halted (t_id t') d' \<longrightarrow>
        int (length (attempts_of (t_id t') d')) \<le> t_retry_count t' + of_bool (\<not> waiting t')) \<and>
      1 \<le> queued_count (t_id t') d'"
proof -
  have q: "1 \<le> queued_count (t_id t) d" using assms(1,2) by (simp add: attempt_budget_def)
  have m: "queued_count (t_id t) d \<le> queued_count (t_id t) d'" by (rule queued_count_mono [OF assms(4)])
  have h: "was_halted (t_id t) d \<Longrightarrow> was_halted (t_id t') d'"
    using was_halted_mono [of d d' "t_id t"] assms(3,4) by simp
  have b: "queued_count (t_id t) d = 1 \<Longrightarrow> \<not> was_halted (t_id t) d \<Longrightarrow>
      int (length (attempts_of (t_id t) d)) \<le> t_retry_count t + of_bool (\<not> waiting t)"
    using assms(1,2) by (simp add: attempt_budget_def)
  show ?thesis
  proof (intro conjI impI)
    assume c: "queued_count (t_id t') d' = 1 \<and> \<not> was_halted (t_id t') d'"
    then have "queued_count (t_id t) d = 1" "\<not> was_halted (t_id t) d" using q m h assms(3) by auto
    then show "int (length (attempts_of (t_id t') d')) \<le> t_retry_count t' + of_bool (\<not> waiting t')"
      using b assms(5) c assms(3) by simp
  qed (use q m assms(3) in simp)
qed

lemma attempt_budgetI:
  assumes "\<And>t'. t' \<in> set (d_tasks d') \<Longrightarrow>
    (queued_count (t_id t') d' = 1 \<and> \<not> was_halted (t_id t') d' \<longrightarrow>
        int (length (attempts_of (t_id t') d')) \<le> t_retry_count t' + of_bool (\<not> waiting t')) \<and>
      1 \<le> queued_count (t_id t') d'"
  shows "attempt_budget d'"
  using assms by (simp add: attempt_budget_def)

text \<open>Where a row of the new database comes from, when no attempt is added.\<close>

definition budget_row :: "db \<Rightarrow> db \<Rightarrow> task \<Rightarrow> bool" where
  "budget_row d d' t' \<longleftrightarrow>
     (\<exists>t \<in> set (d_tasks d). t_id t = t_id t' \<and>
        (queued_count (t_id t') d' = 1 \<longrightarrow> \<not> was_halted (t_id t) d \<longrightarrow> \<not> was_halted (t_id t') d' \<longrightarrow>
           t_retry_count t + of_bool (\<not> waiting t) \<le> t_retry_count t' + of_bool (\<not> waiting t'))) \<or>
     (attempts_of (t_id t') d = [] \<and> 1 \<le> queued_count (t_id t') d' \<and> 0 \<le> t_retry_count t') \<or>
     t' \<in> set (d_tasks d)"

lemma budget_row_kept: "t' \<in> set (d_tasks d) \<Longrightarrow> budget_row d d' t'"
  by (simp add: budget_row_def)

lemma budget_row_new:
  "attempts_of (t_id t') d = [] \<Longrightarrow> 1 \<le> queued_count (t_id t') d' \<Longrightarrow> 0 \<le> t_retry_count t' \<Longrightarrow>
     budget_row d d' t'"
  by (simp add: budget_row_def)

lemma budget_row_moved:
  assumes "t \<in> set (d_tasks d)" and "t_id t' = t_id t"
    and "queued_count (t_id t) d' = 1 \<Longrightarrow> \<not> was_halted (t_id t) d \<Longrightarrow> \<not> was_halted (t_id t) d' \<Longrightarrow>
           t_retry_count t + of_bool (\<not> waiting t) \<le> t_retry_count t' + of_bool (\<not> waiting t')"
  shows "budget_row d d' t'"
  using assms unfolding budget_row_def by (intro disjI1 bexI [of _ t]) simp_all

text \<open>A step that adds no attempt and keeps retries from falling and rows from starting to wait.\<close>

lemma attempt_budget_frame:
  assumes "attempt_budget d" and "d_events d' = d_events d @ es"
    and "\<And>i. length (attempts_of i d') = length (attempts_of i d)"
    and "\<And>t'. t' \<in> set (d_tasks d') \<Longrightarrow>
           budget_row d d' t'"
  shows "attempt_budget d'"
proof (rule attempt_budgetI)
  fix t' assume "t' \<in> set (d_tasks d')"
  from assms(4) [OF this, unfolded budget_row_def] show "(queued_count (t_id t') d' = 1 \<and> \<not> was_halted (t_id t') d' \<longrightarrow>
        int (length (attempts_of (t_id t') d')) \<le> t_retry_count t' + of_bool (\<not> waiting t')) \<and>
      1 \<le> queued_count (t_id t') d'"
  proof (elim disjE)
    assume "t' \<in> set (d_tasks d)"
    then show ?thesis
      by (rule attempt_budget_row [OF assms(1) _ refl assms(2)]) (simp add: assms(3))
  next
    assume "\<exists>t \<in> set (d_tasks d). t_id t = t_id t' \<and>
        (queued_count (t_id t') d' = 1 \<longrightarrow> \<not> was_halted (t_id t) d \<longrightarrow> \<not> was_halted (t_id t') d' \<longrightarrow>
           t_retry_count t + of_bool (\<not> waiting t) \<le> t_retry_count t' + of_bool (\<not> waiting t'))"
    then obtain t where t: "t \<in> set (d_tasks d)" "t_id t = t_id t'"
      "queued_count (t_id t') d' = 1 \<longrightarrow> \<not> was_halted (t_id t) d \<longrightarrow> \<not> was_halted (t_id t') d' \<longrightarrow>
         t_retry_count t + of_bool (\<not> waiting t) \<le> t_retry_count t' + of_bool (\<not> waiting t')" by blast
    show ?thesis
      by (rule attempt_budget_row [OF assms(1) t(1,2) assms(2)]) (use t(3) assms(3) in simp)
  qed (simp add: assms(3))
qed

lemma outcome_budget:
  assumes "outcome_of env op t = Some (aid, f, g, ev, detail)"
  shows "t_retry_count t + 1 \<le> t_retry_count (g t) + of_bool (\<not> waiting (g t))"
  using assms by (cases op) (auto simp: waiting_def split: prod.splits dest!: retry_decision_cases)

lemma attempts_of_fresh:
  assumes "base_ok d" and "i \<notin> t_id ` set (d_tasks d)"
  shows "attempts_of i d = []"
proof -
  have "a_task_id a \<in> t_id ` set (d_tasks d)" if "a \<in> set (d_attempts d)" for a
    using assms(1) that by (simp add: base_ok_def tasks_exist_def)
  then show ?thesis using assms(2) by (auto simp: attempts_of_def filter_empty_conv)
qed

lemma attempt_budget_step:
  assumes "step cfg env op d d'" and "base_ok d \<and> attempts_agree d" and "attempt_budget d"
  shows "attempt_budget d'"
  using assms(1)
proof cases
  case (finish t aid f g ev detail a)
  note fr = outcome_of_frame [OF finish(2)]
  have t: "t \<in> set (d_tasks d)" "t_id t = a_task_id a" using finish(5) by (simp_all add: find_row_SomeD)
  have "a \<in> set (d_attempts d)" using finish(3) by (simp add: find_row_SomeD)
  then have "1 \<le> running_attempts (t_id t) d"
    using finish(4) t(2) by (simp add: running_attempts_def count_where_pos)
  then have run: "running t" if "\<not> was_halted (t_id t) d"
    using assms(2) t(1) that by (auto simp: attempts_agree_def of_bool_def split: if_splits)
  have rows: "t' = g t \<or> t' \<in> set (d_tasks d)" if "t' \<in> set (d_tasks d')" for t'
    using that found_task [OF conjunct1 [OF assms(2)] finish(5)]
    by (auto simp: finish(1) finish_db_def set_update_where split: if_splits)
  show ?thesis
  proof (rule attempt_budget_frame [OF assms(3)])
    show "length (attempts_of i d') = length (attempts_of i d)" for i
      by (simp add: attempts_of_def finish(1) finish_db_def attempts_of_update fr)
    fix t' assume "t' \<in> set (d_tasks d')"
    from rows [OF this]
    show "budget_row d d' t'"
    proof
      assume g: "t' = g t"
      show ?thesis
        by (rule budget_row_moved [OF t(1)])
          (use outcome_budget [OF finish(2)] run in \<open>simp_all add: g fr(7) running_def waiting_def\<close>)
    qed (rule budget_row_kept)
  qed (simp add: finish(1) finish_db_def)
next
  case (claim types q t wid)
  note pick = claim_pick_Some [OF claim(4)]
  have rows: "t' = claim_row (fmtDBTime (e_now env)) t \<or> t_id t' \<noteq> t_id t \<and> t' \<in> set (d_tasks d)"
    if "t' \<in> set (d_tasks d')" for t'
    using that pick(1) assms(2)
    by (auto simp: claim(2) claim_db_def set_update_where base_ok_def keys_ok_def
        dest: distinct_keys_eq split: if_splits)
  note evs = claim_db_fields(4) [of env wid "t_id t" d, folded claim(2)]
  have len: "length (attempts_of i d') = length (attempts_of i d) + of_bool (i = t_id t)" for i
    by (simp add: attempts_of_def claim(2) claim_db_def claim_attempt_def)
  show ?thesis
  proof (rule attempt_budgetI)
    fix t' assume "t' \<in> set (d_tasks d')"
    from rows [OF this] have "\<exists>x \<in> set (d_tasks d). t_id x = t_id t' \<and>
        of_bool (t_id x = t_id t) \<le> t_retry_count t' + of_bool (\<not> waiting t') -
          (t_retry_count x + of_bool (\<not> waiting x))"
    proof
      assume "t' = claim_row (fmtDBTime (e_now env)) t"
      then show ?thesis using pick(1,2) by (intro bexI [of _ t]) (simp_all add: waiting_def)
    next
      assume "t_id t' \<noteq> t_id t \<and> t' \<in> set (d_tasks d)"
      then show ?thesis by (intro bexI [of _ t']) simp_all
    qed
    then obtain x where x: "x \<in> set (d_tasks d)" "t_id x = t_id t'"
      "of_bool (t_id x = t_id t) \<le> t_retry_count t' + of_bool (\<not> waiting t') -
          (t_retry_count x + of_bool (\<not> waiting x))" by blast
    show "(queued_count (t_id t') d' = 1 \<and> \<not> was_halted (t_id t') d' \<longrightarrow>
        int (length (attempts_of (t_id t') d')) \<le> t_retry_count t' + of_bool (\<not> waiting t')) \<and>
      1 \<le> queued_count (t_id t') d'"
      by (rule attempt_budget_row [OF assms(3) x(1,2) evs]) (use x(3) in \<open>simp add: len\<close>)
  qed
next
  case (action i from_states g ev t)
  have t: "t \<in> set (d_tasks d)" "t_id t = i" using action(3) by (simp_all add: find_row_SomeD)
  have q1: "1 \<le> queued_count i d" using assms(3) t by (auto simp: attempt_budget_def)
  have ids: "t_id (g x) = t_id x" for x by (rule action_of_frame(1) [OF action(2)])
  have rows: "t' = g t \<or> t' \<in> set (d_tasks d)" if "t' \<in> set (d_tasks d')" for t'
    using that found_task [OF conjunct1 [OF assms(2)] action(3)]
    by (auto simp: action(1) move_db_def set_update_where split: if_splits)
  have two: "queued_count i d' \<noteq> 1" if "ev = EvQueued"
    using q1 that by (simp add: queued_count_def action(1) move_db_def control_event_def)
  have halted: "was_halted i d'" if "ev = EvHalted"
    using that by (auto simp: was_halted_def action(1) move_db_def control_event_def)
  have cancel: "ev \<in> {EvQueued, EvHalted} \<or>
      t_retry_count t + of_bool (\<not> waiting t) \<le> t_retry_count (g t) + of_bool (\<not> waiting (g t))"
    using action(2) by (cases op) (auto simp: waiting_def)
  have key: "t_retry_count t + of_bool (\<not> waiting t) \<le> t_retry_count (g t) + of_bool (\<not> waiting (g t))"
    if "queued_count i d' = 1" "\<not> was_halted i d'"
    using cancel two halted that by blast
  show ?thesis
  proof (rule attempt_budget_frame [OF assms(3)])
    fix t' assume "t' \<in> set (d_tasks d')"
    from rows [OF this]
    show "budget_row d d' t'"
    proof
      assume g: "t' = g t"
      show ?thesis
        by (rule budget_row_moved [OF t(1)]) (use key t(2) in \<open>simp_all only: g ids simp_thms\<close>)
    qed (rule budget_row_kept)
  qed (simp_all add: action(1) move_db_def attempts_of_def)
next
  case (create_task i)
  have "attempts_of (e_new_id env 0) d = []"
    using assms(2) create_task(3) by (simp add: attempts_of_fresh)
  then have new: "attempts_of (e_new_id env 0) d = [] \<and> 1 \<le> queued_count (e_new_id env 0) d'"
    by (simp add: create_task(2) queued_count_def del: One_nat_def)
  show ?thesis
  proof (rule attempt_budget_frame [OF assms(3)])
    fix t' assume "t' \<in> set (d_tasks d')"
    then consider "t' = task_row (new_task env i)" | "t' \<in> set (d_tasks d)"
      by (auto simp: create_task(2))
    then show "budget_row d d' t'"
      by cases (simp_all add: new budget_row_new budget_row_kept)
  qed (simp_all add: create_task(2) attempts_of_def)
next
  case (restart i t)
  have "attempts_of (e_new_id env 0) d = []"
    using assms(2) restart(5) by (simp add: attempts_of_fresh)
  then have new: "attempts_of (e_new_id env 0) d = [] \<and> 1 \<le> queued_count (e_new_id env 0) d'"
    by (simp add: restart(2) restart_db_def queued_count_def del: One_nat_def)
  show ?thesis
  proof (rule attempt_budget_frame [OF assms(3)])
    fix t' assume "t' \<in> set (d_tasks d')"
    then consider "t' = task_row (restart_copy env i t)" | "t' \<in> set (d_tasks d)"
      | x where "x \<in> set (d_tasks d)" "t' = task_to Superseded (fmtDBTime (e_now env)) x"
      by (auto simp: restart(2) restart_db_def set_update_where)
    then show "budget_row d d' t'"
    proof cases
      case 3
      then show ?thesis by (intro budget_row_moved [of x]) (simp_all add: waiting_def)
    qed (simp_all add: new budget_row_new budget_row_kept)
  qed (simp_all add: restart(2) restart_db_def attempts_of_def)
next
  case requeue
  show ?thesis
  proof (rule attempt_budget_frame [OF assms(3)])
    fix t' assume "t' \<in> set (d_tasks d')"
    then consider "t' \<in> set (d_tasks d)"
      | x where "x \<in> set (d_tasks d)" "t' = task_to Queued (fmtDBTime (e_now env)) x" "t_status x = Retrying"
      by (auto simp: requeue requeue_db_def set_update_where retry_due_def)
    then show "budget_row d d' t'"
    proof cases
      case 2
      then show ?thesis by (intro budget_row_moved [of x]) (simp_all add: waiting_def)
    qed (rule budget_row_kept)
  qed (simp_all add: requeue requeue_db_def attempts_of_def)
next
  case (heartbeat aid)
  show ?thesis
    by (rule attempt_budget_frame [OF assms(3)])
      (simp_all add: heartbeat heartbeat_db_def attempts_of_def attempts_of_update budget_row_kept)
qed (rule attempt_budget_frame [OF assms(3)];
    simp add: attempts_of_def upd_schedule_def budget_row_kept)+

interpretation budget_inv:
  store_invariant cfg allowed "\<lambda>d. base_ok d \<and> attempts_agree d" attempt_budget for cfg allowed
proof unfold_locales
  show "attempt_budget empty_db" by (simp add: attempt_budget_def empty_db_def)
qed (auto intro: attempt_budget_step reachable_base agree_inv.always dest: base_ok_D)

end
