(* ===== verification/ETQ_Runs.thy ===== *)
theory ETQ_Runs
  imports ETQ_Lifecycle
begin

section \<open>Example runs\<close>

text \<open>
  Concrete environments and sequences of calls, executed on the empty database.  They show that the
  hypotheses of the properties can hold: every database below is reachable, by evaluation.
\<close>

fun calls_ok :: "config \<Rightarrow> (store_call \<Rightarrow> bool) \<Rightarrow> (env \<times> store_call) list \<Rightarrow> db \<Rightarrow> bool" where
  "calls_ok cfg allowed [] d \<longleftrightarrow> True"
| "calls_ok cfg allowed ((env, op) # calls) d \<longleftrightarrow>
     uuid_ok env op d \<and> allowed op \<and> calls_ok cfg allowed calls (apply_op cfg env op d)"

lemma reachable_run:
  "reachable cfg allowed d \<Longrightarrow> calls_ok cfg allowed calls d \<Longrightarrow>
     reachable cfg allowed (run_calls cfg calls d)"
  by (induction cfg allowed calls d rule: calls_ok.induct) (simp_all add: reachable.call)

lemma reachable_calls:
  "calls_ok cfg allowed calls empty_db \<Longrightarrow> reachable cfg allowed (run_calls cfg calls empty_db)"
  by (simp add: reachable_run reachable.init)

text \<open>At second \<open>n\<close> the UUIDs drawn are \<open>n\<close> letters i and then a letter x per draw.\<close>

definition demo_env :: "int \<Rightarrow> env" where
  "demo_env n = \<lparr>e_now = n * 1000000000, e_emit_now = n * 1000000000,
     e_new_id = (\<lambda>k. replicate (nat n) (CHR ''i'') @ replicate k (CHR ''x'')),
     e_fk = True, e_tie = (\<lambda>_. 0), e_fault = (\<lambda>_. False), e_fate = Served\<rparr>"

definition demo_worker :: create_worker_input where
  "demo_worker = \<lparr>cwi_type = ''go'', cwi_task_types = [''email''], cwi_queue = [],
     cwi_concurrency = 2, cwi_socket_path = None\<rparr>"

definition demo_task :: create_task_input where
  "demo_task = \<lparr>cti_type = ''email'', cti_queue = [], cti_payload = None, cti_priority = 0,
     cti_max_retries = 0, cti_timeout_secs = None, cti_run_at = zero_time, cti_parent_id = None,
     cti_schedule_id = None\<rparr>"

definition demo_schedule :: create_schedule_input where
  "demo_schedule = \<lparr>csi_task_type = ''email'', csi_queue = [], csi_payload = None,
     csi_cron_expr = None, csi_interval_secs = Some 60, csi_enabled = True,
     csi_next_run_at = Some (5 * 1000000000)\<rparr>"

text \<open>A worker, two tasks and the claim of the first.\<close>

definition demo_calls :: "(env \<times> store_call) list" where
  "demo_calls =
     [(demo_env 1, OpCreateWorker demo_worker), (demo_env 2, OpCreateTask demo_task),
      (demo_env 3, OpCreateTask demo_task), (demo_env 4, OpClaim ''i'' ''default'' [''email''])]"

definition demo_db :: db where
  "demo_db = run_calls defaults demo_calls empty_db"

text \<open>A worker and two queued tasks.\<close>

definition queued_db :: db where
  "queued_db = run_calls defaults (take 3 demo_calls) empty_db"

definition no_halt :: "store_call \<Rightarrow> bool" where
  "no_halt op \<longleftrightarrow> (case op of OpHalt i \<Rightarrow> False | _ \<Rightarrow> True)"

text \<open>Halting the running task, and what can follow.\<close>

definition halt_cancel :: "(env \<times> store_call) list" where
  "halt_cancel = demo_calls @ [(demo_env 5, OpHalt ''ii''), (demo_env 6, OpCancel ''ii'')]"

definition limit_one :: config where
  "limit_one = defaults\<lparr>c_global := 1\<rparr>"

definition halt_claim :: "(env \<times> store_call) list" where
  "halt_claim = demo_calls @ [(demo_env 5, OpHalt ''ii''), (demo_env 6, OpClaim ''i'' ''default'' [''email''])]"

lemma demo_reachable: "reachable defaults any_call demo_db"
  unfolding demo_db_def by (rule reachable_calls) code_simp

lemma demo_reachable_no_halt: "reachable defaults no_halt demo_db"
  unfolding demo_db_def by (rule reachable_calls) code_simp

lemma queued_reachable: "reachable defaults any_call queued_db"
  unfolding queued_db_def by (rule reachable_calls) code_simp

lemma smooth_demo [simp]: "smooth (demo_env n)"
  by (simp add: smooth_def demo_env_def)

text \<open>The claimed attempt failed.\<close>

definition failed_db :: db where
  "failed_db = apply_op defaults (demo_env 5) (OpFail ''iiii'' ''boom'') demo_db"

lemma failed_reachable: "reachable defaults any_call failed_db"
  unfolding failed_db_def by (rule reachable.call [OF demo_reachable]) (code_simp | rule TrueI)+

text \<open>A schedule created.\<close>

definition scheduled_db :: db where
  "scheduled_db = apply_op defaults (demo_env 5) (OpCreateSchedule demo_schedule) demo_db"

lemma scheduled_reachable: "reachable defaults any_call scheduled_db"
  unfolding scheduled_db_def by (rule reachable.call [OF demo_reachable]) (code_simp | rule TrueI)+

text \<open>A patch that disables a schedule.\<close>

definition disable :: update_schedule_input where
  "disable = \<lparr>usi_enabled = Some False, usi_cron_expr = None, usi_interval_secs = None,
     usi_next_run_at = None\<rparr>"

end
