(* ===== verification/ETQ_Scheduler.thy ===== *)
theory ETQ_Scheduler
  imports ETQ_Runs
begin

section \<open>The schedulers (internal/scheduler)\<close>

text \<open>
  The next run of a schedule, the startup pass, the poll that fires due schedules, the sweep that
  times out stale attempts, and the loops around them.  The cron parser is a package of its own: it
  is an argument, a function from expressions to an error or to the next instant after a given one.

  A pass makes a sequence of calls to the store, which it sees through an interface.  Its environment numbers them: the environment of
  each call, what the other goroutines commit to the database before it, whether the context is over
  when the loop looks before it and when an error of it is examined.  What a pass hands to
  \<open>OnError\<close> is part of its result (a nil \<open>OnError\<close> discards it).
\<close>

subsection \<open>Configuration (scheduler.go)\<close>

record sched_config =
  sc_RetryInterval :: duration
  sc_ScanInterval :: duration
  sc_HeartbeatCutoff :: duration
  sc_TaskPollInterval :: duration

definition positive_or :: "duration \<Rightarrow> duration \<Rightarrow> duration" where
  "positive_or dflt x = (if sint x \<le> 0 then dflt else x)"

definition applyDefaults :: "sched_config \<Rightarrow> sched_config" where
  "applyDefaults c =
     \<lparr>sc_RetryInterval = positive_or (5 * second) (sc_RetryInterval c),
      sc_ScanInterval = positive_or (30 * second) (sc_ScanInterval c),
      sc_HeartbeatCutoff = positive_or (60 * second) (sc_HeartbeatCutoff c),
      sc_TaskPollInterval = positive_or (10 * second) (sc_TaskPollInterval c)\<rparr>"

record scheduler =
  sch_retry_interval :: duration
  sch_scan_interval :: duration
  sch_cutoff :: duration
  sch_poll_interval :: duration

definition New :: "sched_config \<Rightarrow> scheduler" where
  "New cfg0 =
     (let cfg = applyDefaults cfg0 in
      \<lparr>sch_retry_interval = sc_RetryInterval cfg, sch_scan_interval = sc_ScanInterval cfg,
       sch_cutoff = sc_HeartbeatCutoff cfg, sch_poll_interval = sc_TaskPollInterval cfg\<rparr>)"

subsection \<open>The next run (next_run.go)\<close>

type_synonym cron_parser = "string \<Rightarrow> err + (gotime \<Rightarrow> gotime)"

text \<open>\<open>time.Duration(n) * time.Second\<close>, in 64 bits.\<close>

definition seconds :: "int \<Rightarrow> duration" where
  "seconds n = word_of_int n * second"

definition computeNextRun :: "cron_parser \<Rightarrow> schedule \<Rightarrow> gotime \<Rightarrow> err + gotime" where
  "computeNextRun parse sc after =
     (case s_cron_expr sc of
        Some expr \<Rightarrow>
          (case parse expr of
             Inl e \<Rightarrow> Inl (Wrap (''computeNextRun: invalid cron expression '' @ go_quote expr) e)
           | Inr next_after \<Rightarrow> Inr (next_after after))
      | None \<Rightarrow>
          (case s_interval_secs sc of
             Some n \<Rightarrow>
               (let base = (case s_last_run_at sc of None \<Rightarrow> after | Some l \<Rightarrow> l) in
                Inr (time_add base (seconds n)))
           | None \<Rightarrow>
               Inl (ErrMsg (''computeNextRun: schedule '' @ go_quote (s_id sc) @
                            '' has neither cron_expr nor interval_secs''))))"

subsection \<open>The interface to the store (store\_iface.go)\<close>

text \<open>The schedulers see of the store what the interface names; \<open>sched_ops\<close> is the store as one.\<close>

record 'd sched_store_ops =
  ss_RequeueRetrying :: "env \<Rightarrow> 'd \<Rightarrow> (err + int) \<times> 'd"
  ss_FindStaleAttempts :: "env \<Rightarrow> gotime \<Rightarrow> 'd \<Rightarrow> err + attempt list"
  ss_TimeoutAttempt :: "env \<Rightarrow> string \<Rightarrow> 'd \<Rightarrow> (err + unit) \<times> 'd"
  ss_DueSchedules :: "env \<Rightarrow> 'd \<Rightarrow> err + schedule list"
  ss_RecordScheduleRun :: "env \<Rightarrow> string \<Rightarrow> gotime \<Rightarrow> 'd \<Rightarrow> (err + unit) \<times> 'd"
  ss_CreateTask :: "env \<Rightarrow> create_task_input \<Rightarrow> 'd \<Rightarrow> (err + task) \<times> 'd"
  ss_ListSchedules :: "env \<Rightarrow> 'd \<Rightarrow> err + schedule list"
  ss_UpdateSchedule :: "env \<Rightarrow> string \<Rightarrow> update_schedule_input \<Rightarrow> 'd \<Rightarrow> (err + schedule) \<times> 'd"

definition sched_ops :: "db sched_store_ops" where
  "sched_ops =
     \<lparr>ss_RequeueRetrying = (\<lambda>env d. sans_events (RequeueRetrying env d)),
      ss_FindStaleAttempts = FindStaleAttempts,
      ss_TimeoutAttempt = (\<lambda>env aid d. sans_events (TimeoutAttempt env aid d)),
      ss_DueSchedules = DueSchedules,
      ss_RecordScheduleRun = (\<lambda>env i next_run d. sans_events (RecordScheduleRun env i next_run d)),
      ss_CreateTask = (\<lambda>env ti d. sans_events (CreateTask env ti d)),
      ss_ListSchedules = ListSchedules,
      ss_UpdateSchedule = (\<lambda>env i inp d. sans_events (UpdateSchedule env i inp d))\<rparr>"

subsection \<open>A pass over the store\<close>

record 'd pass_env =
  p_now :: gotime
  p_call :: "nat \<Rightarrow> env"
  p_other :: "nat \<Rightarrow> 'd \<Rightarrow> 'd"
  p_over :: "nat \<Rightarrow> bool"
  p_over_err :: "nat \<Rightarrow> bool"

text \<open>The errors a pass reports for call \<open>k\<close>: none when the context is over.\<close>

definition reported :: "'d pass_env \<Rightarrow> nat \<Rightarrow> err \<Rightarrow> err list" where
  "reported p k e = (if p_over_err p k then [] else [e])"

subsection \<open>Startup (task_scheduler.go)\<close>

fun init_loop ::
  "'d sched_store_ops \<Rightarrow> cron_parser \<Rightarrow> 'd pass_env \<Rightarrow> nat \<Rightarrow> schedule list \<Rightarrow> 'd \<Rightarrow> 'd \<times> err list" where
  "init_loop S parse p k [] d = (d, [])"
| "init_loop S parse p k (sc # scs) d =
     (if \<not> s_enabled sc \<or> s_next_run_at sc \<noteq> None then init_loop S parse p k scs d
      else case computeNextRun parse sc (p_now p) of
        Inl e \<Rightarrow> (let (d', es) = init_loop S parse p k scs d in (d', e # es))
      | Inr next \<Rightarrow>
          (case ss_UpdateSchedule S (p_call p k) (s_id sc)
                  \<lparr>usi_enabled = None, usi_cron_expr = None, usi_interval_secs = None,
                   usi_next_run_at = Some next\<rparr> (p_other p k d) of
             (Inl e, d1) \<Rightarrow>
               if p_over_err p k then (d1, [])
               else (let (d', es) = init_loop S parse p (k + 1) scs d1 in (d', e # es))
           | (Inr _, d1) \<Rightarrow> init_loop S parse p (k + 1) scs d1))"

definition initSchedules :: "'d sched_store_ops \<Rightarrow> cron_parser \<Rightarrow> 'd pass_env \<Rightarrow> 'd \<Rightarrow> 'd \<times> err list" where
  "initSchedules S parse p d =
     (let d0 = p_other p 0 d in
      case ss_ListSchedules S (p_call p 0) d0 of
        Inl e \<Rightarrow> (d0, reported p 0 e)
      | Inr scs \<Rightarrow> init_loop S parse p 1 scs d0)"

subsection \<open>Firing due schedules (task_scheduler.go)\<close>

definition schedule_task :: "schedule \<Rightarrow> create_task_input" where
  "schedule_task sc =
     \<lparr>cti_type = s_task_type sc, cti_queue = s_queue sc, cti_payload = s_payload sc,
      cti_priority = 0, cti_max_retries = 0, cti_timeout_secs = None, cti_run_at = zero_time,
      cti_parent_id = None, cti_schedule_id = Some (s_id sc)\<rparr>"

definition fireDue ::
  "'d sched_store_ops \<Rightarrow> cron_parser \<Rightarrow> 'd pass_env \<Rightarrow> nat \<Rightarrow> schedule \<Rightarrow> gotime \<Rightarrow> 'd \<Rightarrow> 'd \<times> err list" where
  "fireDue S parse p k sc now d =
     (case ss_CreateTask S (p_call p k) (schedule_task sc) (p_other p k d) of
        (Inl e, d1) \<Rightarrow> (d1, reported p k e)
      | (Inr _, d1) \<Rightarrow>
          (case computeNextRun parse sc now of
             Inl e \<Rightarrow> (d1, [e])
           | Inr next \<Rightarrow>
               (case ss_RecordScheduleRun S (p_call p (k + 1)) (s_id sc) next (p_other p (k + 1) d1) of
                  (Inl e, d2) \<Rightarrow> (d2, reported p (k + 1) e)
                | (Inr _, d2) \<Rightarrow> (d2, []))))"

fun poll_loop ::
  "'d sched_store_ops \<Rightarrow> cron_parser \<Rightarrow> 'd pass_env \<Rightarrow> nat \<Rightarrow> schedule list \<Rightarrow> 'd \<Rightarrow> 'd \<times> err list" where
  "poll_loop S parse p k [] d = (d, [])"
| "poll_loop S parse p k (sc # scs) d =
     (if p_over p k then (d, [])
      else
        (let (d1, es1) = fireDue S parse p k sc (p_now p) d;
             (d2, es2) = poll_loop S parse p (k + 2) scs d1
         in (d2, es1 @ es2)))"

definition poll :: "'d sched_store_ops \<Rightarrow> cron_parser \<Rightarrow> 'd pass_env \<Rightarrow> 'd \<Rightarrow> 'd \<times> err list" where
  "poll S parse p d =
     (let d0 = p_other p 0 d in
      case ss_DueSchedules S (p_call p 0) d0 of
        Inl e \<Rightarrow> (d0, reported p 0 e)
      | Inr due \<Rightarrow> poll_loop S parse p 1 due d0)"

subsection \<open>The sweep over stale attempts (heartbeat.go)\<close>

fun scan_loop :: "'d sched_store_ops \<Rightarrow> 'd pass_env \<Rightarrow> nat \<Rightarrow> attempt list \<Rightarrow> 'd \<Rightarrow> 'd \<times> err list" where
  "scan_loop S p k [] d = (d, [])"
| "scan_loop S p k (a # as) d =
     (if p_over p k then (d, [])
      else case ss_TimeoutAttempt S (p_call p k) (a_id a) (p_other p k d) of
        (Inl e, d1) \<Rightarrow>
          if p_over_err p k then (d1, [])
          else (let (d', es) = scan_loop S p (k + 1) as d1 in (d', e # es))
      | (Inr _, d1) \<Rightarrow> scan_loop S p (k + 1) as d1)"

definition scan :: "'d sched_store_ops \<Rightarrow> duration \<Rightarrow> 'd pass_env \<Rightarrow> 'd \<Rightarrow> 'd \<times> err list" where
  "scan S cutoff p d =
     (let d0 = p_other p 0 d in
      case ss_FindStaleAttempts S (p_call p 0) (time_add (p_now p) (- cutoff)) d0 of
        Inl e \<Rightarrow> (d0, reported p 0 e)
      | Inr as \<Rightarrow> scan_loop S p 1 as d0)"

subsection \<open>The loops (retry.go, heartbeat.go, task_scheduler.go)\<close>

text \<open>
  What a loop's \<open>select\<close> meets, over and over: its ticker, with the environment of the pass the tick
  starts, or the end of the context, which ends the loop.  An infinite wait is the end of the list.
  The retry loop also returns when its call failed and the context is over.
\<close>

datatype 'd wakeup = Tick "'d pass_env" | CtxDone

fun loop :: "('d pass_env \<Rightarrow> 'd \<Rightarrow> 'd \<times> err list) \<Rightarrow> 'd wakeup list \<Rightarrow> 'd \<Rightarrow> 'd \<times> err list" where
  "loop body [] d = (d, [])"
| "loop body (CtxDone # ws) d = (d, [])"
| "loop body (Tick p # ws) d =
     (let (d1, es1) = body p d; (d2, es2) = loop body ws d1 in (d2, es1 @ es2))"

fun retry_run :: "'d sched_store_ops \<Rightarrow> 'd wakeup list \<Rightarrow> 'd \<Rightarrow> 'd \<times> err list" where
  "retry_run S [] d = (d, [])"
| "retry_run S (CtxDone # ws) d = (d, [])"
| "retry_run S (Tick p # ws) d =
     (case ss_RequeueRetrying S (p_call p 0) (p_other p 0 d) of
        (Inl e, d1) \<Rightarrow>
          if p_over_err p 0 then (d1, [])
          else (let (d2, es) = retry_run S ws d1 in (d2, e # es))
      | (Inr n, d1) \<Rightarrow> retry_run S ws d1)"

definition scanner_run :: "'d sched_store_ops \<Rightarrow> duration \<Rightarrow> 'd wakeup list \<Rightarrow> 'd \<Rightarrow> 'd \<times> err list" where
  "scanner_run S cutoff = loop (scan S cutoff)"

definition task_run :: "'d sched_store_ops \<Rightarrow> cron_parser \<Rightarrow> 'd pass_env \<Rightarrow> bool \<Rightarrow> 'd wakeup list \<Rightarrow> 'd \<Rightarrow> 'd \<times> err list" where
  "task_run S parse p0 over_after_init ws d =
     (let (d0, es0) = initSchedules S parse p0 d in
      if over_after_init then (d0, es0)
      else (let (d1, es1) = loop (poll S parse) ws d0 in (d1, es0 @ es1)))"

text \<open>A pass nothing disturbs: no fault, no interference, the context not over.\<close>

definition quiet :: "'d pass_env \<Rightarrow> bool" where
  "quiet p \<longleftrightarrow> p_other p = (\<lambda>_ d. d) \<and> p_over p = (\<lambda>_. False) \<and> p_over_err p = (\<lambda>_. False) \<and>
     (\<forall>k. smooth (p_call p k))"

definition demo_pass :: "int \<Rightarrow> db pass_env" where
  "demo_pass n = \<lparr>p_now = n * 1000000000, p_call = (\<lambda>k. demo_env (n + int k)), p_other = (\<lambda>_ d. d),
     p_over = (\<lambda>_. False), p_over_err = (\<lambda>_. False)\<rparr>"

definition demo_row :: "db \<Rightarrow> schedule" where
  "demo_row d = hd (d_schedules d)"

text \<open>The schedule of the example run after its first run, at second 9.\<close>

definition fired_db :: db where
  "fired_db = apply_op defaults (demo_env 9) (OpRecordRun ''iiiii'' (69 * 1000000000)) scheduled_db"

lemma quiet_demo [simp]: "quiet (demo_pass n)"
  by (simp add: quiet_def demo_pass_def)

lemma quiet_simps:
  assumes "quiet p"
  shows "p_other p k d = d" "p_over p k = False" "p_over_err p k = False" "smooth (p_call p k)"
    "e_fault (p_call p k) = (\<lambda>_. False)"
  using assms by (simp_all add: quiet_def smooth_def)

lemma sched_ops_simps [simp]:
  "ss_RequeueRetrying sched_ops env d = sans_events (RequeueRetrying env d)"
  "ss_FindStaleAttempts sched_ops = FindStaleAttempts"
  "ss_TimeoutAttempt sched_ops env aid d = sans_events (TimeoutAttempt env aid d)"
  "ss_DueSchedules sched_ops = DueSchedules"
  "ss_RecordScheduleRun sched_ops env aid next_run d = sans_events (RecordScheduleRun env aid next_run d)"
  "ss_CreateTask sched_ops env ti d = sans_events (CreateTask env ti d)"
  "ss_ListSchedules sched_ops = ListSchedules"
  "ss_UpdateSchedule sched_ops env aid inp d = sans_events (UpdateSchedule env aid inp d)"
  by (simp_all add: sched_ops_def)

subsection \<open>What the schedulers rely on\<close>

text \<open>
  The laws of the interface: \<open>ok\<close> holds of the states the store keeps; an attempt is settled when it
  does not run any more, which is what timing it out without an error achieves, and stays so.
\<close>

locale sched_store =
  fixes S :: "'d sched_store_ops" and ok :: "'d \<Rightarrow> bool" and settled :: "string \<Rightarrow> 'd \<Rightarrow> bool"
  assumes requeue_ok: "ok d \<Longrightarrow> ss_RequeueRetrying S env d = (n, d') \<Longrightarrow> ok d'"
    and timeout_ok: "ok d \<Longrightarrow> ss_TimeoutAttempt S env aid d = (u, d') \<Longrightarrow> ok d'"
    and record_ok: "ok d \<Longrightarrow> ss_RecordScheduleRun S env i next_run d = (u, d') \<Longrightarrow> ok d'"
    and create_ok: "ok d \<Longrightarrow> ss_CreateTask S env ti d = (t, d') \<Longrightarrow> ok d'"
    and update_ok: "ok d \<Longrightarrow> ss_UpdateSchedule S env i inp d = (s, d') \<Longrightarrow> ok d'"
    and timeout_settles: "ok d \<Longrightarrow> ss_TimeoutAttempt S env aid d = (Inr v, d') \<Longrightarrow> settled aid d'"
    and timeout_keeps: "ok d \<Longrightarrow> settled j d \<Longrightarrow> ss_TimeoutAttempt S env aid d = (u, d') \<Longrightarrow> settled j d'"
begin

lemma fireDue_ok:
  assumes "\<And>k d. ok d \<Longrightarrow> ok (p_other p k d)"
  shows "ok d \<Longrightarrow> fireDue S parse p k sc now d = (d', es) \<Longrightarrow> ok d'"
  by (auto simp: fireDue_def split: prod.splits sum.splits intro: assms
      dest!: create_ok [OF assms, rotated] record_ok [OF assms, rotated])

lemma poll_loop_ok:
  assumes "\<And>k d. ok d \<Longrightarrow> ok (p_other p k d)"
  shows "ok d \<Longrightarrow> poll_loop S parse p k scs d = (d', es) \<Longrightarrow> ok d'"
proof (induction scs arbitrary: k d d' es)
  case (Cons sc scs)
  then show ?case
    by (auto simp: Let_def split: prod.splits if_splits dest: fireDue_ok [OF assms, rotated])
qed simp

lemma init_loop_ok:
  assumes "\<And>k d. ok d \<Longrightarrow> ok (p_other p k d)"
  shows "ok d \<Longrightarrow> init_loop S parse p k scs d = (d', es) \<Longrightarrow> ok d'"
proof (induction scs arbitrary: k d d' es)
  case (Cons sc scs)
  from Cons.prems show ?case
    by (auto simp: Let_def split: prod.splits sum.splits if_splits intro: Cons.IH
        dest!: update_ok [OF assms, rotated])
qed simp

lemma scan_loop_ok:
  assumes "\<And>k d. ok d \<Longrightarrow> ok (p_other p k d)"
  shows "ok d \<Longrightarrow> scan_loop S p k as d = (d', es) \<Longrightarrow> ok d'"
proof (induction as arbitrary: k d d' es)
  case (Cons a as)
  from Cons.prems show ?case
    by (auto simp: Let_def split: prod.splits sum.splits if_splits intro: Cons.IH
        dest!: timeout_ok [OF assms, rotated])
qed simp

lemma passes_ok:
  assumes "ok d" and "\<And>k x. ok x \<Longrightarrow> ok (p_other p k x)"
  shows "ok (fst (initSchedules S parse p d)) \<and> ok (fst (poll S parse p d)) \<and>
    ok (fst (scan S cutoff p d)) \<and> ok (fst (retry_run S [Tick p] d))"
proof -
  note r0 = assms(2) [OF assms(1), of 0]
  have "ok d'" if "initSchedules S parse p d = (d', es)" for d' es
    using that by (auto simp: initSchedules_def Let_def r0 split: sum.splits
        intro: init_loop_ok [OF assms(2) r0])
  moreover have "ok d'" if "poll S parse p d = (d', es)" for d' es
    using that by (auto simp: poll_def Let_def r0 split: sum.splits intro: poll_loop_ok [OF assms(2) r0])
  moreover have "ok d'" if "scan S cutoff p d = (d', es)" for d' es
    using that by (auto simp: scan_def Let_def r0 split: sum.splits intro: scan_loop_ok [OF assms(2) r0])
  moreover have "ok (fst (retry_run S [Tick p] d))"
    using requeue_ok [OF r0, of "p_call p 0"] by (auto split: prod.splits sum.splits)
  ultimately show ?thesis by (metis prod.collapse)
qed

text \<open>A sweep that was not ended early and reports no error has settled every attempt it visited.\<close>

lemma scan_loop_keeps:
  assumes "\<And>k d. ok d \<Longrightarrow> ok (p_other p k d)" and "\<And>k d. ok d \<Longrightarrow> settled j d \<Longrightarrow> settled j (p_other p k d)"
  shows "ok d \<Longrightarrow> settled j d \<Longrightarrow> scan_loop S p k as d = (d', es) \<Longrightarrow> settled j d'"
proof (induction as arbitrary: k d d' es)
  case (Cons a as)
  obtain r d1 where d1: "ss_TimeoutAttempt S (p_call p k) (a_id a) (p_other p k d) = (r, d1)" by fastforce
  have now: "ok d1" "settled j d1"
    using timeout_ok [OF _ d1] timeout_keeps [OF _ _ d1] assms Cons.prems(1,2) by blast+
  from Cons.IH [OF now] now Cons.prems show ?case
    by (auto simp: d1 Let_def split: prod.splits sum.splits if_splits)
qed simp

lemma scan_loop_settles:
  assumes "\<And>k d. ok d \<Longrightarrow> ok (p_other p k d)" and "\<And>k j d. ok d \<Longrightarrow> settled j d \<Longrightarrow> settled j (p_other p k d)"
    and "\<And>k. \<not> p_over p k" and "\<And>k. \<not> p_over_err p k"
  shows "ok d \<Longrightarrow> scan_loop S p k as d = (d', []) \<Longrightarrow> a \<in> set as \<Longrightarrow> settled (a_id a) d'"
proof (induction as arbitrary: k d)
  case (Cons b as)
  obtain r d1 where d1: "ss_TimeoutAttempt S (p_call p k) (a_id b) (p_other p k d) = (r, d1)" by fastforce
  have ok1: "ok d1" using timeout_ok [OF _ d1] assms(1) Cons.prems(1) by blast
  obtain u where u: "r = Inr u" "scan_loop S p (k + 1) as d1 = (d', [])"
    using Cons.prems(2) by (cases r) (auto simp: d1 assms(3,4) Let_def split: prod.splits)
  have "settled (a_id b) d1" using timeout_settles [OF _ d1 [unfolded u(1)]] assms(1) Cons.prems(1) by blast
  from scan_loop_keeps [OF assms(1,2) ok1 this u(2)] Cons.IH [OF ok1 u(2)] Cons.prems(3) show ?case by auto
qed simp

end

lemma reachable_op:
  "reachable cfg any_call d \<Longrightarrow> \<not> (\<exists>i. op = OpCreateWorker i) \<Longrightarrow>
     reachable cfg any_call (apply_op cfg env op d)"
  by (rule reachable.call) (auto simp: uuid_ok_def split: store_call.splits)

lemma reachable_ops:
  assumes "reachable cfg any_call d"
  shows "CreateTask env i d = (r1, d1, es1) \<Longrightarrow> reachable cfg any_call d1"
    and "RecordScheduleRun env j next d = (r2, d2, es2) \<Longrightarrow> reachable cfg any_call d2"
    and "UpdateSchedule env j inp d = (r3, d3, es3) \<Longrightarrow> reachable cfg any_call d3"
    and "TimeoutAttempt env j d = (r4, d4, es4) \<Longrightarrow> reachable cfg any_call d4"
    and "RequeueRetrying env d = (r5, d5, es5) \<Longrightarrow> reachable cfg any_call d5"
  using reachable_op [OF assms, of "OpCreateTask i" env] reachable_op [OF assms, of "OpRecordRun j next" env]
    reachable_op [OF assms, of "OpUpdateSchedule j inp" env] reachable_op [OF assms, of "OpTimeout j" env]
    reachable_op [OF assms, of "OpRequeue" env]
  by simp_all

lemma find_finished:
  "find_row a_id aid (d_attempts d) = Some a \<Longrightarrow> (\<And>x. a_id (f x) = a_id x) \<Longrightarrow>
   find_row a_id aid (d_attempts (finish_db f g a ev d)) = Some (f a)"
  using find_row_SomeD [of a_id aid "d_attempts d" a] by (simp add: finish_db_def find_row_update_same)

text \<open>An attempt of the store is settled when its row is there and does not say running.\<close>

definition settled_row :: "string \<Rightarrow> db \<Rightarrow> bool" where
  "settled_row aid d \<longleftrightarrow> (\<exists>a. find_row a_id aid (d_attempts d) = Some a \<and> a_status a \<noteq> ARunning)"

lemma settled_extends:
  assumes "settled_row aid d" and "extends d d'" and "keys_ok d'"
  shows "settled_row aid d'"
proof -
  obtain a where "a \<in> set (d_attempts d)" "a_id a = aid" "a_status a \<noteq> ARunning"
    using assms(1) by (auto simp: settled_row_def dest: find_row_SomeD)
  then show ?thesis
    using assms(2,3) by (auto simp: settled_row_def extends_def keys_ok_def find_row_unique)
qed

lemma TimeoutAttempt_settles:
  assumes "TimeoutAttempt env aid d = (Inr u, d', es)"
  shows "settled_row aid d'"
proof -
  obtain tid where "timeout_tx env aid d = (Inr tid, d')"
    using assms unfolding TimeoutAttempt_def by (rule store_op_Inr)
  then show ?thesis
    by (rule timeout_tx_D) (auto simp: settled_row_def find_finished attempt_failed_def)
qed

lemma TimeoutAttempt_extends:
  assumes "reachable cfg any_call d" and "TimeoutAttempt env aid d = (r, d', es)"
  shows "extends d d'"
  using run_calls_extends [OF reachable_base [OF assms(1)], of cfg "[(env, OpTimeout aid)]"] assms(2) by simp

interpretation scheds: sched_store sched_ops "reachable cfg any_call" settled_row for cfg
proof (unfold_locales, goal_cases)
  case (6 d env aid u d')
  then show ?case by (auto intro: TimeoutAttempt_settles)
next
  case (7 d j env aid u d')
  then obtain es where t: "TimeoutAttempt env aid d = (u, d', es)" by auto
  have "keys_ok d'" using reachable_base [OF reachable_ops(4) [OF 7(1) t]] by (simp add: base_ok_def)
  with settled_extends [OF 7(2) TimeoutAttempt_extends [OF 7(1) t]] show ?case .
qed (auto dest: reachable_ops)

text \<open>Whatever the schedulers do, in any order with the other goroutines, under any faults and
  wherever the context ends, the database stays among the reachable ones, so every invariant of the
  store holds after each pass.\<close>

theorem scheduler_reachable:
  assumes "reachable cfg any_call d"
    and "\<And>k x. reachable cfg any_call x \<Longrightarrow> reachable cfg any_call (p_other p k x)"
  shows "reachable cfg any_call (fst (initSchedules sched_ops parse p d)) \<and>
    reachable cfg any_call (fst (poll sched_ops parse p d)) \<and>
    reachable cfg any_call (fst (scan sched_ops cutoff p d)) \<and>
    reachable cfg any_call (fst (retry_run sched_ops [Tick p] d))"
  by (rule scheds.passes_ok [OF assms])

lemma scheduler_reachable_witness:
  "reachable defaults any_call (fst (poll sched_ops (\<lambda>_. Inl ErrDriver) (demo_pass 9) scheduled_db))"
  using scheduler_reachable [OF scheduled_reachable, of "demo_pass 9" "\<lambda>_. Inl ErrDriver"]
  by (simp add: demo_pass_def)

text \<open>C22: A sweep works under interference: whatever the other goroutines commit between its calls, if it
  was not ended early and reports no error, then every attempt that was stale when it looked runs no more
  when it is done.\<close>

theorem scan_settles:
  assumes "reachable cfg any_call d"
    and "\<And>k x. reachable cfg any_call x \<Longrightarrow> reachable cfg any_call (p_other p k x) \<and> extends x (p_other p k x)"
    and "\<And>k. \<not> p_over p k" and "\<And>k. \<not> p_over_err p k" and "scan sched_ops cutoff p d = (d', [])"
    and "a \<in> set (d_attempts (p_other p 0 d))" and "stale (fmtDBTime (time_add (p_now p) (- cutoff))) a"
  shows "\<exists>a'. find_row a_id (a_id a) (d_attempts d') = Some a' \<and> a_status a' \<noteq> ARunning"
proof -
  have r0: "reachable cfg any_call (p_other p 0 d)" using assms(1,2) by blast
  obtain as where as: "FindStaleAttempts (p_call p 0) (time_add (p_now p) (- cutoff)) (p_other p 0 d) = Inr as"
      "scan_loop sched_ops p 1 as (p_other p 0 d) = (d', [])"
    using assms(5) by (auto simp: scan_def Let_def reported_def assms(4) split: sum.splits)
  have found: "a_id a \<in> a_id ` set as"
    using as(1) assms(6,7)
    by (auto simp: FindStaleAttempts_def scanAttempt_def image_image image_iff split: if_splits)
  have kept: "settled_row j (p_other p k x)" if "reachable cfg any_call x" "settled_row j x" for k j x
    using settled_extends [OF that(2)] assms(2) [OF that(1), of k] reachable_base [of cfg any_call "p_other p k x"]
    by (simp add: base_ok_def)
  obtain b where b: "b \<in> set as" "a_id b = a_id a" using found by (metis imageE)
  have "settled_row (a_id b) d'"
    by (rule scheds.scan_loop_settles [where cfg = cfg, OF _ _ assms(3,4) r0 as(2) b(1)]) (use assms(2) kept in blast)+
  then show ?thesis by (simp add: settled_row_def b(2))
qed

text \<open>An example: tasks are created while the sweep runs.\<close>

definition busy_pass :: "db pass_env" where
  "busy_pass = (demo_pass 90)\<lparr>p_other := (\<lambda>k. apply_op defaults (demo_env (100 + 2 * int k)) (OpCreateTask demo_task))\<rparr>"

lemma scan_settles_witness:
  "\<exists>d' a a'. scan sched_ops 0 busy_pass demo_db = (d', []) \<and> a \<in> set (d_attempts demo_db) \<and> a_status a = ARunning \<and>
     find_row a_id (a_id a) (d_attempts d') = Some a' \<and> a_status a' \<noteq> ARunning"
proof -
  define d' where "d' = fst (scan sched_ops 0 busy_pass demo_db)"
  define a where "a = hd (d_attempts demo_db)"
  have "snd (scan sched_ops 0 busy_pass demo_db) = []" by code_simp
  then have run: "scan sched_ops 0 busy_pass demo_db = (d', [])" by (simp add: d'_def prod_eq_iff)
  have "d_attempts demo_db \<noteq> []" by code_simp
  then have a: "a \<in> set (d_attempts demo_db)" by (simp add: a_def)
  have "d_attempts (p_other busy_pass 0 demo_db) = d_attempts demo_db" by code_simp
  with a have mem: "a \<in> set (d_attempts (p_other busy_pass 0 demo_db))" by simp
  have stale: "stale (fmtDBTime (time_add (p_now busy_pass) (- 0))) a" "a_status a = ARunning"
    unfolding a_def by code_simp+
  have quiet: "\<not> p_over busy_pass k" "\<not> p_over_err busy_pass k" for k by (simp_all add: busy_pass_def demo_pass_def)
  have others: "reachable defaults any_call (p_other busy_pass k x) \<and> extends x (p_other busy_pass k x)"
    if "reachable defaults any_call x" for k x
    using reachable_op [OF that, of "OpCreateTask demo_task"]
      run_calls_extends [OF reachable_base [OF that], of defaults "[(demo_env (100 + 2 * int k), OpCreateTask demo_task)]"]
    by (simp add: busy_pass_def)
  from scan_settles [OF demo_reachable others quiet run mem stale(1)] run a stale(2) show ?thesis by blast
qed

subsection \<open>The next run\<close>

lemma seconds_value:
  assumes "0 \<le> n" and "n \<le> 9223372036"
  shows "sint (seconds n) = n * 1000000000"
proof -
  have "seconds n = word_of_int (n * 1000000000)"
    by (simp add: seconds_def second_def)
  then have "sint (seconds n) = signed_take_bit 63 (n * 1000000000)"
    by (simp only: signed_of_int) simp
  then show ?thesis
    using assms by (simp add: signed_take_bit_int_eq_self)
qed

text \<open>The next run of a schedule is what its cron expression says of the given time, or, for an
  interval that fits 64-bit nanoseconds, one interval after its last run, or after the given time
  when it has never run; a bad expression and a schedule with neither are errors.\<close>

theorem computeNextRun_spec:
  "(s_cron_expr sc = Some expr \<and> parse expr = Inr f \<longrightarrow> computeNextRun parse sc t = Inr (f t)) \<and>
   (s_cron_expr sc = Some expr \<and> parse expr = Inl e \<longrightarrow> (\<exists>m. computeNextRun parse sc t = Inl (Wrap m e))) \<and>
   (s_cron_expr sc = None \<and> s_interval_secs sc = Some n \<and> 0 \<le> n \<and> n \<le> 9223372036 \<longrightarrow>
      computeNextRun parse sc t =
        Inr ((case s_last_run_at sc of None \<Rightarrow> t | Some l \<Rightarrow> l) + n * 1000000000)) \<and>
   (s_cron_expr sc = None \<and> s_interval_secs sc = None \<longrightarrow>
      (\<exists>m. computeNextRun parse sc t = Inl (ErrMsg m)))"
  using seconds_value [of n] by (auto simp: computeNextRun_def time_add_def)

lemma computeNextRun_spec_witness:
  "computeNextRun (\<lambda>_. Inl ErrDriver) (new_schedule (demo_env 1) demo_schedule) 0 = Inr (60 * 1000000000)"
proof -
  have "s_cron_expr (new_schedule (demo_env 1) demo_schedule) = None"
    "s_interval_secs (new_schedule (demo_env 1) demo_schedule) = Some 60"
    "s_last_run_at (new_schedule (demo_env 1) demo_schedule) = None"
    by (simp_all add: new_schedule_def demo_schedule_def)
  then show ?thesis
    using computeNextRun_spec [of "new_schedule (demo_env 1) demo_schedule" "[]" "\<lambda>_. Inl ErrDriver"
        "\<lambda>x. x" 0 ErrDriver 60] by simp
qed

text \<open>An interval of more than 9223372036 seconds overflows the 64-bit duration: for one second
  more the next run lies in the past.\<close>

theorem interval_overflow:
  "computeNextRun parse
     ((new_schedule (demo_env 1) demo_schedule)\<lparr>s_interval_secs := Some 9223372037\<rparr>) 0 =
   Inr (- 9223372036709551616)"
  by (simp add: computeNextRun_def new_schedule_def demo_schedule_def Let_def time_add_def seconds_def second_def)

subsection \<open>Firing\<close>

lemma CreateTask_smooth:
  assumes "smooth env" and "e_new_id env 0 \<notin> t_id ` set (d_tasks d)"
    and "e_new_id env 1 \<notin> ev_id ` set (d_events d)"
    and "cti_parent_id i = None" and "cti_schedule_id i = Some j" and "j \<in> s_id ` set (d_schedules d)"
  shows "CreateTask env i d = (Inr (new_task env i),
    d\<lparr>d_tasks := d_tasks d @ [task_row (new_task env i)],
      d_events := d_events d @
        [\<lparr>ev_id = e_new_id env 1, ev_task_id = e_new_id env 0, ev_event = EvQueued,
          ev_detail = None, ev_created_at = fmtDBTime (e_now env)\<rparr>]\<rparr>,
    emit env (SSEEvent (e_new_id env 0) EvQueued))"
proof -
  have fault: "e_fault env l = False" for l using assms(1) by (simp add: smooth_def)
  have "create_task_tx env i d = (Inr (new_task env i),
      d\<lparr>d_tasks := d_tasks d @ [task_row (new_task env i)],
        d_events := d_events d @
          [\<lparr>ev_id = e_new_id env 1, ev_task_id = e_new_id env 0, ev_event = EvQueued,
            ev_detail = None, ev_created_at = fmtDBTime (e_now env)\<rparr>]\<rparr>)"
    using assms(2-6)
    by (simp add: create_task_tx_def Let_def tx_Inr fault ref_ok_def del: One_nat_def)
  then show ?thesis by (simp add: CreateTask_def smooth_store_op [OF assms(1)] del: One_nat_def)
qed

lemma RecordScheduleRun_smooth:
  assumes "smooth env" and "j \<in> s_id ` set (d_schedules d)"
  shows "RecordScheduleRun env j next d =
    (Inr (), upd_schedule j (schedule_ran (fmtDBTime (e_now env)) (fmtDBTime next)) d, [])"
proof -
  have fault: "e_fault env l = False" for l using assms(1) by (simp add: smooth_def)
  have "count_where (\<lambda>s. s_id s = j) (d_schedules d) \<noteq> 0"
    using assms(2) by (auto simp: count_where_zero_iff)
  then have "record_run_tx env j next d =
      (Inr (), upd_schedule j (schedule_ran (fmtDBTime (e_now env)) (fmtDBTime next)) d)"
    by (simp add: record_run_tx_def tx_Inr fault)
  then show ?thesis by (simp add: RecordScheduleRun_def smooth_store_op [OF assms(1)])
qed

lemma fireDue_sets:
  assumes "quiet p" and "find_row s_id i (d_schedules d) = Some s"
    and "computeNextRun parse (scanSchedule s) now = Inr next"
    and "e_new_id (p_call p k) 0 \<notin> t_id ` set (d_tasks d)"
    and "e_new_id (p_call p k) 1 \<notin> ev_id ` set (d_events d)"
  shows "\<exists>d' t. fireDue sched_ops parse p k (scanSchedule s) now d = (d', []) \<and>
    d_tasks d' = d_tasks d @ [t] \<and> t_status t = Queued \<and> t_type t = s_task_type s \<and>
    t_queue t = (if s_queue s = [] then ''default'' else s_queue s) \<and> t_payload t = s_payload s \<and>
    t_schedule_id t = Some i \<and> t_run_at t = fmtDBTime (e_now (p_call p k)) \<and> t_max_retries t = 3 \<and>
    find_row s_id i (d_schedules d') =
      Some (s\<lparr>s_last_run_at := Some (fmtDBTime (e_now (p_call p (k + 1)))),
              s_next_run_at := Some (fmtDBTime next)\<rparr>) \<and>
    (\<forall>j. j \<noteq> i \<longrightarrow> find_row s_id j (d_schedules d') = find_row s_id j (d_schedules d)) \<and>
    d_attempts d' = d_attempts d \<and> d_workers d' = d_workers d"
proof -
  have s: "s \<in> set (d_schedules d)" "s_id s = i" using assms(2) by (simp_all add: find_row_SomeD)
  have id: "s_id (scanSchedule s) = i" using s(2) by (simp add: scanSchedule_def)
  have there: "i \<in> s_id ` set (d_schedules d)" using s by blast
  note smooth = quiet_simps(4) [OF assms(1)]
  have create: "CreateTask (p_call p k) (schedule_task (scanSchedule s)) d =
      (Inr (new_task (p_call p k) (schedule_task (scanSchedule s))),
       d\<lparr>d_tasks := d_tasks d @ [task_row (new_task (p_call p k) (schedule_task (scanSchedule s)))],
         d_events := d_events d @
        [\<lparr>ev_id = e_new_id (p_call p k) 1, ev_task_id = e_new_id (p_call p k) 0, ev_event = EvQueued,
          ev_detail = None, ev_created_at = fmtDBTime (e_now (p_call p k))\<rparr>]\<rparr>,
       emit (p_call p k) (SSEEvent (e_new_id (p_call p k) 0) EvQueued))"
    by (rule CreateTask_smooth [OF smooth assms(4,5)]) (use there id in \<open>simp_all add: schedule_task_def\<close>)
  have recorded: "RecordScheduleRun (p_call p (k + 1)) i next x =
      (Inr (), upd_schedule i (schedule_ran (fmtDBTime (e_now (p_call p (k + 1)))) (fmtDBTime next)) x, [])"
    if "d_schedules x = d_schedules d" for x
    by (rule RecordScheduleRun_smooth [OF smooth]) (use there that in simp)
  show ?thesis
    unfolding fireDue_def
    by (simp add: quiet_simps [OF assms(1)] create recorded assms(2,3) id upd_schedule_def find_row_update_same
        find_row_update_other del: One_nat_def)
      (simp add: new_task_def schedule_task_def Let_def scanSchedule_def schedule_ran_def is_zero_def s(2))
qed

text \<open>C34: Firing a due schedule creates exactly one queued task from its template, due at once and
  referring to it, records the run, and sets its next run to the computed one; nothing else
  changes.\<close>

theorem fireDue_fires:
  assumes "quiet p" and "find_row s_id i (d_schedules d) = Some s"
    and "computeNextRun parse (scanSchedule s) now = Inr next"
    and "e_new_id (p_call p k) 0 \<notin> t_id ` set (d_tasks d)"
    and "e_new_id (p_call p k) 1 \<notin> ev_id ` set (d_events d)"
  shows "\<exists>d' t. fireDue sched_ops parse p k (scanSchedule s) now d = (d', []) \<and>
    d_tasks d' = d_tasks d @ [t] \<and> t_status t = Queued \<and> t_type t = s_task_type s \<and>
    t_queue t = (if s_queue s = [] then ''default'' else s_queue s) \<and> t_payload t = s_payload s \<and>
    t_schedule_id t = Some i \<and> t_run_at t = fmtDBTime (e_now (p_call p k)) \<and> t_max_retries t = 3 \<and>
    find_row s_id i (d_schedules d') =
      Some (s\<lparr>s_last_run_at := Some (fmtDBTime (e_now (p_call p (k + 1)))),
              s_next_run_at := Some (fmtDBTime next)\<rparr>) \<and>
    (\<forall>j. j \<noteq> i \<longrightarrow> find_row s_id j (d_schedules d') = find_row s_id j (d_schedules d)) \<and>
    d_attempts d' = d_attempts d \<and> d_workers d' = d_workers d"
  using fireDue_sets [OF assms] .

lemma fireDue_fires_witness:
  "\<exists>d' t. fireDue sched_ops (\<lambda>_. Inl ErrDriver) (demo_pass 9) 0 (scanSchedule (demo_row scheduled_db)) (9 * 1000000000) scheduled_db =
     (d', []) \<and> d_tasks d' = d_tasks scheduled_db @ [t] \<and> t_schedule_id t = Some ''iiiii''"
proof -
  have row: "find_row s_id ''iiiii'' (d_schedules scheduled_db) = Some (demo_row scheduled_db)"
    "e_new_id (p_call (demo_pass 9) 0) 0 \<notin> t_id ` set (d_tasks scheduled_db)"
    "e_new_id (p_call (demo_pass 9) 0) 1 \<notin> ev_id ` set (d_events scheduled_db)"
    by code_simp+
  have "s_cron_expr (demo_row scheduled_db) = None" "s_interval_secs (demo_row scheduled_db) = Some 60"
    "s_last_run_at (demo_row scheduled_db) = None" by code_simp+
  then have "computeNextRun (\<lambda>_. Inl ErrDriver) (scanSchedule (demo_row scheduled_db)) (9 * 1000000000) =
      Inr (69 * 1000000000)"
    by (simp add: computeNextRun_def scanSchedule_def parseNullDBTime_def time_add_def seconds_value)
  from fireDue_fires [OF quiet_demo row(1) this row(2,3)] show ?thesis by blast
qed

text \<open>An interval schedule that has run before is due again as soon as it has fired: its next
  run is computed from the run before, so every interval fires it twice.\<close>

theorem interval_fires_again:
  assumes "quiet p" and "find_row s_id i (d_schedules d) = Some s" and "s_enabled s"
    and "s_cron_expr s = None" and "s_interval_secs s = Some n" and "0 < n" and "n \<le> 9223372036"
    and "s_last_run_at s = Some l" and "l + n \<le> fmtDBTime now"
    and "e_new_id (p_call p k) 0 \<notin> t_id ` set (d_tasks d)"
    and "e_new_id (p_call p k) 1 \<notin> ev_id ` set (d_events d)"
  shows "\<exists>d' s'. fireDue sched_ops parse p k (scanSchedule s) now d = (d', []) \<and>
    find_row s_id i (d_schedules d') = Some s' \<and> schedule_due (fmtDBTime now) s'"
proof -
  have step: "computeNextRun parse (scanSchedule s) now = Inr ((l + n) * 1000000000)"
    using assms(4-8) seconds_value [of n]
    by (simp add: computeNextRun_def scanSchedule_def parseNullDBTime_def parseDBTime_def time_add_def
        algebra_simps)
  have due: "schedule_due (fmtDBTime now)
      (s\<lparr>s_last_run_at := x, s_next_run_at := Some (fmtDBTime ((l + n) * 1000000000))\<rparr>)" for x
    using assms(3,9) fmt_parse_DBTime [of "l + n"] by (simp add: schedule_due_def parseDBTime_def)
  from fireDue_sets [OF assms(1,2) step assms(10,11)] show ?thesis using due by blast
qed

lemma interval_fires_again_witness:
  "\<exists>d' s'. fireDue sched_ops (\<lambda>_. Inl ErrDriver) (demo_pass 70) 2 (scanSchedule (demo_row fired_db)) (70 * 1000000000) fired_db = (d', []) \<and>
     find_row s_id ''iiiii'' (d_schedules d') = Some s' \<and> schedule_due 70 s'"
proof -
  have row: "find_row s_id ''iiiii'' (d_schedules fired_db) = Some (demo_row fired_db)"
    "e_new_id (p_call (demo_pass 70) 2) 0 \<notin> t_id ` set (d_tasks fired_db)"
    "e_new_id (p_call (demo_pass 70) 2) 1 \<notin> ev_id ` set (d_events fired_db)"
    by code_simp+
  have "s_cron_expr (demo_row fired_db) = None" "s_interval_secs (demo_row fired_db) = Some 60"
    "s_last_run_at (demo_row fired_db) = Some 9" "s_enabled (demo_row fired_db)" by code_simp+
  with interval_fires_again [OF quiet_demo row(1) _ _ _ _ _ _ _ row(2,3), of 60 9 "70 * 1000000000"]
  show ?thesis by (simp add: fmtDBTime_def)
qed

end
