(* ===== verification/ETQ_Queue.thy ===== *)
theory ETQ_Queue
  imports ETQ_Scheduler "HOL-Library.List_Lexorder" "HOL-Library.Char_ord" "HOL-Library.AList"
begin

section \<open>The worker pool (internal/queue)\<close>

text \<open>
  The registry of handlers, one claim-execute-report cycle (\<open>RunOnce\<close>), the registration of a pool
  and the loop each of its goroutines runs.  \<open>RunOnce\<close> and the pool use the store through the
  interface \<open>TaskStore\<close>: here a record of its methods over any state, as in the code, with the store
  of \<^verbatim>\<open>internal/store\<close> as one value of it.

  A handler is user code: a function from the execution context and the payload to a result, an
  error or a panic.  What else happens during a cycle is its environment: the environment of each
  store call, what other goroutines do to the state before it, how many heartbeats the handler's run
  takes, and whether the parent context is over when the handler returns.
\<close>

subsection \<open>Registry (registry.go)\<close>

datatype exec_ctx = WithCancel | WithTimeout duration

datatype handler_result = HReturn "bytes option" | HError string | HPanic string

text \<open>
  A handler is a function of the deadline it is given and its payload: what it returns, the error it returns,
  or the value it panics with.  What it does meanwhile and how it reacts to the end of its context is
  not seen here, and a cycle is one whose handler has come back; a server process waits for one that
  does not (ETQ\_Boot).
\<close>

type_synonym worker_func = "exec_ctx \<Rightarrow> bytes option \<Rightarrow> handler_result"

text \<open>\<open>map[string]WorkerFunc\<close>: the entries, each key once, in the order \<open>range\<close> happens to visit.\<close>

type_synonym registry = "(string \<times> worker_func) list"

definition NewRegistry :: registry where "NewRegistry = []"

text \<open>A nil handler panics.\<close>

definition Register :: "string \<Rightarrow> worker_func option \<Rightarrow> registry \<Rightarrow> registry option" where
  "Register ty fn r = (case fn of None \<Rightarrow> None | Some f \<Rightarrow> Some (AList.update ty f r))"

definition Lookup :: "string \<Rightarrow> registry \<Rightarrow> worker_func option" where
  "Lookup ty r = map_of r ty"

definition Dispatch :: "registry \<Rightarrow> exec_ctx \<Rightarrow> task \<Rightarrow> string + bytes option" where
  "Dispatch r ctx t =
     (case map_of r (t_type t) of
        None \<Rightarrow> Inl (''queue: no handler registered for task type '' @ go_quote (t_type t))
      | Some fn \<Rightarrow>
          (case fn ctx (t_payload t) of
             HReturn result \<Rightarrow> Inr result
           | HError msg \<Rightarrow> Inl msg
           | HPanic v \<Rightarrow> Inl (''panic: '' @ v)))"

definition TaskTypes :: "registry \<Rightarrow> string list" where
  "TaskTypes r = sort (map fst r)"

subsection \<open>The interface to the store (store\_iface.go)\<close>

record 'd task_store_ops =
  ts_CreateWorker :: "env \<Rightarrow> create_worker_input \<Rightarrow> 'd \<Rightarrow> (err + worker) \<times> 'd"
  ts_ClaimTask ::
    "env \<Rightarrow> string \<Rightarrow> string \<Rightarrow> string list \<Rightarrow> config \<Rightarrow> 'd \<Rightarrow> (err + (task \<times> string) option) \<times> 'd"
  ts_SucceedAttempt :: "env \<Rightarrow> string \<Rightarrow> bytes option \<Rightarrow> 'd \<Rightarrow> (err + unit) \<times> 'd"
  ts_FailAttempt :: "env \<Rightarrow> string \<Rightarrow> string \<Rightarrow> 'd \<Rightarrow> (err + unit) \<times> 'd"
  ts_CancelAttempt :: "env \<Rightarrow> string \<Rightarrow> 'd \<Rightarrow> (err + unit) \<times> 'd"
  ts_UpdateHeartbeat :: "env \<Rightarrow> string \<Rightarrow> 'd \<Rightarrow> (err + unit) \<times> 'd"

definition store_ops :: "db task_store_ops" where
  "store_ops =
     \<lparr>ts_CreateWorker = (\<lambda>env i d. sans_events (CreateWorker env i d)),
      ts_ClaimTask = (\<lambda>env wid q types cfg d. sans_events (ClaimTask env cfg wid q types d)),
      ts_SucceedAttempt = (\<lambda>env aid r d. sans_events (SucceedAttempt env aid r d)),
      ts_FailAttempt = (\<lambda>env aid msg d. sans_events (FailAttempt env aid msg d)),
      ts_CancelAttempt = (\<lambda>env aid d. sans_events (CancelAttempt env aid d)),
      ts_UpdateHeartbeat = (\<lambda>env aid d. sans_events (UpdateHeartbeat env aid d))\<rparr>"

subsection \<open>One cycle (worker.go)\<close>

record run_config =
  rc_registry :: registry
  rc_worker :: string
  rc_queue :: string
  rc_config :: config

record 'd run_env =
  r_call :: "nat \<Rightarrow> env"
  r_other :: "nat \<Rightarrow> 'd \<Rightarrow> 'd"
  r_beats :: nat
  r_over :: bool

definition buildExecCtx :: "int option \<Rightarrow> exec_ctx" where
  "buildExecCtx timeout =
     (case timeout of
        Some n \<Rightarrow> if 0 < n then WithTimeout (seconds n) else WithCancel
      | None \<Rightarrow> WithCancel)"

text \<open>The heartbeat goroutine: \<open>n\<close> ticks before it is stopped; it ignores errors.\<close>

fun heartbeats :: "'d task_store_ops \<Rightarrow> 'd run_env \<Rightarrow> string \<Rightarrow> nat \<Rightarrow> 'd \<Rightarrow> 'd" where
  "heartbeats S p aid 0 d = d"
| "heartbeats S p aid (Suc n) d =
     (let d1 = heartbeats S p aid n d
      in snd (ts_UpdateHeartbeat S (r_call p (Suc n)) aid (r_other p (Suc n) d1)))"

definition report ::
  "'d task_store_ops \<Rightarrow> env \<Rightarrow> bool \<Rightarrow> string + bytes option \<Rightarrow> string \<Rightarrow> 'd \<Rightarrow> (bool \<times> err option) \<times> 'd"
where
  "report S env over out aid d =
     (if over then
        (case ts_CancelAttempt S env aid d of
           (Inl e, d') \<Rightarrow> ((False, Some (Wrap ''CancelAttempt'' e)), d')
         | (Inr _, d') \<Rightarrow> ((False, Some ErrCtx), d'))
      else
        (case out of
           Inl msg \<Rightarrow>
             (case ts_FailAttempt S env aid msg d of
                (Inl e, d') \<Rightarrow> ((False, Some (Wrap ''FailAttempt'' e)), d')
              | (Inr _, d') \<Rightarrow> ((True, None), d'))
         | Inr result \<Rightarrow>
             (case ts_SucceedAttempt S env aid result d of
                (Inl e, d') \<Rightarrow> ((False, Some (Wrap ''SucceedAttempt'' e)), d')
              | (Inr _, d') \<Rightarrow> ((True, None), d'))))"

definition RunOnce ::
  "'d task_store_ops \<Rightarrow> 'd run_env \<Rightarrow> run_config \<Rightarrow> 'd \<Rightarrow> (bool \<times> err option) \<times> 'd" where
  "RunOnce S p rc d =
     (let types = TaskTypes (rc_registry rc) in
      if types = [] then ((False, None), d)
      else
        case ts_ClaimTask S (r_call p 0) (rc_worker rc) (rc_queue rc) types (rc_config rc)
               (r_other p 0 d) of
          (Inl e, d1) \<Rightarrow> ((False, Some (Wrap ''ClaimTask'' e)), d1)
        | (Inr None, d1) \<Rightarrow> ((False, None), d1)
        | (Inr (Some (t, aid)), d1) \<Rightarrow>
            (let n = r_beats p;
                 out = Dispatch (rc_registry rc) (buildExecCtx (t_timeout_secs t)) t;
                 d2 = heartbeats S p aid n d1
             in report S (r_call p (Suc n)) (r_over p) out aid (r_other p (Suc n) d2)))"

subsection \<open>The pool (pool.go)\<close>

record pool_config =
  pc_registry :: registry
  pc_config :: config
  pc_queue :: string
  pc_concurrency :: int
  pc_interval :: duration

record pool =
  pl_worker :: string
  pl_config :: pool_config

definition defaultPollInterval :: duration where "defaultPollInterval = 500000000"

definition pool_defaults :: "pool_config \<Rightarrow> pool_config" where
  "pool_defaults c =
     c\<lparr>pc_concurrency := (if pc_concurrency c \<le> 0 then 1 else pc_concurrency c),
       pc_interval := (if sint (pc_interval c) \<le> 0 then defaultPollInterval else pc_interval c)\<rparr>"

definition NewPool :: "'d task_store_ops \<Rightarrow> env \<Rightarrow> pool_config \<Rightarrow> 'd \<Rightarrow> (err + pool) \<times> 'd" where
  "NewPool S env cfg0 d =
     (let cfg = pool_defaults cfg0 in
      case ts_CreateWorker S env
             \<lparr>cwi_type = WorkerTypeGo, cwi_task_types = TaskTypes (pc_registry cfg),
              cwi_queue = pc_queue cfg, cwi_concurrency = pc_concurrency cfg, cwi_socket_path = None\<rparr> d of
        (Inl e, d') \<Rightarrow> (Inl (Wrap ''NewPool: register worker'' e), d')
      | (Inr w, d') \<Rightarrow> (Inr \<lparr>pl_worker = w_id w, pl_config = cfg\<rparr>, d'))"

definition run_config_of :: "pool \<Rightarrow> run_config" where
  "run_config_of pl =
     \<lparr>rc_registry = pc_registry (pl_config pl), rc_worker = pl_worker pl,
      rc_queue = pc_queue (pl_config pl), rc_config = pc_config (pl_config pl)\<rparr>"

text \<open>
  One goroutine's loop over what its rounds meet: whether the context is over at the top, the
  cycle's environment, whether the context is over when an error is examined, and which case the
  idle \<open>select\<close> takes.  The result says whether the goroutine has returned, and lists the errors it
  handed to \<open>OnError\<close>.
\<close>

record 'd round =
  rd_over :: bool
  rd_run :: "'d run_env"
  rd_over_err :: bool
  rd_done :: bool

fun pool_poll ::
  "'d task_store_ops \<Rightarrow> run_config \<Rightarrow> 'd round list \<Rightarrow> 'd \<Rightarrow> bool \<times> 'd \<times> err list" where
  "pool_poll S rc [] d = (False, d, [])"
| "pool_poll S rc (p # ps) d =
     (if rd_over p then (True, d, [])
      else case RunOnce S (rd_run p) rc d of
        ((got, err), d1) \<Rightarrow>
          if err \<noteq> None \<and> rd_over_err p then (True, d1, [])
          else if \<not> got \<and> rd_done p then (True, d1, (case err of None \<Rightarrow> [] | Some e \<Rightarrow> [e]))
          else (case pool_poll S rc ps d1 of (stop, d2, es) \<Rightarrow> (stop, d2, (case err of None \<Rightarrow> [] | Some e \<Rightarrow> [e]) @ es)))"

text \<open>An example: one handler, a cycle with one heartbeat, and rounds of it.\<close>

definition demo_registry :: registry where
  "demo_registry = [(''email'', \<lambda>_ x. HReturn (Some ''ok''))]"

definition demo_run :: run_config where
  "demo_run = \<lparr>rc_registry = demo_registry, rc_worker = ''i'', rc_queue = ''default'', rc_config = defaults\<rparr>"

definition demo_cycle :: "db run_env" where
  "demo_cycle = \<lparr>r_call = (\<lambda>k. demo_env (4 + int k)), r_other = (\<lambda>_ d. d), r_beats = 1, r_over = False\<rparr>"

definition demo_pool :: pool_config where
  "demo_pool = \<lparr>pc_registry = demo_registry, pc_config = defaults, pc_queue = ''default'',
     pc_concurrency = 1, pc_interval = 0\<rparr>"

definition demo_round :: "bool \<Rightarrow> db round" where
  "demo_round over = \<lparr>rd_over = over, rd_run = demo_cycle, rd_over_err = False, rd_done = False\<rparr>"

subsection \<open>What a cycle relies on\<close>

text \<open>
  The laws of the interface the pool uses: \<open>ok\<close> holds of the states the store keeps, \<open>row\<close> reads an
  attempt.  A claim hands out a running attempt of a task of a requested type; an outcome that is
  reported without an error is what the attempt then holds.
\<close>

definition finished_with :: "string + bytes option \<Rightarrow> attempt \<Rightarrow> bool" where
  "finished_with out a =
     (case out of
        Inl msg \<Rightarrow> a_status a = AFailed \<and> a_error a = Some msg
      | Inr result \<Rightarrow> a_status a = ASucceeded \<and> a_result a = result)"

locale task_store =
  fixes S :: "'d task_store_ops" and cfg :: config
    and ok :: "'d \<Rightarrow> bool" and row :: "string \<Rightarrow> 'd \<Rightarrow> attempt option"
  assumes claim_ok: "ok d \<Longrightarrow> ts_ClaimTask S env wid q types cfg d = (r, d') \<Longrightarrow> ok d'"
    and claim_row: "ok d \<Longrightarrow> ts_ClaimTask S env wid q types cfg d = (Inr (Some (t, aid)), d') \<Longrightarrow>
      t_type t \<in> set types \<and>
      (\<exists>a. row aid d' = Some a \<and> a_status a = ARunning \<and> a_task_id a = t_id t \<and> a_worker_id a = Some wid)"
    and succeed: "ok d \<Longrightarrow> ts_SucceedAttempt S env aid res d = (u, d') \<Longrightarrow>
      ok d' \<and> (u = Inr () \<longrightarrow> (\<exists>a. row aid d' = Some a \<and> finished_with (Inr res) a))"
    and failed: "ok d \<Longrightarrow> ts_FailAttempt S env aid msg d = (u, d') \<Longrightarrow>
      ok d' \<and> (u = Inr () \<longrightarrow> (\<exists>a. row aid d' = Some a \<and> finished_with (Inl msg) a))"
    and cancelled: "ok d \<Longrightarrow> ts_CancelAttempt S env aid d = (u, d') \<Longrightarrow>
      ok d' \<and> (u = Inr () \<longrightarrow> (\<exists>a. row aid d' = Some a \<and> a_status a = ACancelled))"
    and beat: "ok d \<Longrightarrow> ts_UpdateHeartbeat S env aid d = (u, d') \<Longrightarrow> ok d'"
begin

lemma heartbeats_ok:
  assumes "\<And>k d. ok d \<Longrightarrow> ok (r_other p k d)"
  shows "ok d \<Longrightarrow> ok (heartbeats S p aid n d)"
  by (induction n) (simp_all add: Let_def, metis assms beat prod.collapse)

lemma report_ok:
  "ok d \<Longrightarrow> report S env over out aid d = (res, d') \<Longrightarrow> ok d'"
  by (auto simp: report_def dest: succeed failed cancelled split: if_splits sum.splits prod.splits)

lemma report_done:
  assumes "ok d" and "report S env over out aid d = ((got, err), d')"
  shows "got \<Longrightarrow> err = None \<and> \<not> over \<and> (\<exists>a. row aid d' = Some a \<and> finished_with out a)"
    and "err = Some ErrCtx \<Longrightarrow> over \<and> (\<exists>a. row aid d' = Some a \<and> a_status a = ACancelled)"
    and "err = None \<Longrightarrow> got"
  using assms
  by (auto simp: report_def dest: succeed failed cancelled split: if_splits sum.splits prod.splits)

text \<open>A cycle after its claim.\<close>

lemma RunOnce_cases:
  assumes "ok d" and "\<And>k d. ok d \<Longrightarrow> ok (r_other p k d)" and "rc_config rc = cfg"
    and "RunOnce S p rc d = (res, d')"
  obtains (idle) "TaskTypes (rc_registry rc) = []" "res = (False, None)" "d' = d"
  | (claim_failed) e where "res = (False, Some (Wrap ''ClaimTask'' e))" "ok d'"
  | (empty) "res = (False, None)" "ok d'"
      "ts_ClaimTask S (r_call p 0) (rc_worker rc) (rc_queue rc) (TaskTypes (rc_registry rc)) cfg (r_other p 0 d) = (Inr None, d')"
  | (ran) t aid d1 d2 where
      "ts_ClaimTask S (r_call p 0) (rc_worker rc) (rc_queue rc) (TaskTypes (rc_registry rc)) cfg (r_other p 0 d) =
         (Inr (Some (t, aid)), d1)"
      "ok d1" "ok d2" "t_type t \<in> set (TaskTypes (rc_registry rc))"
      "report S (r_call p (Suc (r_beats p))) (r_over p)
         (Dispatch (rc_registry rc) (buildExecCtx (t_timeout_secs t)) t) aid d2 = (res, d')"
      "d2 = r_other p (Suc (r_beats p)) (heartbeats S p aid (r_beats p) d1)"
proof (cases "TaskTypes (rc_registry rc) = []")
  case True
  with assms(4) show ?thesis using idle by (simp add: RunOnce_def)
next
  case False
  obtain r d1 where c: "ts_ClaimTask S (r_call p 0) (rc_worker rc) (rc_queue rc)
      (TaskTypes (rc_registry rc)) cfg (r_other p 0 d) = (r, d1)" by fastforce
  note ok1 = claim_ok [OF assms(2) [OF assms(1)] c]
  show ?thesis
  proof (cases r)
    case (Inl e)
    with c False assms(3,4) ok1 show ?thesis by (intro claim_failed [of e]) (simp_all add: RunOnce_def Let_def)
  next
    case (Inr x)
    show ?thesis
    proof (cases x)
      case None
      with c Inr False assms(3,4) ok1 show ?thesis by (intro empty) (simp_all add: RunOnce_def Let_def)
    next
      case (Some y)
      obtain t aid where y: "y = (t, aid)" by fastforce
      show ?thesis
        using c Inr Some y False assms(3,4) ok1 claim_row [OF assms(2) [OF assms(1)] c [unfolded Inr Some y]]
          assms(2) [OF heartbeats_ok [OF assms(2) ok1]]
        by (intro ran [of t aid d1 "r_other p (Suc (r_beats p)) (heartbeats S p aid (r_beats p) d1)"])
          (simp_all add: RunOnce_def Let_def)
    qed
  qed
qed

lemma RunOnce_ok:
  assumes "ok d" and "\<And>k d. ok d \<Longrightarrow> ok (r_other p k d)" and "rc_config rc = cfg"
    and "RunOnce S p rc d = (res, d')"
  shows "ok d'"
  using assms(1) by (cases rule: RunOnce_cases [OF assms]) (auto intro: report_ok)

lemma pool_poll_ok:
  assumes "\<And>p k d. p \<in> set ps \<Longrightarrow> ok d \<Longrightarrow> ok (r_other (rd_run p) k d)" and "rc_config rc = cfg"
  shows "ok d \<Longrightarrow> pool_poll S rc ps d = (stop, d', es) \<Longrightarrow> ok d'"
  using assms
proof (induction ps arbitrary: d stop d' es)
  case (Cons p ps)
  obtain got err d1 where run: "RunOnce S (rd_run p) rc d = ((got, err), d1)" by (metis prod.collapse)
  have "ok d1" using RunOnce_ok [OF Cons.prems(1) _ Cons.prems(4) run] Cons.prems(3) by simp
  with Cons run show ?case by (auto split: if_splits prod.splits)
qed simp

end

subsection \<open>The store keeps the laws\<close>

lemma store_ops_simps:
  "ts_CreateWorker store_ops env i d = sans_events (CreateWorker env i d)"
  "ts_ClaimTask store_ops env wid q types cfg d = sans_events (ClaimTask env cfg wid q types d)"
  "ts_SucceedAttempt store_ops env aid r d = sans_events (SucceedAttempt env aid r d)"
  "ts_FailAttempt store_ops env aid msg d = sans_events (FailAttempt env aid msg d)"
  "ts_CancelAttempt store_ops env aid d = sans_events (CancelAttempt env aid d)"
  "ts_UpdateHeartbeat store_ops env aid d = sans_events (UpdateHeartbeat env aid d)"
  by (simp_all add: store_ops_def)

lemma ClaimTask_row:
  assumes "reachable cfg allowed d" and "ClaimTask env cfg wid q types d = (Inr (Some (t, aid)), d', es)"
  shows "t_type t \<in> set types \<and> (\<exists>a. find_row a_id aid (d_attempts d') = Some a \<and>
    a_status a = ARunning \<and> a_task_id a = t_id t \<and> a_worker_id a = Some wid)"
proof -
  have ids: "distinct (map t_id (d_tasks d))" using reachable_keys [OF assms(1)] by (simp add: keys_ok_def)
  from assms(2) have "store_op env (claim_tx env cfg wid q types) (\<lambda>e. e)
      (\<lambda>r. case r of None \<Rightarrow> [] | Some (t, aid) \<Rightarrow> emit env (SSEEvent (t_id t) EvStarted))
      (\<lambda>r. r) d = (Inr (Some (t, aid)), d', es)" by (simp add: ClaimTask_def split: if_splits)
  then obtain x where x: "claim_tx env cfg wid q types d = (Inr x, d')" "x = Some (t, aid)"
    by (rule store_op_Inr) auto
  from claim_tx_D [OF x(1) ids] x(2) obtain t0 where
    pick: "claim_pick env cfg q types d = Some t0"
      "t = scanTask (claim_row (fmtDBTime (e_now env)) t0)" "aid = e_new_id env 0"
      "e_new_id env 0 \<notin> a_id ` set (d_attempts d)" "d' = claim_db env wid (t_id t0) d" by auto
  from claim_pick_Some(4) [OF pick(1)] pick(2-5) show ?thesis
    by (auto simp: claim_db_fields find_row_append find_row_None_iff [THEN iffD2] claim_attempt_def
        scanTask_def)
qed

lemma outcome_rows:
  shows "SucceedAttempt env aid res d = (Inr u, d', es) \<Longrightarrow>
      \<exists>a. find_row a_id aid (d_attempts d') = Some a \<and> finished_with (Inr res) a"
    and "FailAttempt env aid msg d = (Inr u, d', es) \<Longrightarrow>
      \<exists>a. find_row a_id aid (d_attempts d') = Some a \<and> finished_with (Inl msg) a"
    and "CancelAttempt env aid d = (Inr u, d', es) \<Longrightarrow>
      \<exists>a. find_row a_id aid (d_attempts d') = Some a \<and> a_status a = ACancelled"
proof -
  assume "SucceedAttempt env aid res d = (Inr u, d', es)"
  then obtain x where "succeed_tx env aid res d = (Inr x, d')"
    unfolding SucceedAttempt_def by (rule store_op_Inr)
  then show "\<exists>a. find_row a_id aid (d_attempts d') = Some a \<and> finished_with (Inr res) a"
    by (rule succeed_tx_D) (auto simp: find_finished finished_with_def attempt_succeeded_def)
next
  assume "FailAttempt env aid msg d = (Inr u, d', es)"
  then obtain x where "fail_tx env aid msg d = (Inr x, d')"
    unfolding FailAttempt_def by (rule store_op_Inr)
  then show "\<exists>a. find_row a_id aid (d_attempts d') = Some a \<and> finished_with (Inl msg) a"
    by (cases x) (auto elim!: fail_tx_D simp: find_finished finished_with_def attempt_failed_def)
next
  assume "CancelAttempt env aid d = (Inr u, d', es)"
  then obtain x where "cancel_attempt_tx env aid d = (Inr x, d')"
    unfolding CancelAttempt_def by (rule store_op_Inr)
  then show "\<exists>a. find_row a_id aid (d_attempts d') = Some a \<and> a_status a = ACancelled"
    by (rule cancel_attempt_tx_D) (auto simp: find_finished attempt_cancelled_def)
qed

lemma reachable_results:
  assumes "reachable cfg any_call d"
  shows "ClaimTask env cfg wid q types d = (r1, d1, es1) \<Longrightarrow> reachable cfg any_call d1"
    and "SucceedAttempt env aid res d = (r2, d2, es2) \<Longrightarrow> reachable cfg any_call d2"
    and "FailAttempt env aid msg d = (r3, d3, es3) \<Longrightarrow> reachable cfg any_call d3"
    and "CancelAttempt env aid d = (r4, d4, es4) \<Longrightarrow> reachable cfg any_call d4"
    and "UpdateHeartbeat env aid d = (r5, d5, es5) \<Longrightarrow> reachable cfg any_call d5"
  using reachable_op [OF assms, of "OpClaim wid q types" env] reachable_op [OF assms, of "OpSucceed aid res" env]
    reachable_op [OF assms, of "OpFail aid msg" env] reachable_op [OF assms, of "OpCancelAttempt aid" env]
    reachable_op [OF assms, of "OpHeartbeat aid" env]
  by simp_all

interpretation pool_store: task_store store_ops cfg "reachable cfg any_call"
    "\<lambda>aid d. find_row a_id aid (d_attempts d)" for cfg
proof (unfold_locales, goal_cases)
  case (1 d env wid q types r d')
  then show ?case by (auto simp: store_ops_simps dest: reachable_results)
next
  case (2 d env wid q types t aid d')
  then show ?case by (auto simp: store_ops_simps dest: ClaimTask_row)
next
  case (3 d env aid res u d')
  then show ?case by (auto simp: store_ops_simps dest: reachable_results outcome_rows)
next
  case (4 d env aid msg u d')
  then show ?case by (auto simp: store_ops_simps dest: reachable_results outcome_rows)
next
  case (5 d env aid u d')
  then show ?case by (auto simp: store_ops_simps dest: reachable_results outcome_rows)
next
  case (6 d env aid u d')
  then show ?case by (auto simp: store_ops_simps dest: reachable_results)
qed

subsection \<open>What the pool promises\<close>

lemma TaskTypes_Nil [simp]: "TaskTypes r = [] \<longleftrightarrow> r = []"
  by (simp add: TaskTypes_def flip: length_0_conv)

text \<open>The registry holds the last handler registered for each task type and nothing else: its types come
  sorted and without repetition, a lookup and a dispatch see the new handler for its type and what was there
  for every other, a panic of a handler is an error, and a nil handler is not registered.\<close>

theorem registry_registers:
  assumes "distinct (map fst r)"
  shows "Register ty None r = None \<and>
    (\<exists>r'. Register ty (Some f) r = Some r' \<and> distinct (map fst r') \<and>
      sorted (TaskTypes r') \<and> distinct (TaskTypes r') \<and> set (TaskTypes r') = insert ty (set (TaskTypes r)) \<and>
      Lookup ty' r' = (if ty' = ty then Some f else Lookup ty' r) \<and>
      (if t_type t = ty
       then Dispatch r' ctx t = (case f ctx (t_payload t) of HReturn x \<Rightarrow> Inr x | HError m \<Rightarrow> Inl m
              | HPanic v \<Rightarrow> Inl (''panic: '' @ v))
       else Dispatch r' ctx t = Dispatch r ctx t))"
proof -
  have "distinct (map fst (AList.update ty f r))" using assms by (simp add: distinct_update)
  moreover have "fst ` set (AList.update ty f r) = insert ty (fst ` set r)"
    by (simp add: dom_map_of_conv_image_fst [symmetric] update_conv')
  ultimately show ?thesis
    by (simp add: Register_def TaskTypes_def Lookup_def Dispatch_def update_conv')
qed

lemma registry_registers_witness:
  "\<exists>r. Register ''email'' (Some (\<lambda>_ x. HReturn x)) demo_registry = Some r \<and> TaskTypes r = [''email'']"
proof -
  have d: "distinct (map fst demo_registry)" by (simp add: demo_registry_def)
  have "set (TaskTypes demo_registry) = {''email''}" by (simp add: demo_registry_def TaskTypes_def)
  from registry_registers [OF d, of "''email''" "\<lambda>_ x. HReturn x"] obtain r where
    r: "Register ''email'' (Some (\<lambda>_ x. HReturn x)) demo_registry = Some r"
      "distinct (TaskTypes r)" "set (TaskTypes r) = insert ''email'' (set (TaskTypes demo_registry))"
    by blast
  then have "set (TaskTypes r) = {''email''}" using \<open>set (TaskTypes demo_registry) = {''email''}\<close> by simp
  then have "length (TaskTypes r) = 1" "set (TaskTypes r) = {''email''}"
    using distinct_card [OF r(2)] by simp_all
  with r(1) show ?thesis by (cases "TaskTypes r") auto
qed

text \<open>What the calls of a cycle do to the attempts that are there.\<close>

lemma cycle_extends:
  assumes "reachable cfg any_call d"
  shows "UpdateHeartbeat env aid d = (r1, d1, es1) \<Longrightarrow> extends d d1"
    and "SucceedAttempt env aid res d = (r2, d2, es2) \<Longrightarrow> extends d d2"
    and "FailAttempt env aid msg d = (r3, d3, es3) \<Longrightarrow> extends d d3"
    and "CancelAttempt env aid d = (r4, d4, es4) \<Longrightarrow> extends d d4"
  using run_calls_extends [OF reachable_base [OF assms], of cfg "[(env, OpHeartbeat aid)]"]
    run_calls_extends [OF reachable_base [OF assms], of cfg "[(env, OpSucceed aid res)]"]
    run_calls_extends [OF reachable_base [OF assms], of cfg "[(env, OpFail aid msg)]"]
    run_calls_extends [OF reachable_base [OF assms], of cfg "[(env, OpCancelAttempt aid)]"]
  by simp_all

lemma report_extends:
  "reachable cfg any_call d \<Longrightarrow> report store_ops env over out aid d = (res, d') \<Longrightarrow> extends d d'"
  by (auto simp: report_def store_ops_simps split: if_splits sum.splits prod.splits dest: cycle_extends)

lemma heartbeats_extends:
  assumes "\<And>k x. reachable cfg any_call x \<Longrightarrow> reachable cfg any_call (r_other p k x) \<and> extends x (r_other p k x)"
    and "reachable cfg any_call d"
  shows "reachable cfg any_call (heartbeats store_ops p aid n d) \<and> extends d (heartbeats store_ops p aid n d)"
proof (induction n)
  case (Suc n)
  let ?x = "r_other p (Suc n) (heartbeats store_ops p aid n d)"
  obtain u d1 es where d1: "UpdateHeartbeat (r_call p (Suc n)) aid ?x = (u, d1, es)" by (rule prod_cases3)
  have x: "reachable cfg any_call ?x" "extends d ?x" using assms(1) Suc.IH by (auto intro: extends_trans)
  from reachable_results(5) [OF x(1) d1] cycle_extends(1) [OF x(1) d1] x(2) show ?case
    by (auto simp: store_ops_simps d1 Let_def intro: extends_trans)
qed (simp add: assms(2))

text \<open>An attempt keeps its task, its number and its worker.\<close>

lemma core_kept:
  assumes "find_row a_id aid (d_attempts d) = Some a" and "find_row a_id aid (d_attempts d') = Some a'"
    and "extends d d'" and "keys_ok d'"
  shows "attempt_core a' = attempt_core a"
proof -
  have a: "a \<in> set (d_attempts d)" "a_id a = aid" using find_row_SomeD [OF assms(1)] by simp_all
  then have "attempt_core a \<in> attempt_core ` set (d_attempts d')"
    using assms(3) unfolding extends_def by (metis (no_types) UnI1 image_eqI image_set set_append)
  then obtain b where b: "b \<in> set (d_attempts d')" "attempt_core b = attempt_core a" by (metis imageE)
  then have "find_row a_id aid (d_attempts d') = Some b"
    using assms(4) a(2) by (auto simp: keys_ok_def find_row_unique attempt_core_def)
  with assms(2) b(2) show ?thesis by simp
qed

text \<open>C12: A cycle of a worker in a reachable database, whatever faults, heartbeats and other goroutines
  it meets: it stays among the reachable databases; when it says it ran a task, then it is the one its claim
  returned, and the attempt of that claim, still that task's and this worker's, is finished with exactly what
  the registered handler returned for the task or with its error; when the parent context ended, that attempt
  is cancelled; when it says neither, nothing was claimed.\<close>

theorem RunOnce_reports:
  assumes "reachable cfg any_call d"
    and "\<And>k x. reachable cfg any_call x \<Longrightarrow> reachable cfg any_call (r_other p k x) \<and> extends x (r_other p k x)"
    and "rc_config rc = cfg" and "RunOnce store_ops p rc d = ((got, err), d')"
  shows "reachable cfg any_call d' \<and>
    (got \<longrightarrow> err = None \<and> \<not> r_over p) \<and> (err = Some ErrCtx \<longrightarrow> r_over p) \<and>
    (got \<or> err = Some ErrCtx \<longrightarrow>
      (\<exists>t aid d1 es a.
         ClaimTask (r_call p 0) cfg (rc_worker rc) (rc_queue rc) (TaskTypes (rc_registry rc)) (r_other p 0 d) =
           (Inr (Some (t, aid)), d1, es) \<and>
         Lookup (t_type t) (rc_registry rc) \<noteq> None \<and> find_row a_id aid (d_attempts d') = Some a \<and>
         a_task_id a = t_id t \<and> a_worker_id a = Some (rc_worker rc) \<and>
         (if got then finished_with (Dispatch (rc_registry rc) (buildExecCtx (t_timeout_secs t)) t) a
          else a_status a = ACancelled))) \<and>
    (\<not> got \<and> err = None \<longrightarrow> rc_registry rc = [] \<and> d' = d \<or>
      ts_ClaimTask store_ops (r_call p 0) (rc_worker rc) (rc_queue rc) (TaskTypes (rc_registry rc)) cfg
        (r_other p 0 d) = (Inr None, d'))"
proof -
  have others: "reachable cfg any_call (r_other p k x)" if "reachable cfg any_call x" for k x
    using assms(2) [OF that] by blast
  have ok: "reachable cfg any_call d'" by (rule pool_store.RunOnce_ok [OF assms(1) others assms(3,4)])
  show ?thesis
  proof (rule pool_store.RunOnce_cases [OF assms(1) others assms(3,4)], goal_cases)
    case 2
    then show ?case using ok by simp
  next
    case (5 t aid d1 d2)
    obtain es where claim: "ClaimTask (r_call p 0) cfg (rc_worker rc) (rc_queue rc) (TaskTypes (rc_registry rc))
        (r_other p 0 d) = (Inr (Some (t, aid)), d1, es)" using 5(1) by (auto simp: store_ops_simps)
    have look: "Lookup (t_type t) (rc_registry rc) \<noteq> None"
      using 5(4) by (simp add: TaskTypes_def Lookup_def map_of_eq_None_iff)
    have "extends d1 d2"
      using heartbeats_extends [OF assms(2) 5(2)] assms(2) unfolding 5(6) by (blast intro: extends_trans)
    then have ext: "extends d1 d'" using report_extends [OF 5(3,5)] by (blast intro: extends_trans)
    obtain b where b: "find_row a_id aid (d_attempts d1) = Some b" "a_task_id b = t_id t" "a_worker_id b = Some (rc_worker rc)"
      using ClaimTask_row [OF others [OF assms(1)] claim] by blast
    have "keys_ok d'" using reachable_base [OF ok] by (simp add: base_ok_def)
    then have core: "a_task_id a = t_id t \<and> a_worker_id a = Some (rc_worker rc)"
      if "find_row a_id aid (d_attempts d') = Some a" for a
      using core_kept [OF b(1) that ext] b(2,3) by (simp add: attempt_core_def)
    note told = pool_store.report_done [OF 5(3,5)]
    have "\<exists>a. find_row a_id aid (d_attempts d') = Some a \<and>
        (if got then finished_with (Dispatch (rc_registry rc) (buildExecCtx (t_timeout_secs t)) t) a else a_status a = ACancelled)"
      if "got \<or> err = Some ErrCtx"
      using that told(1,2) by (cases got) auto
    with core claim look have "\<exists>t aid d1 es a.
         ClaimTask (r_call p 0) cfg (rc_worker rc) (rc_queue rc) (TaskTypes (rc_registry rc)) (r_other p 0 d) =
           (Inr (Some (t, aid)), d1, es) \<and>
         Lookup (t_type t) (rc_registry rc) \<noteq> None \<and> find_row a_id aid (d_attempts d') = Some a \<and>
         a_task_id a = t_id t \<and> a_worker_id a = Some (rc_worker rc) \<and>
         (if got then finished_with (Dispatch (rc_registry rc) (buildExecCtx (t_timeout_secs t)) t) a
          else a_status a = ACancelled)" if "got \<or> err = Some ErrCtx"
      using that by blast
    with told ok show ?case by blast
  qed (use ok others in auto)
qed

lemma RunOnce_reports_witness:
  "\<exists>t aid d1 es a. ClaimTask (r_call demo_cycle 0) defaults ''i'' ''default'' [''email''] queued_db = (Inr (Some (t, aid)), d1, es) \<and>
     find_row a_id aid (d_attempts (snd (RunOnce store_ops demo_cycle demo_run queued_db))) = Some a \<and>
     a_task_id a = t_id t \<and> finished_with (Dispatch demo_registry (buildExecCtx (t_timeout_secs t)) t) a"
proof -
  have "fst (RunOnce store_ops demo_cycle demo_run queued_db) = (True, None)" by code_simp
  then have run: "RunOnce store_ops demo_cycle demo_run queued_db =
      ((True, None), snd (RunOnce store_ops demo_cycle demo_run queued_db))" by (metis prod.collapse)
  have "TaskTypes demo_registry = [''email'']" by code_simp
  with RunOnce_reports [OF queued_reachable _ _ run] show ?thesis
    by (auto simp: demo_cycle_def demo_run_def)
qed

text \<open>A goroutine of the pool stays among the reachable databases, and returns: once its context is over
  at the top of a round it has stopped, and nothing that would come later changes what it did.\<close>

theorem pool_poll_stops:
  assumes "reachable cfg any_call d"
    and "list_all (\<lambda>p. (\<forall>k x. reachable cfg any_call x \<longrightarrow> reachable cfg any_call (r_other (rd_run p) k x))) ps"
    and "pool_poll store_ops (run_config_of pl) ps d = (stop, d', es)" and "pc_config (pl_config pl) = cfg"
  shows "reachable cfg any_call d' \<and> (list_ex rd_over ps \<longrightarrow> stop) \<and>
    (stop \<longrightarrow> pool_poll store_ops (run_config_of pl) (ps @ qs) d = (stop, d', es))"
proof (intro conjI impI)
  show "reachable cfg any_call d'"
    using assms by (intro pool_store.pool_poll_ok [OF _ _ assms(1,3)])
      (auto simp: run_config_of_def list_all_iff)
  show stop if "list_ex rd_over ps"
    using that assms(3)
    by (induction ps arbitrary: d stop d' es) (auto split: if_splits prod.splits)
  show "pool_poll store_ops (run_config_of pl) (ps @ qs) d = (stop, d', es)" if stop
    using that assms(3)
    by (induction ps arbitrary: d stop d' es) (auto split: if_splits prod.splits)
qed

lemma pool_poll_stops_witness:
  "fst (pool_poll store_ops demo_run [demo_round False, demo_round True] queued_db)"
proof -
  have eq: "run_config_of \<lparr>pl_worker = ''i'', pl_config = demo_pool\<rparr> = demo_run"
    by (simp add: run_config_of_def demo_pool_def demo_run_def)
  obtain stop d' es where
    "pool_poll store_ops demo_run [demo_round False, demo_round True] queued_db = (stop, d', es)"
    by (rule prod_cases3)
  with pool_poll_stops [OF queued_reachable, of "[demo_round False, demo_round True]"
      "\<lparr>pl_worker = ''i'', pl_config = demo_pool\<rparr>" stop d' es "[]"] eq
  show ?thesis by (simp add: demo_round_def demo_cycle_def demo_pool_def)
qed

end
