(* ===== verification/ETQ_StoreOps.thy ===== *)
theory ETQ_StoreOps
  imports ETQ_Runs "HOL-Library.Multiset"
begin

section \<open>What the operations of the store do\<close>

text \<open>
  The functional behaviour of the operations, on every branch: which task a claim picks and when it
  picks none, what a failed attempt makes of its task, what is refused and how, what the reads
  return after the writes.
\<close>

text \<open>The \<open>k\<close>-th page of \<open>n\<close> tasks.\<close>

definition list_page :: "env \<Rightarrow> list_tasks_filter \<Rightarrow> int \<Rightarrow> db \<Rightarrow> nat \<Rightarrow> task list" where
  "list_page env f n d k =
     (case ListTasks env (f\<lparr>ltf_limit := n, ltf_offset := n * int k\<rparr>) d of
        Inl _ \<Rightarrow> [] | Inr ts \<Rightarrow> ts)"

text \<open>The control actions, the task each is about and the states it starts from.\<close>

definition sources_of :: "store_call \<Rightarrow> (string \<times> task_status list) option" where
  "sources_of op =
     (case op of
        OpHalt i \<Rightarrow> Some (i, [Running])
      | OpResume i \<Rightarrow> Some (i, [Halted])
      | OpCancel i \<Rightarrow> Some (i, [Queued, Halted])
      | OpRetry i \<Rightarrow> Some (i, [Dead, Cancelled])
      | OpRestart i \<Rightarrow> Some (i, [Queued, Succeeded, Dead, Cancelled, Halted])
      | _ \<Rightarrow> None)"

definition control_result :: "env \<Rightarrow> store_call \<Rightarrow> db \<Rightarrow> unit outcome option" where
  "control_result env op d =
     (case op of
        OpHalt i \<Rightarrow> Some (HaltTask env i d)
      | OpResume i \<Rightarrow> Some (ResumeTask env i d)
      | OpCancel i \<Rightarrow> Some (CancelTask env i d)
      | OpRetry i \<Rightarrow> Some (RetryTask env i d)
      | OpRestart i \<Rightarrow> Some (case RestartTask env i d of
            (Inl e, d', es) \<Rightarrow> (Inl e, d', es) | (Inr _, d', es) \<Rightarrow> (Inr (), d', es))
      | _ \<Rightarrow> None)"

subsection \<open>Claiming\<close>

text \<open>C8: A claim that returns a task returns a queued, due task of the requested queue and types,
  none of whose limits is reached, and no other such task comes before it (higher priority, or the
  same and created earlier); its whole effect is to mark it running, to add its next attempt, to
  count it on the worker and to record and announce its start.\<close>

theorem ClaimTask_picks:
  assumes "reachable cfg allowed d"
    and "ClaimTask env cfg wid q types d = (Inr (Some (t, aid)), d', es)"
  shows "\<exists>r \<in> set (d_tasks d). t = scanTask (claim_row (fmtDBTime (e_now env)) r) \<and>
    aid = e_new_id env 0 \<and> d' = claim_db env wid (t_id r) d \<and>
    es = emit env (SSEEvent (t_id r) EvStarted) \<and>
    t_status r = Queued \<and> t_queue r = q \<and> t_type r \<in> set types \<and>
    t_run_at r \<le> fmtDBTime (e_now env) \<and>
    count_where running (d_tasks d) < c_global cfg \<and> \<not> queue_full cfg d q \<and> \<not> type_full cfg d (t_type r) \<and>
    (\<forall>r' \<in> set (d_tasks d). t_status r' = Queued \<and> t_queue r' = q \<and> t_type r' \<in> set types \<and>
       t_run_at r' \<le> fmtDBTime (e_now env) \<and> \<not> type_full cfg d (t_type r') \<longrightarrow>
       t_priority r' < t_priority r \<or>
       t_priority r' = t_priority r \<and> t_created_at r \<le> t_created_at r')"
proof -
  note ids = conjunct1 [OF base_ok_D [OF reachable_base [OF assms(1)]]]
  from assms(2) have body: "claim_tx env cfg wid q types d = (Inr (Some (t, aid)), d')"
    and es: "es = emit env (SSEEvent (t_id t) EvStarted)"
    by (auto simp: ClaimTask_def elim!: store_op_Inr split: if_splits)
  from claim_tx_D [OF body ids] obtain r where pick: "claim_pick env cfg q types d = Some r"
    and r: "t = scanTask (claim_row (fmtDBTime (e_now env)) r)" "aid = e_new_id env 0"
      "d' = claim_db env wid (t_id r) d" by auto
  note P = claim_pick_Some [OF pick]
  have "t_priority r' < t_priority r \<or> t_priority r' = t_priority r \<and> t_created_at r \<le> t_created_at r'"
    if "r' \<in> set (d_tasks d)" "t_status r' = Queued" "t_queue r' = q" "t_type r' \<in> set types"
      "t_run_at r' \<le> fmtDBTime (e_now env)" "\<not> type_full cfg d (t_type r')" for r'
    using task_order_le [OF P(9) [OF that(1)]] that by (auto simp: claimable_def)
  then show ?thesis using P(1-8) r es by (intro bexI [of _ r]) simp_all
qed

lemma ClaimTask_picks_witness:
  "\<exists>r \<in> set (d_tasks demo_db). t_status r = Queued \<and> t_type r \<in> set [''email''] \<and>
     db_of (ClaimTask (demo_env 5) defaults ''i'' ''default'' [''email''] demo_db) =
       claim_db (demo_env 5) ''i'' (t_id r) demo_db"
proof -
  obtain res d' es where eq: "ClaimTask (demo_env 5) defaults ''i'' ''default'' [''email''] demo_db = (res, d', es)"
    by (rule prod_cases3)
  have "(case res_of (ClaimTask (demo_env 5) defaults ''i'' ''default'' [''email''] demo_db) of
      Inr (Some _) \<Rightarrow> True | _ \<Rightarrow> False)" by code_simp
  then obtain t aid where "res = Inr (Some (t, aid))" by (auto simp: eq split: sum.splits option.splits)
  then show ?thesis using ClaimTask_picks [OF demo_reachable, of "demo_env 5" "''i''" "''default''" "[''email'']"] eq
    by fastforce
qed

text \<open>A served claim that meets no fault and can reference its worker returns no task exactly
  when there is nothing it may start: no type was asked for, the global or the queue's limit is
  reached, or no due queued task of the queue has a requested type below its limit.  It then changes
  nothing and announces nothing.\<close>

theorem ClaimTask_none:
  assumes "reachable cfg allowed d" and "smooth env"
    and "e_new_id env 0 \<notin> a_id ` set (d_attempts d)" and "e_new_id env 1 \<notin> ev_id ` set (d_events d)"
    and "wid \<in> w_id ` set (d_workers d)"
  shows "(ClaimTask env cfg wid q types d = (Inr None, d, []) \<longleftrightarrow>
      types = [] \<or> c_global cfg \<le> count_where running (d_tasks d) \<or> queue_full cfg d q \<or>
      (\<forall>r \<in> set (d_tasks d). \<not> (t_status r = Queued \<and> t_queue r = q \<and> t_type r \<in> set types \<and>
         t_run_at r \<le> fmtDBTime (e_now env) \<and> \<not> type_full cfg d (t_type r)))) \<and>
    (\<exists>r. res_of (ClaimTask env cfg wid q types d) = Inr r)"
proof (cases "claim_pick env cfg q types d")
  case None
  then have "types = [] \<or> c_global cfg \<le> count_where running (d_tasks d) \<or> queue_full cfg d q \<or>
      (\<forall>r \<in> set (d_tasks d). \<not> (t_status r = Queued \<and> t_queue r = q \<and> t_type r \<in> set types \<and>
         t_run_at r \<le> fmtDBTime (e_now env) \<and> \<not> type_full cfg d (t_type r)))"
    by (auto simp: claim_pick_def claimable_def filter_empty_conv split: if_splits list.splits)
  moreover have "ClaimTask env cfg wid q types d = (Inr None, d, [])"
    by (rule smooth_claim_none [OF assms(2) None])
  ultimately show ?thesis by simp
next
  case (Some t)
  note P = claim_pick_Some [OF Some]
  have fk: "ref_ok (e_fk env) (Some wid) (map w_id (d_workers d))"
    using assms(5) by (simp add: ref_ok_def)
  note body = smooth_claim_tx [OF assms(2) conjunct1 [OF base_ok_D [OF reachable_base [OF assms(1)]]]
      Some assms(3,4) fk]
  have "types \<noteq> []" using P(4) by auto
  then have "ClaimTask env cfg wid q types d =
      (Inr (Some (scanTask (claim_row (fmtDBTime (e_now env)) t), e_new_id env 0)),
       claim_db env wid (t_id t) d, emit env (SSEEvent (t_id t) EvStarted))"
    by (simp add: ClaimTask_def smooth_store_op [OF assms(2)] body)
  then show ?thesis using P by (auto simp: not_le)
qed

lemma ClaimTask_none_witness:
  "ClaimTask (demo_env 5) defaults ''i'' ''other'' [''email''] demo_db = (Inr None, demo_db, [])"
proof -
  have "e_new_id (demo_env 5) 0 \<notin> a_id ` set (d_attempts demo_db)"
    "e_new_id (demo_env 5) 1 \<notin> ev_id ` set (d_events demo_db)" "''i'' \<in> w_id ` set (d_workers demo_db)"
    "\<forall>r \<in> set (d_tasks demo_db). t_queue r \<noteq> ''other''" by code_simp+
  then show ?thesis
    using ClaimTask_none [OF demo_reachable smooth_demo, of 5 "''i''" "''other''" "[''email'']"] by simp
qed

text \<open>C9: No task is claimed twice: after a claim returned a task, another claim in the database it
  left returns a different one.\<close>

theorem ClaimTask_exclusive:
  assumes "reachable cfg allowed d"
    and "ClaimTask env cfg wid q types d = (Inr (Some (t, aid)), d', es)"
    and "ClaimTask env' cfg wid' q' types' d' = (Inr (Some (t', aid')), d'', es')"
  shows "t_id t' \<noteq> t_id t"
proof
  assume eq: "t_id t' = t_id t"
  note base = reachable_base [OF assms(1)]
  note ids = conjunct1 [OF base_ok_D [OF base]]
  have d': "d' = apply_op cfg env (OpClaim wid q types) d" by (simp add: assms(2))
  have ids': "distinct (map t_id (d_tasks d'))"
    using base_ok_D [OF apply_op_base [OF base]] d' by blast
  from assms(2) have "claim_tx env cfg wid q types d = (Inr (Some (t, aid)), d')"
    by (auto simp: ClaimTask_def elim!: store_op_Inr split: if_splits)
  from claim_tx_D [OF this ids] obtain r where r: "d' = claim_db env wid (t_id r) d"
    and t: "t = scanTask (claim_row (fmtDBTime (e_now env)) r)" by blast
  from assms(3) have "claim_tx env' cfg wid' q' types' d' = (Inr (Some (t', aid')), d'')"
    by (auto simp: ClaimTask_def elim!: store_op_Inr split: if_splits)
  from claim_tx_D [OF this ids'] obtain r' where pick: "claim_pick env' cfg q' types' d' = Some r'"
    and t': "t' = scanTask (claim_row (fmtDBTime (e_now env')) r')" by blast
  from claim_pick_Some(1,2) [OF pick] have "r' \<in> set (d_tasks d')" "t_status r' = Queued" .
  then show False
    using r t t' eq by (auto simp: claim_db_def set_update_where split: if_splits)
qed

lemma ClaimTask_exclusive_witness:
  "\<exists>t a d1 es1 t' a' d2 es2. t_id t' \<noteq> t_id t \<and>
     ClaimTask (demo_env 5) defaults ''i'' ''default'' [''email''] queued_db = (Inr (Some (t, a)), d1, es1) \<and>
     ClaimTask (demo_env 6) defaults ''i'' ''default'' [''email''] d1 = (Inr (Some (t', a')), d2, es2)"
proof -
  let ?c = "\<lambda>n d. ClaimTask (demo_env n) defaults ''i'' ''default'' [''email''] d"
  obtain r1 d1 es1 where c1: "?c 5 queued_db = (r1, d1, es1)" by (rule prod_cases3)
  obtain r2 d2 es2 where c2: "?c 6 d1 = (r2, d2, es2)" by (rule prod_cases3)
  have "(case res_of (?c 5 queued_db) of Inr (Some _) \<Rightarrow> True | _ \<Rightarrow> False)"
    "(case res_of (?c 6 (db_of (?c 5 queued_db))) of Inr (Some _) \<Rightarrow> True | _ \<Rightarrow> False)" by code_simp+
  then obtain t a t' a' where "r1 = Inr (Some (t, a))" "r2 = Inr (Some (t', a'))"
    by (auto simp: c1 c2 split: sum.splits option.splits)
  then show ?thesis
    using ClaimTask_exclusive [OF queued_reachable, of "demo_env 5" "''i''" "''default''" "[''email'']"
        t a d1 es1 "demo_env 6" "''i''" "''default''" "[''email'']" t' a' d2 es2] c1 c2 by blast
qed

subsection \<open>Outcomes\<close>

text \<open>The backoff of the n-th retry is 30 seconds doubled n times and capped at an hour; a
  negative count is read as zero; the 64-bit arithmetic never overflows, and the backoff never
  shrinks as the count grows.\<close>

theorem retryBackoff_doubles:
  "sint (retryBackoff c) = min (30 * 2 ^ nat c) 3600 * 1000000000 \<and>
   (c \<le> c' \<longrightarrow> sint (retryBackoff c) \<le> sint (retryBackoff c'))"
proof -
  have val: "sint (retryBackoff n) = min (30 * 2 ^ nat n) 3600 * 1000000000" for n
    by (cases "0 \<le> n") (simp_all add: retryBackoff_value retryBackoff_neg retryBackoff_small)
  have "min (30 * 2 ^ nat c) 3600 \<le> min (30 * 2 ^ nat c') (3600::int)" if "c \<le> c'"
  proof -
    have "(2::int) ^ nat c \<le> 2 ^ nat c'" using that by (intro power_increasing) simp_all
    then show ?thesis by (intro min.mono) simp_all
  qed
  then show ?thesis by (simp add: val)
qed

lemma retryBackoff_doubles_witness: "sint (retryBackoff 3) \<le> sint (retryBackoff 9)"
  using retryBackoff_doubles [of 3 9] by simp

text \<open>C18: A failed attempt is finished with its error, and its task either waits for its next retry,
  with the count raised and the backoff added to the time of the failure, or is dead when its budget
  is used up; the outcome is announced.\<close>

theorem FailAttempt_decides:
  assumes "reachable cfg allowed d" and "smooth env"
    and "find_row a_id aid (d_attempts d) = Some a" and "a_status a = ARunning"
    and "find_row t_id (a_task_id a) (d_tasks d) = Some t"
    and "e_new_id env 0 \<notin> ev_id ` set (d_events d)"
  shows "\<exists>d'. FailAttempt env aid msg d =
      (Inr (), d', emit env (SSEEvent (t_id t)
        (if t_retry_count t < t_max_retries t then EvRetrying else EvDead))) \<and>
    find_row a_id aid (d_attempts d') =
      Some (a\<lparr>a_status := AFailed, a_error := Some msg, a_finished_at := Some (fmtDBTime (e_now env))\<rparr>) \<and>
    find_row t_id (t_id t) (d_tasks d') =
      Some (if t_retry_count t < t_max_retries t
            then t\<lparr>t_status := Retrying, t_retry_count := t_retry_count t + 1,
                   t_run_at := fmtDBTime (e_now env + min (30 * 2 ^ nat (t_retry_count t)) 3600 * 1000000000),
                   t_updated_at := fmtDBTime (e_now env)\<rparr>
            else t\<lparr>t_status := Dead, t_updated_at := fmtDBTime (e_now env)\<rparr>)"
proof -
  obtain ev detail label upd where
    rd: "retry_decision env aid msg (t_retry_count t) (t_max_retries t) = (ev, detail, label, upd)"
    by (rule prod_cases4)
  have t: "t \<in> set (d_tasks d)" "t_id t = a_task_id a" using assms(5) by (simp_all add: find_row_SomeD)
  have "0 \<le> t_retry_count t"
    using rows_inv.always [OF assms(1)] t(1) by (auto simp: rows_ok_def task_ok_def)
  then have wait: "time_add (e_now env) (retryBackoff (t_retry_count t)) =
      e_now env + min (30 * 2 ^ nat (t_retry_count t)) 3600 * 1000000000"
    by (simp add: time_add_def retryBackoff_value)
  have aid: "a_id a = aid" using assms(3) by (simp add: find_row_SomeD)
  note dec = retry_decision_cases [OF rd]
  have ids: "a_id (attempt_failed n m x) = a_id x" "t_id (upd y) = t_id y" for n m x y
    using dec by auto
  have "FailAttempt env aid msg d =
      (Inr (), finish_db (attempt_failed (fmtDBTime (e_now env)) msg) upd a
         \<lparr>ev_id = e_new_id env 0, ev_task_id = a_task_id a, ev_event = ev,
          ev_detail = Some detail, ev_created_at = fmtDBTime (e_now env)\<rparr> d,
       emit env (SSEEvent (a_task_id a) ev))"
    by (simp add: FailAttempt_def smooth_store_op [OF assms(2)] smooth_bodies(3) [OF assms(2-6) rd])
  then show ?thesis
    using dec assms(3,5) wait t(2) aid
    by (auto simp: finish_db_def find_row_update_same ids attempt_failed_def
        task_retrying_def task_to_def)
qed

lemma FailAttempt_decides_witness:
  "\<exists>t d'. find_row t_id ''ii'' (d_tasks demo_db) = Some t \<and> t_retry_count t < t_max_retries t \<and>
     FailAttempt (demo_env 5) ''iiii'' ''boom'' demo_db =
       (Inr (), d', emit (demo_env 5) (SSEEvent ''ii'' EvRetrying))"
proof -
  have "\<exists>a t. find_row a_id ''iiii'' (d_attempts demo_db) = Some a \<and> a_status a = ARunning \<and>
      find_row t_id (a_task_id a) (d_tasks demo_db) = Some t \<and> a_task_id a = ''ii'' \<and>
      t_retry_count t < t_max_retries t"
  proof -
    have "(case find_row a_id ''iiii'' (d_attempts demo_db) of None \<Rightarrow> False
        | Some a \<Rightarrow> a_status a = ARunning \<and> a_task_id a = ''ii'' \<and>
            (case find_row t_id (a_task_id a) (d_tasks demo_db) of None \<Rightarrow> False
             | Some t \<Rightarrow> t_retry_count t < t_max_retries t))" by code_simp
    then show ?thesis by (auto split: option.splits)
  qed
  then obtain a t where at: "find_row a_id ''iiii'' (d_attempts demo_db) = Some a" "a_status a = ARunning"
      "find_row t_id (a_task_id a) (d_tasks demo_db) = Some t" "a_task_id a = ''ii''"
      "t_retry_count t < t_max_retries t" by blast
  have "e_new_id (demo_env 5) 0 \<notin> ev_id ` set (d_events demo_db)" by code_simp
  from FailAttempt_decides [OF demo_reachable smooth_demo at(1-3) this, of "''boom''"] at(3-5)
  show ?thesis by (auto dest: find_row_SomeD)
qed

lemma smooth_not_running:
  assumes "smooth env" and "find_row a_id aid (d_attempts d) = Some a" and "a_status a \<noteq> ARunning"
  shows "SucceedAttempt env aid r d = (Inl ErrAttemptNotRunning, d, [])"
    and "FailAttempt env aid msg d = (Inl ErrAttemptNotRunning, d, [])"
    and "CancelAttempt env aid d = (Inl ErrAttemptNotRunning, d, [])"
    and "TimeoutAttempt env aid d = (Inl ErrAttemptNotRunning, d, [])"
  using loadRunningAttempt_errors(2) [OF assms(2,3), of env] assms(1)
  by (simp_all add: smooth_def SucceedAttempt_def succeed_tx_def FailAttempt_def fail_tx_def
      fail_body_def CancelAttempt_def cancel_attempt_tx_def TimeoutAttempt_def timeout_tx_def
      store_op_def store_write_def execTx_def bind_tx_def Let_def)

lemma finished_stays:
  assumes "reachable cfg allowed d" and "find_row a_id aid (d_attempts d) = Some a"
    and "a_status a \<noteq> ARunning"
  shows "find_row a_id aid (d_attempts (run_calls cfg calls d)) = Some a"
proof -
  note base = reachable_base [OF assms(1)]
  have a: "a \<in> set (d_attempts d)" "a_id a = aid" using assms(2) by (simp_all add: find_row_SomeD)
  have "a \<in> set (d_attempts (run_calls cfg calls d))"
    using run_calls_extends [OF base] a(1) assms(3) by (auto simp: extends_def)
  moreover have "base_ok (run_calls cfg calls d)"
    using base by (induction cfg calls d rule: run_calls.induct) (simp_all add: apply_op_base)
  ultimately show ?thesis using a(2) by (simp add: find_row_unique base_ok_def keys_ok_def)
qed

text \<open>C20: An attempt has one outcome: once it is over, and after any further calls, every attempt to
  report an outcome for it is refused with the error for attempts that are not running and changes
  nothing.\<close>

theorem attempt_one_outcome:
  assumes "reachable cfg allowed d" and "find_row a_id aid (d_attempts d) = Some a"
    and "a_status a \<noteq> ARunning" and "smooth env"
  shows "SucceedAttempt env aid r (run_calls cfg calls d) =
           (Inl ErrAttemptNotRunning, run_calls cfg calls d, []) \<and>
         FailAttempt env aid msg (run_calls cfg calls d) =
           (Inl ErrAttemptNotRunning, run_calls cfg calls d, []) \<and>
         CancelAttempt env aid (run_calls cfg calls d) =
           (Inl ErrAttemptNotRunning, run_calls cfg calls d, []) \<and>
         TimeoutAttempt env aid (run_calls cfg calls d) =
           (Inl ErrAttemptNotRunning, run_calls cfg calls d, [])"
  using smooth_not_running [OF assms(4) finished_stays [OF assms(1-3)] assms(3)] by blast

lemma attempt_one_outcome_witness:
  "SucceedAttempt (demo_env 7) ''iiii'' None
     (run_calls defaults [(demo_env 6, OpRestart ''iii'')] failed_db) =
   (Inl ErrAttemptNotRunning, run_calls defaults [(demo_env 6, OpRestart ''iii'')] failed_db, [])"
proof -
  have "(case find_row a_id ''iiii'' (d_attempts failed_db) of None \<Rightarrow> False
      | Some a \<Rightarrow> a_status a = AFailed)" by code_simp
  then obtain a where "find_row a_id ''iiii'' (d_attempts failed_db) = Some a" "a_status a \<noteq> ARunning"
    by (auto split: option.splits)
  from attempt_one_outcome [OF failed_reachable this smooth_demo] show ?thesis by blast
qed

subsection \<open>Control actions\<close>

text \<open>A control action on a task that does not exist is refused as not found, one on a task in a
  state it does not start from as an invalid transition; both leave the database and announce
  nothing.\<close>

theorem control_refused:
  assumes "smooth env" and "sources_of op = Some (i, sts)" and "control_result env op d = Some r"
  shows "(status_of i d = None \<longrightarrow> r = (Inl ErrNotFound, d, [])) \<and>
    (\<forall>s. status_of i d = Some s \<longrightarrow> s \<notin> set sts \<longrightarrow>
       (\<exists>e. r = (Inl e, d, []) \<and> errors_is e ErrInvalidTransition))"
  using assms
  by (cases op)
    (auto simp: sources_of_def control_result_def smooth_def status_of_def HaltTask_def CancelTask_def
      ResumeTask_def RetryTask_def RestartTask_def control_tx_def resume_tx_def retry_tx_def restart_tx_def
      taskStatusTx_def readTaskTx_def Let_def store_op_def store_write_def execTx_def bind_tx_def
      sqlw_def sql_def wrapped_def query_def fail_def ret_def split: task_status.splits)

lemma control_refused_witness:
  "\<exists>e. HaltTask (demo_env 5) ''iii'' demo_db = (Inl e, demo_db, []) \<and> errors_is e ErrInvalidTransition"
proof -
  have "status_of ''iii'' demo_db = Some Queued" by code_simp
  then show ?thesis
    using control_refused [OF smooth_demo, of "OpHalt ''iii''" "''iii''" "[Running]" 5 demo_db]
    by (simp add: sources_of_def control_result_def)
qed

subsection \<open>Reading what was written\<close>

text \<open>A created task reads back as it was created, with its times cut to whole seconds, no
  attempts, and the one queued event of its creation.\<close>

theorem create_get_task:
  assumes "reachable cfg allowed d" and "CreateTask env i d = (Inr t, d', es)"
    and "e_fault env' = (\<lambda>_. False)"
  shows "GetTask env' (t_id t) d' d' d' =
    Inr (t\<lparr>t_run_at := parseDBTime (fmtDBTime (t_run_at t)),
           t_created_at := parseDBTime (fmtDBTime (t_created_at t)),
           t_updated_at := parseDBTime (fmtDBTime (t_updated_at t))\<rparr>, [],
         [\<lparr>ev_id = e_new_id env 1, ev_task_id = t_id t, ev_event = EvQueued, ev_detail = None,
           ev_created_at = parseDBTime (fmtDBTime (e_now env))\<rparr>]) \<and>
    t_status t = Queued \<and> t_retry_count t = 0 \<and>
    (\<forall>x. x \<noteq> t_id t \<longrightarrow> find_row t_id x (d_tasks d') = find_row t_id x (d_tasks d))"
proof -
  note base = reachable_base [OF assms(1)]
  note body = create_task_tx_D [OF CreateTask_Inr(2) [OF assms(2)]]
  have new: "t_id t = e_new_id env 0" by (simp add: body(1))
  have no_attempts: "filter (\<lambda>a. a_task_id a = t_id t) (d_attempts d) = []"
    using attempts_of_fresh [OF base body(2)] by (simp add: attempts_of_def)
  have "ev_task_id e \<in> t_id ` set (d_tasks d)" if "e \<in> set (d_events d)" for e
    using base that by (simp add: base_ok_def tasks_exist_def)
  then have no_events: "filter (\<lambda>e. ev_task_id e = t_id t) (d_events d) = []"
    using body(2) unfolding filter_empty_conv by metis
  have found: "find_row t_id (t_id t) (d_tasks d') = Some (task_row t)"
    using body(2) by (simp add: body(5) find_row_append find_row_None_iff [THEN iffD2] flip: body(1))
  have atts: "filter (\<lambda>a. a_task_id a = t_id t) (d_attempts d') = []"
    using no_attempts by (simp add: body(5))
  have evs: "filter (\<lambda>e. ev_task_id e = t_id t) (d_events d') =
      [\<lparr>ev_id = e_new_id env 1, ev_task_id = t_id t, ev_event = EvQueued, ev_detail = None,
        ev_created_at = fmtDBTime (e_now env)\<rparr>]"
    using no_events new by (simp add: body(5) del: One_nat_def)
  have get: "GetTask env' (t_id t) d' d' d' =
      Inr (scanTask (task_row t), [], [scanTaskEvent \<lparr>ev_id = e_new_id env 1, ev_task_id = t_id t,
        ev_event = EvQueued, ev_detail = None, ev_created_at = fmtDBTime (e_now env)\<rparr>])"
    using assms(3)
    by (simp add: GetTask_def listAttemptsByTask_def listEventsByTask_def found atts evs order_by_def
        del: One_nat_def)
  have "find_row t_id x (d_tasks d') = find_row t_id x (d_tasks d)" if "x \<noteq> t_id t" for x
    using that new by (simp add: body(5) find_row_append split: option.split)
  moreover have "t_status t = Queued \<and> t_retry_count t = 0" by (simp add: body(1))
  ultimately show ?thesis
    unfolding get by (simp add: scanTask_def task_row_def scanTaskEvent_def)
qed

lemma create_get_task_witness:
  "\<exists>t d' es. CreateTask (demo_env 5) demo_task demo_db = (Inr t, d', es) \<and> t_id t = ''iiiii'' \<and>
     (\<exists>x e. GetTask (demo_env 6) ''iiiii'' d' d' d' = Inr (x, [], [e]))"
proof -
  obtain r d' es where eq: "CreateTask (demo_env 5) demo_task demo_db = (r, d', es)" by (rule prod_cases3)
  have "(case res_of (CreateTask (demo_env 5) demo_task demo_db) of Inl _ \<Rightarrow> False | Inr t \<Rightarrow> t_id t = ''iiiii'')"
    by code_simp
  then obtain t where t: "r = Inr t" "t_id t = ''iiiii''" by (auto simp: eq split: sum.splits)
  have "e_fault (demo_env 6) = (\<lambda>_. False)" by (simp add: demo_env_def)
  from create_get_task [OF demo_reachable eq [unfolded t(1)] this] eq t show ?thesis by auto
qed

text \<open>The columns ListTasks sorts by; what is equal in both comes in any order, of each query's own.\<close>

definition list_key :: "task \<Rightarrow> int \<times> int" where
  "list_key t = (- t_priority t, t_created_at t)"

definition listed :: "env \<Rightarrow> list_tasks_filter \<Rightarrow> db \<Rightarrow> task list" where
  "listed env f d = order_by (task_order env) (filter (task_matches f) (d_tasks d))"

lemma listed_sorted: "sorted (map list_key (listed env f d))"
proof -
  have "sorted_wrt (\<lambda>t t'. task_order env t \<le> task_order env t') (listed env f d)"
    using sorted_order_by [of "task_order env" "filter (task_matches f) (d_tasks d)"]
    by (simp add: sorted_wrt_map listed_def)
  then have "sorted_wrt (\<lambda>t t'. list_key t \<le> list_key t') (listed env f d)"
    by (rule sorted_wrt_mono_rel [rotated]) (drule task_order_le, auto simp: list_key_def less_eq_prod_def)
  then show ?thesis by (simp add: sorted_wrt_map)
qed

lemma listed_mset: "mset (listed env f d) = mset (filter (task_matches f) (d_tasks d))"
  by (simp add: listed_def order_by_def)

lemma listed_same:
  assumes "distinct (map list_key (filter (task_matches f) (d_tasks d))) \<or> e_tie env = e_tie env'"
  shows "listed env f d = listed env' f d"
  using assms
proof
  assume "e_tie env = e_tie env'"
  then show ?thesis by (simp add: listed_def task_order_def [abs_def])
next
  let ?L = "filter (task_matches f) (d_tasks d)"
  assume L: "distinct (map list_key ?L)"
  have "mset (map list_key (listed e f d)) = mset (map list_key ?L)" for e
    by (simp only: mset_map listed_mset)
  then have "distinct (map list_key (listed e f d))" for e
    using L by (metis mset_eq_imp_distinct_iff)
  moreover have "set (listed e f d) = set ?L" for e by (simp add: listed_def)
  moreover have "inj_on list_key (set ?L)" using L by (simp add: distinct_map)
  ultimately show ?thesis
    using listed_sorted by (intro map_sorted_distinct_set_unique [where f = list_key]) auto
qed

lemma list_page_listed:
  assumes "0 < n" and "e_fault env = (\<lambda>_. False)"
  shows "list_page env f n d j = map scanTask (take (nat n) (drop (nat n * j) (listed env f d)))"
proof -
  have "task_matches (f\<lparr>ltf_limit := x, ltf_offset := y\<rparr>) = task_matches f" for x y
    by (simp add: task_matches_def fun_eq_iff)
  then show ?thesis
    using assms by (simp add: list_page_def ListTasks_def Let_def limit_offset_def nat_mult_distrib listed_def)
qed

text \<open>C39: Listing pages the matching tasks in priority and creation order.  There is one list, of every matching
  task as often as the table has it and of no other, sorted by priority and then creation, of which the pages
  of one size, put together, are the beginning, whatever number of them is read: provided that no two
  matching tasks have the same priority and creation time, or that every query breaks such ties alike.  No page is
  longer than its size.\<close>

theorem ListTasks_pages:
  assumes "0 < n" and "\<And>j. e_fault (envs j) = (\<lambda>_. False)"
    and "distinct (map list_key (filter (task_matches f) (d_tasks d))) \<or> e_tie \<circ> envs = (\<lambda>_. tie)"
  shows "\<exists>rows. mset rows = mset (filter (task_matches f) (d_tasks d)) \<and>
    sorted_wrt (\<lambda>t t'. t_priority t' < t_priority t \<or>
        t_priority t' = t_priority t \<and> t_created_at t \<le> t_created_at t') rows \<and>
    (\<forall>k. concat (map (\<lambda>j. list_page (envs j) f n d j) [0..<k]) = map scanTask (take (nat n * k) rows) \<and>
         length (list_page (envs k) f n d k) \<le> nat n)"
proof -
  let ?rows = "listed (envs 0) f d"
  have same: "listed (envs j) f d = ?rows" for j
  proof (rule listed_same)
    have "e_tie (envs j) = e_tie (envs 0)" if "e_tie \<circ> envs = (\<lambda>_. tie)"
      using fun_cong [OF that, of j] fun_cong [OF that, of 0] by simp
    then show "distinct (map list_key (filter (task_matches f) (d_tasks d))) \<or> e_tie (envs j) = e_tie (envs 0)"
      using assms(3) by blast
  qed
  have page: "list_page (envs j) f n d j = map scanTask (take (nat n) (drop (nat n * j) ?rows))" for j
    by (simp only: list_page_listed [OF assms(1,2)] same [of j])
  have pages: "concat (map (\<lambda>j. list_page (envs j) f n d j) [0..<k]) = map scanTask (take (nat n * k) ?rows)" for k
  proof (induction k)
    case (Suc k)
    have "take (nat n * Suc k) ?rows = take (nat n * k) ?rows @ take (nat n) (drop (nat n * k) ?rows)"
      by (simp add: take_add [symmetric] add.commute)
    then show ?case using Suc by (simp add: page)
  qed simp
  have "sorted_wrt (\<lambda>t t'. t_priority t' < t_priority t \<or>
      t_priority t' = t_priority t \<and> t_created_at t \<le> t_created_at t') ?rows"
    using listed_sorted [of "envs 0" f d]
    by (auto simp: sorted_wrt_map list_key_def less_eq_prod_def intro: sorted_wrt_mono_rel [rotated])
  then show ?thesis using pages listed_mset page by (intro exI [of _ ?rows]) auto
qed

text \<open>Two queued tasks created a second apart, listed one to a page by queries that differ in how they break ties.\<close>

definition all_queued :: list_tasks_filter where
  "all_queued = \<lparr>ltf_status = Some ''queued'', ltf_type = None, ltf_queue = None, ltf_limit = 0, ltf_offset = 0\<rparr>"

definition tie_env :: "nat \<Rightarrow> env" where
  "tie_env j = (demo_env 5)\<lparr>e_tie := (\<lambda>i. if even j then length i else 10 - length i)\<rparr>"

lemma ListTasks_pages_witness:
  "list_page (tie_env 0) all_queued 1 queued_db 0 @ list_page (tie_env 1) all_queued 1 queued_db 1 =
     map scanTask (d_tasks queued_db)"
proof -
  have "distinct (map list_key (filter (task_matches all_queued) (d_tasks queued_db)))" by code_simp
  then obtain rows where rows: "mset rows = mset (filter (task_matches all_queued) (d_tasks queued_db))"
    "sorted_wrt (\<lambda>t t'. t_priority t' < t_priority t \<or>
        t_priority t' = t_priority t \<and> t_created_at t \<le> t_created_at t') rows"
    "\<And>k. concat (map (\<lambda>j. list_page (tie_env j) all_queued 1 queued_db j) [0..<k]) = map scanTask (take (nat 1 * k) rows)"
    using ListTasks_pages [of 1 tie_env all_queued queued_db] by (auto simp: tie_env_def demo_env_def)
  have "filter (task_matches all_queued) (d_tasks queued_db) = d_tasks queued_db"
    "length (d_tasks queued_db) = 2" "t_created_at (d_tasks queued_db ! 0) < t_created_at (d_tasks queued_db ! 1)"
    "t_priority (d_tasks queued_db ! 0) = t_priority (d_tasks queued_db ! 1)" by code_simp+
  then obtain a b where ab: "d_tasks queued_db = [a, b]" "t_created_at a < t_created_at b" "t_priority a = t_priority b"
    "filter (task_matches all_queued) (d_tasks queued_db) = [a, b]"
    by (cases "d_tasks queued_db"; cases "tl (d_tasks queued_db)") auto
  have "length rows = 2" using arg_cong [OF rows(1), of size] by (simp add: ab(4))
  then obtain x y where "rows = [x, y]" by (auto simp: length_Suc_conv numeral_eq_Suc)
  with rows(2) mset_eq_setD [OF rows(1)] ab have "rows = [a, b]" by (auto simp: doubleton_eq_iff)
  with rows(3) [of 2] ab(1) show ?thesis by (simp add: upt_rec numeral_eq_Suc)
qed

text \<open>
  Without the proviso pages can repeat a task and miss another: created_at has whole seconds, and the query
  does not go on to the ID.  Two tasks created in the same second, listed one to a page:
\<close>

definition twin_db :: db where
  "twin_db = run_calls defaults
     [(demo_env 2, OpCreateTask demo_task), ((demo_env 2)\<lparr>e_new_id := e_new_id (demo_env 3)\<rparr>, OpCreateTask demo_task)]
     empty_db"

lemma ListTasks_ties:
  "reachable defaults any_call twin_db" and
  "map t_id (list_page (tie_env 0) all_queued 1 twin_db 0) = [''ii'']"
  "map t_id (list_page (tie_env 1) all_queued 1 twin_db 1) = [''ii'']"
  "map t_id (d_tasks twin_db) = [''ii'', ''iii'']"
proof -
  show "reachable defaults any_call twin_db"
    unfolding twin_db_def by (rule reachable_calls) code_simp
qed code_simp+

subsection \<open>Maintenance\<close>

text \<open>Requeueing promotes exactly the retrying tasks whose time has come, changes nothing else of
  them and nothing of any other row, and returns their number.\<close>

theorem RequeueRetrying_promotes:
  assumes "smooth env"
  shows "\<exists>d'. RequeueRetrying env d =
      (Inr (count_where (\<lambda>t. t_status t = Retrying \<and> t_run_at t \<le> fmtDBTime (e_now env)) (d_tasks d)), d', []) \<and>
    d_tasks d' = map (\<lambda>t. if t_status t = Retrying \<and> t_run_at t \<le> fmtDBTime (e_now env)
                         then t\<lparr>t_status := Queued, t_updated_at := fmtDBTime (e_now env)\<rparr> else t) (d_tasks d) \<and>
    d_attempts d' = d_attempts d \<and> d_events d' = d_events d \<and> d_workers d' = d_workers d \<and>
    d_schedules d' = d_schedules d"
proof -
  have fault: "e_fault env l = False" for l using assms by (simp add: smooth_def)
  have "requeue_tx env d = (Inr (count_where (retry_due (fmtDBTime (e_now env))) (d_tasks d)),
      requeue_db (fmtDBTime (e_now env)) d)"
    by (simp add: requeue_tx_def Let_def tx_Inr fault)
  then have "RequeueRetrying env d = (Inr (count_where (retry_due (fmtDBTime (e_now env))) (d_tasks d)),
      requeue_db (fmtDBTime (e_now env)) d, [])"
    by (simp add: RequeueRetrying_def smooth_store_op [OF assms])
  then show ?thesis
    by (simp add: requeue_db_def update_where_def retry_due_def [abs_def] task_to_def)
qed

lemma RequeueRetrying_promotes_witness:
  "\<exists>d'. RequeueRetrying (demo_env 50) failed_db = (Inr 1, d', [])"
proof -
  have "count_where (\<lambda>t. t_status t = Retrying \<and> t_run_at t \<le> fmtDBTime (e_now (demo_env 50)))
      (d_tasks failed_db) = 1" by code_simp
  then show ?thesis using RequeueRetrying_promotes [OF smooth_demo, of 50 failed_db] by auto
qed

lemma filter_update_image:
  "(\<And>x. key (f x) = key x) \<Longrightarrow> (\<And>x. Q (if P x then f x else x) \<longleftrightarrow> Q x \<and> key x \<noteq> k) \<Longrightarrow>
     key ` set (filter Q (update_where P f rs)) = key ` set (filter Q rs) - {k}"
  by (induction rs) auto

text \<open>An attempt is found stale exactly when it is running and its last sign of life, a
  heartbeat or its start, is not after the cutoff; a heartbeat after the cutoff takes a running
  attempt off the list and leaves every other attempt as it was.\<close>

theorem heartbeat_keeps_alive:
  assumes "reachable cfg allowed d" and "smooth env" and "e_fault env' = (\<lambda>_. False)"
    and "find_row a_id aid (d_attempts d) = Some a"
  shows "\<exists>d' stale_before stale_after.
    UpdateHeartbeat env aid d = (Inr (), d', []) \<and>
    FindStaleAttempts env' cutoff d = Inr stale_before \<and> FindStaleAttempts env' cutoff d' = Inr stale_after \<and>
    a_id ` set stale_before = a_id ` {x \<in> set (d_attempts d). a_status x = ARunning \<and>
       (case a_heartbeat_at x of Some h \<Rightarrow> h \<le> fmtDBTime cutoff
        | None \<Rightarrow> (case a_started_at x of Some s \<Rightarrow> s \<le> fmtDBTime cutoff | None \<Rightarrow> False))} \<and>
    (fmtDBTime cutoff < fmtDBTime (e_now env) \<longrightarrow>
       a_id ` set stale_after = a_id ` set stale_before - {aid})"
proof -
  let ?now = "fmtDBTime (e_now env)"
  let ?c = "fmtDBTime cutoff"
  let ?d' = "heartbeat_db ?now aid d"
  let ?found = "\<lambda>x. map scanAttempt (order_by (\<lambda>a. e_tie env' (a_id a)) (filter (stale ?c) (d_attempts x)))"
  have fault: "e_fault env l = False" for l using assms(2) by (simp add: smooth_def)
  have ids: "distinct (map a_id (d_attempts d))"
    using reachable_base [OF assms(1)] by (simp add: base_ok_def keys_ok_def)
  have hb: "UpdateHeartbeat env aid d = (Inr (), ?d', [])"
    by (simp add: UpdateHeartbeat_def smooth_store_op [OF assms(2)] sql_def fault exec_def)
  have find: "FindStaleAttempts env' cutoff x = Inr (?found x)" for x
    by (simp add: FindStaleAttempts_def assms(3))
  have img: "a_id ` set (map scanAttempt (order_by k xs)) = a_id ` set xs" for k :: "attempt \<Rightarrow> nat" and xs
    by (simp add: image_image scanAttempt_def)
  have after: "a_id ` set (filter (stale ?c) (d_attempts ?d')) =
      a_id ` set (filter (stale ?c) (d_attempts d)) - {aid}" if "?c < ?now"
  proof -
    have "stale ?c (if a_id x = aid \<and> a_status x = ARunning then x\<lparr>a_heartbeat_at := Some ?now\<rparr> else x) \<longleftrightarrow>
        stale ?c x \<and> a_id x \<noteq> aid" for x
      using that by (auto simp: stale_def last_sign_def)
    note alive = this
    have "d_attempts ?d' = update_where (\<lambda>x. a_id x = aid \<and> a_status x = ARunning)
        (\<lambda>x. x\<lparr>a_heartbeat_at := Some ?now\<rparr>) (d_attempts d)"
      by (simp add: heartbeat_db_def)
    then show ?thesis by (simp only:) (rule filter_update_image, simp, rule alive)
  qed
  have before: "{x \<in> set (d_attempts d). a_status x = ARunning \<and>
       (case a_heartbeat_at x of Some h \<Rightarrow> h \<le> ?c
        | None \<Rightarrow> (case a_started_at x of Some s \<Rightarrow> s \<le> ?c | None \<Rightarrow> False))} =
      set (filter (stale ?c) (d_attempts d))"
    by (auto simp: stale_def last_sign_def split: option.splits)
  show ?thesis
  proof (intro exI conjI)
    show "UpdateHeartbeat env aid d = (Inr (), ?d', [])" by (rule hb)
    show "FindStaleAttempts env' cutoff d = Inr (?found d)" by (rule find)
    show "FindStaleAttempts env' cutoff ?d' = Inr (?found ?d')" by (rule find)
  qed (unfold before img, rule refl, rule impI, erule after)
qed

lemma heartbeat_keeps_alive_witness:
  "\<exists>d' as as'. UpdateHeartbeat (demo_env 9) ''iiii'' demo_db = (Inr (), d', []) \<and>
     FindStaleAttempts (demo_env 9) (8 * 1000000000) demo_db = Inr as \<and>
     FindStaleAttempts (demo_env 9) (8 * 1000000000) d' = Inr as' \<and>
     a_id ` set as' = a_id ` set as - {''iiii''}"
proof -
  have "find_row a_id ''iiii'' (d_attempts demo_db) \<noteq> None" by code_simp
  then obtain a where a: "find_row a_id ''iiii'' (d_attempts demo_db) = Some a" by auto
  have "e_fault (demo_env 9) = (\<lambda>_. False)" "fmtDBTime (8 * 1000000000) < fmtDBTime (e_now (demo_env 9))"
    by (simp_all add: demo_env_def fmtDBTime_def)
  note h = heartbeat_keeps_alive [OF demo_reachable smooth_demo this(1) a, of 9 "8 * 1000000000"] this(2)
  from h(1) obtain d' as as' where "UpdateHeartbeat (demo_env 9) ''iiii'' demo_db = (Inr (), d', [])"
    "FindStaleAttempts (demo_env 9) (8 * 1000000000) demo_db = Inr as"
    "FindStaleAttempts (demo_env 9) (8 * 1000000000) d' = Inr as'"
    "fmtDBTime (8 * 1000000000) < fmtDBTime (e_now (demo_env 9)) \<longrightarrow> a_id ` set as' = a_id ` set as - {''iiii''}"
    by (elim exE conjE) (rule that)
  then show ?thesis using h(2) by (intro exI conjI) (assumption | drule (1) mp)+
qed

text \<open>Patching a schedule sets exactly the fields the patch has, leaves every other field and
  every other schedule, and returns the schedule as it is afterwards; a patch of a schedule that does
  not exist is refused as not found.\<close>

theorem UpdateSchedule_patches:
  assumes "reachable cfg allowed d" and "smooth env"
  shows "case find_row s_id i (d_schedules d) of
      None \<Rightarrow> res_of (UpdateSchedule env i inp d) = Inl ErrNotFound \<and> db_of (UpdateSchedule env i inp d) = d
    | Some s \<Rightarrow>
        (let s' = s\<lparr>s_enabled := (case usi_enabled inp of None \<Rightarrow> s_enabled s | Some b \<Rightarrow> b),
               s_cron_expr := (case usi_cron_expr inp of None \<Rightarrow> s_cron_expr s | Some c \<Rightarrow> Some c),
               s_interval_secs := (case usi_interval_secs inp of None \<Rightarrow> s_interval_secs s | Some n \<Rightarrow> Some n),
               s_next_run_at := (case usi_next_run_at inp of None \<Rightarrow> s_next_run_at s
                                   | Some t \<Rightarrow> Some (fmtDBTime t))\<rparr> in
         res_of (UpdateSchedule env i inp d) = Inr (scanSchedule s') \<and>
         find_row s_id i (d_schedules (db_of (UpdateSchedule env i inp d))) = Some s' \<and>
         (\<forall>j. j \<noteq> i \<longrightarrow> find_row s_id j (d_schedules (db_of (UpdateSchedule env i inp d))) =
                           find_row s_id j (d_schedules d)))"
proof -
  have fault: "e_fault env l = False" for l using assms(2) by (simp add: smooth_def)
  let ?d' = "upd_schedule i (apply_sets (schedule_sets inp)) d"
  have tx: "update_schedule_tx env i inp d = (Inr (count_where (\<lambda>s. s_id s = i) (d_schedules d)), ?d')"
    by (simp add: update_schedule_tx_def tx_Inr fault)
  have rows: "d_schedules ?d' = update_where (\<lambda>s. s_id s = i) (apply_sets (schedule_sets inp)) (d_schedules d)"
    by (simp add: upd_schedule_def)
  show ?thesis
  proof (cases "find_row s_id i (d_schedules d)")
    case None
    then have "count_where (\<lambda>s. s_id s = i) (d_schedules d) = 0" and "?d' = d"
      by (auto simp: find_row_None_iff count_where_zero_iff upd_schedule_def)
    then show ?thesis
      using None tx by (simp add: UpdateSchedule_def smooth_store_op [OF assms(2)] GetSchedule_def fault)
  next
    case (Some s)
    then have "s \<in> set (d_schedules d)" "s_id s = i" by (simp_all add: find_row_SomeD)
    then have "1 \<le> count_where (\<lambda>s. s_id s = i) (d_schedules d)" by (simp add: count_where_pos)
    moreover have "find_row s_id i (d_schedules ?d') = Some (apply_sets (schedule_sets inp) s)"
      using Some by (simp add: rows find_row_update_same)
    moreover have "find_row s_id j (d_schedules ?d') = find_row s_id j (d_schedules d)" if "j \<noteq> i" for j
      using that by (simp add: rows find_row_update_other)
    moreover have "apply_sets [] s = s" by (simp add: apply_sets_def)
    ultimately show ?thesis
      using Some tx unfolding Let_def apply_sets_schedule [symmetric]
      by (cases "schedule_sets inp = []")
        (auto simp: UpdateSchedule_def smooth_store_op [OF assms(2)] GetSchedule_def fault)
  qed
qed

lemma UpdateSchedule_patches_witness:
  "\<exists>s. find_row s_id ''iiiii'' (d_schedules (db_of (UpdateSchedule (demo_env 6) ''iiiii'' disable scheduled_db))) =
     Some s \<and> \<not> s_enabled s \<and> s_interval_secs s = Some 60"
proof -
  have "(case find_row s_id ''iiiii'' (d_schedules scheduled_db) of None \<Rightarrow> False
      | Some s \<Rightarrow> s_interval_secs s = Some 60)" by code_simp
  then obtain s where s: "find_row s_id ''iiiii'' (d_schedules scheduled_db) = Some s" "s_interval_secs s = Some 60"
    by (auto split: option.splits)
  show ?thesis
    using UpdateSchedule_patches [OF scheduled_reachable smooth_demo, where i = "''iiiii''" and inp = disable] s
    by (simp add: Let_def disable_def)
qed

end
