(* ===== verification/ETQ_Strings.thy ===== *)
theory ETQ_Strings
  imports ETQ_Prelude "HOL-Library.Char_ord" "HOL-Library.List_Lexorder"
begin

section \<open>The string functions the program uses\<close>

text \<open>
  What the program takes from Go's packages strconv and strings, on ASCII text: \<open>Atoi\<close>, \<open>Split\<close> at
  newlines, \<open>SplitN\<close> in two, \<open>LastIndex\<close> of a byte, \<open>TrimSuffix\<close>, \<open>HasSuffix\<close>, \<open>TrimSpace\<close> and the
  cut at a line comment.
\<close>

text \<open>\<open>strconv.Atoi\<close>: an optional sign, then decimal digits, within 64 bits.\<close>

definition digit_of :: "char \<Rightarrow> int option" where
  "digit_of c = (if CHR ''0'' \<le> c \<and> c \<le> CHR ''9'' then Some (of_char c - 48) else None)"

fun digits_value :: "int \<Rightarrow> string \<Rightarrow> int option" where
  "digits_value acc [] = Some acc"
| "digits_value acc (c # cs) =
     (case digit_of c of None \<Rightarrow> None | Some v \<Rightarrow> digits_value (acc * 10 + v) cs)"

definition unsigned_value :: "string \<Rightarrow> int option" where
  "unsigned_value s = (if s = [] then None else digits_value 0 s)"

definition Atoi :: "string \<Rightarrow> int option" where
  "Atoi s =
     (case (case s of
              [] \<Rightarrow> None
            | c # cs \<Rightarrow>
                if c = CHR ''-'' then map_option uminus (unsigned_value cs)
                else if c = CHR ''+'' then unsigned_value cs
                else unsigned_value s) of
        None \<Rightarrow> None
      | Some n \<Rightarrow> if - (2 ^ 63) \<le> n \<and> n < 2 ^ 63 then Some n else None)"

definition HasSuffix :: "string \<Rightarrow> string \<Rightarrow> bool" where
  "HasSuffix s suf \<longleftrightarrow> length suf \<le> length s \<and> drop (length s - length suf) s = suf"

definition TrimSuffix :: "string \<Rightarrow> string \<Rightarrow> string" where
  "TrimSuffix s suf = (if HasSuffix s suf then take (length s - length suf) s else s)"

text \<open>\<open>s[strings.LastIndex(s, c)+1:]\<close>: what follows the last \<open>c\<close>, all of \<open>s\<close> when there is none.\<close>

definition after_last :: "char \<Rightarrow> string \<Rightarrow> string" where
  "after_last c s = rev (takeWhile (\<lambda>x. x \<noteq> c) (rev s))"

text \<open>\<open>strings.SplitN(s, c, 2)\<close>: the two parts, or none when \<open>c\<close> does not occur.\<close>

definition split_two :: "char \<Rightarrow> string \<Rightarrow> (string \<times> string) option" where
  "split_two c s =
     (if c \<in> set s
      then Some (takeWhile (\<lambda>x. x \<noteq> c) s, tl (dropWhile (\<lambda>x. x \<noteq> c) s))
      else None)"

definition newline :: char where "newline = CHR 0x0A"

fun split_lines :: "string \<Rightarrow> string list" where
  "split_lines [] = [[]]"
| "split_lines (c # cs) =
     (if c = newline then [] # split_lines cs
      else case split_lines cs of l # ls \<Rightarrow> (c # l) # ls | [] \<Rightarrow> [[c]])"

definition is_space :: "char \<Rightarrow> bool" where
  "is_space c \<longleftrightarrow> c \<in> {CHR '' '', CHR 0x09, CHR 0x0A, CHR 0x0B, CHR 0x0C, CHR 0x0D}"

definition TrimSpace :: "string \<Rightarrow> string" where
  "TrimSpace s = rev (dropWhile is_space (rev (dropWhile is_space s)))"

text \<open>\<open>line[:strings.Index(line, "--")]\<close>, the line when it has no comment.\<close>

fun strip_comment :: "string \<Rightarrow> string" where
  "strip_comment [] = []"
| "strip_comment (c # cs) =
     (if c = CHR ''-'' \<and> cs \<noteq> [] \<and> hd cs = CHR ''-'' then [] else c # strip_comment cs)"

subsection \<open>Facts\<close>

lemma HasSuffix_iff: "HasSuffix s suf \<longleftrightarrow> (\<exists>p. s = p @ suf)"
  by (auto simp: HasSuffix_def) (metis append_take_drop_id)

lemma TrimSuffix_append [simp]: "TrimSuffix (p @ suf) suf = p"
  by (simp add: TrimSuffix_def HasSuffix_def)

lemma takeWhile_stop [simp]: "c \<notin> set p \<Longrightarrow> takeWhile (\<lambda>x. x \<noteq> c) (p @ c # s) = p"
  by (induction p) auto

lemma dropWhile_stop [simp]: "c \<notin> set p \<Longrightarrow> dropWhile (\<lambda>x. x \<noteq> c) (p @ c # s) = c # s"
  by (induction p) auto

lemma after_last_append [simp]: "c \<notin> set s \<Longrightarrow> after_last c (p @ c # s) = s"
  by (simp add: after_last_def)

lemma split_two_append [simp]: "c \<notin> set p \<Longrightarrow> split_two c (p @ c # s) = Some (p, s)"
  by (simp add: split_two_def)

lemma dropWhile_first [simp]: "s \<noteq> [] \<Longrightarrow> \<not> P (hd s) \<Longrightarrow> dropWhile P s = s"
  by (cases s) auto

lemma split_lines_ne [simp]: "split_lines s \<noteq> []"
  by (induction s) (auto split: list.split)

lemma split_lines_append: "newline \<notin> set l \<Longrightarrow> split_lines (l @ newline # s) = l # split_lines s"
  by (induction l) auto

text \<open>A line that \<open>splitSQL\<close> keeps as it is: not empty, nothing to trim, no comment, no newline.\<close>

definition plain_line :: "string \<Rightarrow> bool" where
  "plain_line l \<longleftrightarrow> l \<noteq> [] \<and> \<not> is_space (hd l) \<and> \<not> is_space (last l) \<and> newline \<notin> set l \<and> strip_comment l = l"

lemma TrimSpace_id: "s \<noteq> [] \<Longrightarrow> \<not> is_space (hd s) \<Longrightarrow> \<not> is_space (last s) \<Longrightarrow> TrimSpace s = s"
  by (simp add: TrimSpace_def hd_rev)

lemma TrimSpace_newline:
  "s \<noteq> [] \<Longrightarrow> \<not> is_space (hd s) \<Longrightarrow> \<not> is_space (last s) \<Longrightarrow> TrimSpace (s @ [newline]) = s"
  by (simp add: TrimSpace_def hd_rev) (simp add: is_space_def newline_def)

lemma digits_value_append:
  "digits_value acc (xs @ ys) = (case digits_value acc xs of None \<Rightarrow> None | Some v \<Rightarrow> digits_value v ys)"
  by (induction acc xs rule: digits_value.induct) (auto split: option.split)

end
