(* ===== verification/ETQ_API.thy ===== *)
theory ETQ_API
  imports ETQ_Broker ETQ_Queue ETQ_StoreOps ETQ_Strings
begin

section \<open>The HTTP API (internal/api)\<close>

text \<open>
  The handlers of the REST interface and of the pull workers, over the interface \<open>APIStore\<close>, and
  the event stream.  A request is what the router and the JSON decoder make of it: the handler's path
  parameter, its query, or its body, which is the decoder's error message or the decoded struct.
  A response is its status and a body; where the code writes \<open>err.Error()\<close> the body holds the error.
\<close>

datatype body =
  NoBody
| ErrorText string
| ErrorOf err
| StatusOk
| TaskJSON task
| TaskDetail task "attempt list" "task_event list"
| TasksJSON "task list"
| ClaimJSON task string
| WorkerJSON worker
| WorkersJSON "worker list"
| ScheduleJSON schedule
| SchedulesJSON "schedule list"

type_synonym response = "int \<times> body"

subsection \<open>Helpers (helpers.go)\<close>

definition writeError :: "err \<Rightarrow> response" where
  "writeError e =
     (if errors_is e ErrNotFound then (404, ErrorOf e)
      else if errors_is e ErrInvalidTransition then (409, ErrorOf e)
      else (500, ErrorOf e))"

definition writeAttemptError :: "err \<Rightarrow> response" where
  "writeAttemptError e =
     (if errors_is e ErrNotFound then (404, ErrorOf e)
      else if errors_is e ErrAttemptNotRunning then (409, ErrorOf e)
      else (500, ErrorOf e))"

subsection \<open>The interface to the store (store\_iface.go)\<close>

record 'd api_store_ops =
  as_CreateTask :: "env \<Rightarrow> create_task_input \<Rightarrow> 'd \<Rightarrow> (err + task) \<times> 'd"
  as_GetTask :: "env \<Rightarrow> string \<Rightarrow> 'd \<Rightarrow> 'd \<Rightarrow> 'd \<Rightarrow> err + (task \<times> attempt list \<times> task_event list)"
  as_ListTasks :: "env \<Rightarrow> list_tasks_filter \<Rightarrow> 'd \<Rightarrow> err + task list"
  as_HaltTask :: "env \<Rightarrow> string \<Rightarrow> 'd \<Rightarrow> (err + unit) \<times> 'd"
  as_ResumeTask :: "env \<Rightarrow> string \<Rightarrow> 'd \<Rightarrow> (err + unit) \<times> 'd"
  as_CancelTask :: "env \<Rightarrow> string \<Rightarrow> 'd \<Rightarrow> (err + unit) \<times> 'd"
  as_RetryTask :: "env \<Rightarrow> string \<Rightarrow> 'd \<Rightarrow> (err + unit) \<times> 'd"
  as_RestartTask :: "env \<Rightarrow> string \<Rightarrow> 'd \<Rightarrow> (err + task) \<times> 'd"
  as_ClaimTask ::
    "env \<Rightarrow> string \<Rightarrow> string \<Rightarrow> string list \<Rightarrow> config \<Rightarrow> 'd \<Rightarrow> (err + (task \<times> string) option) \<times> 'd"
  as_SucceedAttempt :: "env \<Rightarrow> string \<Rightarrow> bytes option \<Rightarrow> 'd \<Rightarrow> (err + unit) \<times> 'd"
  as_FailAttempt :: "env \<Rightarrow> string \<Rightarrow> string \<Rightarrow> 'd \<Rightarrow> (err + unit) \<times> 'd"
  as_CreateWorker :: "env \<Rightarrow> create_worker_input \<Rightarrow> 'd \<Rightarrow> (err + worker) \<times> 'd"
  as_ListWorkers :: "env \<Rightarrow> 'd \<Rightarrow> err + worker list"
  as_CreateSchedule :: "env \<Rightarrow> create_schedule_input \<Rightarrow> 'd \<Rightarrow> (err + schedule) \<times> 'd"
  as_GetSchedule :: "env \<Rightarrow> string \<Rightarrow> 'd \<Rightarrow> err + schedule"
  as_ListSchedules :: "env \<Rightarrow> 'd \<Rightarrow> err + schedule list"
  as_UpdateSchedule :: "env \<Rightarrow> string \<Rightarrow> update_schedule_input \<Rightarrow> 'd \<Rightarrow> (err + schedule) \<times> 'd"

definition api_ops :: "db api_store_ops" where
  "api_ops =
     \<lparr>as_CreateTask = (\<lambda>env i d. sans_events (CreateTask env i d)),
      as_GetTask = GetTask,
      as_ListTasks = ListTasks,
      as_HaltTask = (\<lambda>env i d. sans_events (HaltTask env i d)),
      as_ResumeTask = (\<lambda>env i d. sans_events (ResumeTask env i d)),
      as_CancelTask = (\<lambda>env i d. sans_events (CancelTask env i d)),
      as_RetryTask = (\<lambda>env i d. sans_events (RetryTask env i d)),
      as_RestartTask = (\<lambda>env i d. sans_events (RestartTask env i d)),
      as_ClaimTask = (\<lambda>env wid q types cfg d. sans_events (ClaimTask env cfg wid q types d)),
      as_SucceedAttempt = (\<lambda>env aid r d. sans_events (SucceedAttempt env aid r d)),
      as_FailAttempt = (\<lambda>env aid msg d. sans_events (FailAttempt env aid msg d)),
      as_CreateWorker = (\<lambda>env i d. sans_events (CreateWorker env i d)),
      as_ListWorkers = ListWorkers,
      as_CreateSchedule = (\<lambda>env i d. sans_events (CreateSchedule env i d)),
      as_GetSchedule = GetSchedule,
      as_ListSchedules = ListSchedules,
      as_UpdateSchedule = (\<lambda>env i inp d. sans_events (UpdateSchedule env i inp d))\<rparr>"

subsection \<open>Requests\<close>

record 'd api_env =
  q_env :: "nat \<Rightarrow> env"
  q_other :: "nat \<Rightarrow> 'd \<Rightarrow> 'd"

record create_task_request =
  ctr_type :: string
  ctr_queue :: string
  ctr_payload :: "bytes option"
  ctr_priority :: int
  ctr_max_retries :: int
  ctr_timeout_secs :: "int option"
  ctr_run_at :: "gotime option"

text \<open>The query of a listing: each parameter is the empty string when it is absent.\<close>

record list_query =
  lq_status :: string
  lq_type :: string
  lq_queue :: string
  lq_limit :: string
  lq_offset :: string

record claim_request =
  clr_worker_id :: string
  clr_task_types :: "string list"
  clr_queue :: string

record register_worker_request =
  rwr_type :: string
  rwr_task_types :: "string list"
  rwr_queue :: string
  rwr_concurrency :: int

text \<open>The shape of a handler that makes one writing call and answers with its value or its error.\<close>

definition respond ::
  "(err \<Rightarrow> response) \<Rightarrow> ('a \<Rightarrow> response) \<Rightarrow> (err + 'a) \<times> 'd \<Rightarrow> response \<times> 'd" where
  "respond on_err on_ok r =
     (case r of (Inl e, d') \<Rightarrow> (on_err e, d') | (Inr x, d') \<Rightarrow> (on_ok x, d'))"

definition answer_read :: "('a \<Rightarrow> response) \<Rightarrow> err + 'a \<Rightarrow> response" where
  "answer_read on_ok r = (case r of Inl e \<Rightarrow> writeError e | Inr x \<Rightarrow> on_ok x)"

subsection \<open>Tasks (tasks.go)\<close>

definition task_input_of :: "create_task_request \<Rightarrow> create_task_input" where
  "task_input_of req =
     \<lparr>cti_type = ctr_type req, cti_queue = ctr_queue req, cti_payload = ctr_payload req,
      cti_priority = ctr_priority req, cti_max_retries = ctr_max_retries req,
      cti_timeout_secs = ctr_timeout_secs req,
      cti_run_at = (case ctr_run_at req of Some t \<Rightarrow> t | None \<Rightarrow> zero_time),
      cti_parent_id = None, cti_schedule_id = None\<rparr>"

definition handleCreateTask ::
  "'d api_store_ops \<Rightarrow> 'd api_env \<Rightarrow> string + create_task_request \<Rightarrow> 'd \<Rightarrow> response \<times> 'd" where
  "handleCreateTask S q b d =
     (case b of
        Inl msg \<Rightarrow> ((400, ErrorText msg), d)
      | Inr req \<Rightarrow>
          if ctr_type req = [] then ((400, ErrorText ''type is required''), d)
          else respond writeError (\<lambda>t. (201, TaskJSON t))
                 (as_CreateTask S (q_env q 0) (task_input_of req) (q_other q 0 d)))"

definition handleGetTask :: "'d api_store_ops \<Rightarrow> 'd api_env \<Rightarrow> string \<Rightarrow> 'd \<Rightarrow> response \<times> 'd" where
  "handleGetTask S q i d =
     (let d0 = q_other q 0 d; d1 = q_other q 1 d0; d2 = q_other q 2 d1 in
      (answer_read (\<lambda>(t, as, es). (200, TaskDetail t as es)) (as_GetTask S (q_env q 0) i d0 d1 d2), d2))"

definition non_empty :: "string \<Rightarrow> string option" where
  "non_empty s = (if s = [] then None else Some s)"

text \<open>A limit or an offset that is absent or does not parse keeps the zero of the filter.\<close>

definition int_param :: "string \<Rightarrow> int" where
  "int_param s = (if s = [] then 0 else case Atoi s of Some n \<Rightarrow> n | None \<Rightarrow> 0)"

definition list_filter_of :: "list_query \<Rightarrow> list_tasks_filter" where
  "list_filter_of lq =
     \<lparr>ltf_status = non_empty (lq_status lq), ltf_type = non_empty (lq_type lq),
      ltf_queue = non_empty (lq_queue lq), ltf_limit = int_param (lq_limit lq),
      ltf_offset = int_param (lq_offset lq)\<rparr>"

definition handleListTasks :: "'d api_store_ops \<Rightarrow> 'd api_env \<Rightarrow> list_query \<Rightarrow> 'd \<Rightarrow> response \<times> 'd" where
  "handleListTasks S q lq d =
     (let d0 = q_other q 0 d in
      (answer_read (\<lambda>ts. (200, TasksJSON ts)) (as_ListTasks S (q_env q 0) (list_filter_of lq) d0), d0))"

definition handleControlTask ::
  "'d api_store_ops \<Rightarrow> 'd api_env \<Rightarrow> string \<Rightarrow> string + string \<Rightarrow> 'd \<Rightarrow> response \<times> 'd" where
  "handleControlTask S q i b d =
     (case b of
        Inl msg \<Rightarrow> ((400, ErrorText msg), d)
      | Inr action \<Rightarrow>
          (let env = q_env q 0; d0 = q_other q 0 d; ok = (\<lambda>_. (200, StatusOk)) in
           if action = ''halt'' then respond writeError ok (as_HaltTask S env i d0)
           else if action = ''resume'' then respond writeError ok (as_ResumeTask S env i d0)
           else if action = ''cancel'' then respond writeError ok (as_CancelTask S env i d0)
           else if action = ''retry'' then respond writeError ok (as_RetryTask S env i d0)
           else if action = ''restart'' then
             respond writeError (\<lambda>t. (200, TaskJSON t)) (as_RestartTask S env i d0)
           else ((400, ErrorText (''unknown action: '' @ action)), d)))"

subsection \<open>Pull workers (pull\_worker.go)\<close>

definition handleClaimTask ::
  "'d api_store_ops \<Rightarrow> config \<Rightarrow> 'd api_env \<Rightarrow> string + claim_request \<Rightarrow> 'd \<Rightarrow> response \<times> 'd" where
  "handleClaimTask S cfg q b d =
     (case b of
        Inl msg \<Rightarrow> ((400, ErrorText msg), d)
      | Inr req \<Rightarrow>
          if clr_worker_id req = [] then ((400, ErrorText ''worker_id is required''), d)
          else if clr_task_types req = [] then ((400, ErrorText ''task_types must not be empty''), d)
          else respond writeError
                 (\<lambda>r. case r of None \<Rightarrow> (204, NoBody) | Some (t, aid) \<Rightarrow> (200, ClaimJSON t aid))
                 (as_ClaimTask S (q_env q 0) (clr_worker_id req)
                    (if clr_queue req = [] then ''default'' else clr_queue req)
                    (clr_task_types req) cfg (q_other q 0 d)))"

text \<open>An omitted result is stored as the JSON null.\<close>

definition handleSucceedAttempt ::
  "'d api_store_ops \<Rightarrow> 'd api_env \<Rightarrow> string \<Rightarrow> string + bytes option \<Rightarrow> 'd \<Rightarrow> response \<times> 'd" where
  "handleSucceedAttempt S q aid b d =
     (case b of
        Inl msg \<Rightarrow> ((400, ErrorText msg), d)
      | Inr result \<Rightarrow>
          respond writeAttemptError (\<lambda>_. (200, StatusOk))
            (as_SucceedAttempt S (q_env q 0) aid
               (Some (case result of None \<Rightarrow> ''null'' | Some r \<Rightarrow> r)) (q_other q 0 d)))"

definition handleFailAttempt ::
  "'d api_store_ops \<Rightarrow> 'd api_env \<Rightarrow> string \<Rightarrow> string + string \<Rightarrow> 'd \<Rightarrow> response \<times> 'd" where
  "handleFailAttempt S q aid b d =
     (case b of
        Inl msg \<Rightarrow> ((400, ErrorText msg), d)
      | Inr e \<Rightarrow>
          if e = [] then ((400, ErrorText ''error message is required''), d)
          else respond writeAttemptError (\<lambda>_. (200, StatusOk))
                 (as_FailAttempt S (q_env q 0) aid e (q_other q 0 d)))"

subsection \<open>Workers (workers.go)\<close>

definition handleRegisterWorker ::
  "'d api_store_ops \<Rightarrow> 'd api_env \<Rightarrow> string + register_worker_request \<Rightarrow> 'd \<Rightarrow> response \<times> 'd" where
  "handleRegisterWorker S q b d =
     (case b of
        Inl msg \<Rightarrow> ((400, ErrorText msg), d)
      | Inr req \<Rightarrow>
          if rwr_type req = [] then ((400, ErrorText ''type is required''), d)
          else respond writeError (\<lambda>w. (201, WorkerJSON w))
                 (as_CreateWorker S (q_env q 0)
                    \<lparr>cwi_type = rwr_type req, cwi_task_types = rwr_task_types req,
                     cwi_queue = rwr_queue req, cwi_concurrency = rwr_concurrency req,
                     cwi_socket_path = None\<rparr> (q_other q 0 d)))"

definition handleListWorkers :: "'d api_store_ops \<Rightarrow> 'd api_env \<Rightarrow> 'd \<Rightarrow> response \<times> 'd" where
  "handleListWorkers S q d =
     (let d0 = q_other q 0 d in
      (answer_read (\<lambda>ws. (200, WorkersJSON ws)) (as_ListWorkers S (q_env q 0) d0), d0))"

subsection \<open>Schedules (schedules.go)\<close>

text \<open>The bodies of the two requests have the fields of the store's inputs.\<close>

definition handleCreateSchedule ::
  "'d api_store_ops \<Rightarrow> 'd api_env \<Rightarrow> string + create_schedule_input \<Rightarrow> 'd \<Rightarrow> response \<times> 'd" where
  "handleCreateSchedule S q b d =
     (case b of
        Inl msg \<Rightarrow> ((400, ErrorText msg), d)
      | Inr req \<Rightarrow>
          if csi_task_type req = [] then ((400, ErrorText ''task_type is required''), d)
          else if csi_cron_expr req = None \<and> csi_interval_secs req = None
          then ((400, ErrorText ''one of cron_expr or interval_secs is required''), d)
          else respond writeError (\<lambda>sc. (201, ScheduleJSON sc))
                 (as_CreateSchedule S (q_env q 0) req (q_other q 0 d)))"

definition handleListSchedules :: "'d api_store_ops \<Rightarrow> 'd api_env \<Rightarrow> 'd \<Rightarrow> response \<times> 'd" where
  "handleListSchedules S q d =
     (let d0 = q_other q 0 d in
      (answer_read (\<lambda>scs. (200, SchedulesJSON scs)) (as_ListSchedules S (q_env q 0) d0), d0))"

definition handleUpdateSchedule ::
  "'d api_store_ops \<Rightarrow> 'd api_env \<Rightarrow> string \<Rightarrow> string + update_schedule_input \<Rightarrow> 'd \<Rightarrow> response \<times> 'd" where
  "handleUpdateSchedule S q i b d =
     (case b of
        Inl msg \<Rightarrow> ((400, ErrorText msg), d)
      | Inr req \<Rightarrow>
          respond writeError (\<lambda>sc. (200, ScheduleJSON sc))
            (as_UpdateSchedule S (q_env q 0) i req (q_other q 0 d)))"

definition handleTriggerSchedule :: "'d api_store_ops \<Rightarrow> 'd api_env \<Rightarrow> string \<Rightarrow> 'd \<Rightarrow> response \<times> 'd" where
  "handleTriggerSchedule S q i d =
     (let d0 = q_other q 0 d in
      case as_GetSchedule S (q_env q 0) i d0 of
        Inl e \<Rightarrow> (writeError e, d0)
      | Inr sc \<Rightarrow>
          respond writeError (\<lambda>t. (201, TaskJSON t))
            (as_CreateTask S (q_env q 1) (schedule_task sc) (q_other q 1 d0)))"

subsection \<open>Routes (handler.go)\<close>

datatype request =
  GetTasks list_query
| PostTasks "string + create_task_request"
| GetTaskById string
| PostControl string "string + string"
| GetWorkers
| PostWorkersRegister "string + register_worker_request"
| PostWorkerClaim "string + claim_request"
| PostSucceed string "string + bytes option"
| PostFail string "string + string"
| GetSchedules
| PostSchedules "string + create_schedule_input"
| PatchSchedule string "string + update_schedule_input"
| PostTrigger string

fun serve :: "'d api_store_ops \<Rightarrow> config \<Rightarrow> 'd api_env \<Rightarrow> request \<Rightarrow> 'd \<Rightarrow> response \<times> 'd" where
  "serve S cfg q (GetTasks lq) = handleListTasks S q lq"
| "serve S cfg q (PostTasks b) = handleCreateTask S q b"
| "serve S cfg q (GetTaskById i) = handleGetTask S q i"
| "serve S cfg q (PostControl i b) = handleControlTask S q i b"
| "serve S cfg q GetWorkers = handleListWorkers S q"
| "serve S cfg q (PostWorkersRegister b) = handleRegisterWorker S q b"
| "serve S cfg q (PostWorkerClaim b) = handleClaimTask S cfg q b"
| "serve S cfg q (PostSucceed aid b) = handleSucceedAttempt S q aid b"
| "serve S cfg q (PostFail aid b) = handleFailAttempt S q aid b"
| "serve S cfg q GetSchedules = handleListSchedules S q"
| "serve S cfg q (PostSchedules b) = handleCreateSchedule S q b"
| "serve S cfg q (PatchSchedule i b) = handleUpdateSchedule S q i b"
| "serve S cfg q (PostTrigger i) = handleTriggerSchedule S q i"

subsection \<open>The event stream (events.go)\<close>

text \<open>
  What a client of the stream is sent: the frames of the events its subscription delivers, one that
  does not encode left out.  \<open>enc\<close> is the JSON encoder.
\<close>

definition sse_frame :: "string \<Rightarrow> string" where
  "sse_frame b = ''data: '' @ b @ [CHR 0x0A, CHR 0x0A]"

fun stream_frames :: "('e \<Rightarrow> string option) \<Rightarrow> 'e list \<Rightarrow> string list" where
  "stream_frames enc [] = []"
| "stream_frames enc (ev # evs) =
     (case enc ev of None \<Rightarrow> stream_frames enc evs | Some b \<Rightarrow> sse_frame b # stream_frames enc evs)"

text \<open>A connection: refused without a flusher, else the frames of what its channel gives until it ends.\<close>

definition HandleEvents ::
  "bool \<Rightarrow> ('e \<Rightarrow> string option) \<Rightarrow> 'e list \<Rightarrow> int \<times> string list" where
  "HandleEvents flusher enc received =
     (if \<not> flusher then (500, [''streaming not supported'' @ [CHR 0x0A]])
      else (200, stream_frames enc received))"

text \<open>An example: undisturbed requests at second 9.\<close>

definition demo_api :: "db api_env" where
  "demo_api = \<lparr>q_env = (\<lambda>k. demo_env (9 + int k)), q_other = (\<lambda>_ d. d)\<rparr>"

text \<open>Requests served one after the other, and the IDs they draw being new where it matters.\<close>

definition fresh_worker_id :: "env \<Rightarrow> db \<Rightarrow> bool" where
  "fresh_worker_id env d \<longleftrightarrow>
     e_new_id env 0 \<noteq> [] \<and> list_all (\<lambda>a. a_worker_id a \<noteq> Some (e_new_id env 0)) (d_attempts d)"

fun serve_all :: "config \<Rightarrow> (db api_env \<times> request) list \<Rightarrow> db \<Rightarrow> db" where
  "serve_all cfg [] d = d"
| "serve_all cfg ((q, r) # qrs) d = serve_all cfg qrs (snd (serve api_ops cfg q r d))"

fun fresh_requests :: "config \<Rightarrow> (db api_env \<times> request) list \<Rightarrow> db \<Rightarrow> bool" where
  "fresh_requests cfg [] d = True"
| "fresh_requests cfg ((q, r) # qrs) d =
     (fresh_worker_id (q_env q 0) d \<and> fresh_requests cfg qrs (snd (serve api_ops cfg q r d)))"

subsection \<open>What the handlers rely on\<close>

text \<open>
  The laws of the interface, for one writing method in one environment: it keeps \<open>ok\<close> where its
  precondition holds, and where it returns an error the state is as it was, unless the context of the
  call ended while it waited or the read that follows a patch failed.
\<close>

definition settled :: "env \<Rightarrow> bool" where
  "settled env \<longleftrightarrow> e_fate env \<noteq> CtxWhileWaiting \<and> \<not> e_fault env ''GetSchedule''"

definition lawful :: "('d \<Rightarrow> bool) \<Rightarrow> ('d \<Rightarrow> bool) \<Rightarrow> env \<Rightarrow> ('d \<Rightarrow> (err + 'a) \<times> 'd) \<Rightarrow> bool" where
  "lawful ok pre env f \<longleftrightarrow>
     (\<forall>d. ok d \<longrightarrow> pre d \<longrightarrow> ok (snd (f d))) \<and>
     (settled env \<longrightarrow> (\<forall>d e d'. f d = (Inl e, d') \<longrightarrow> d' = d))"

text \<open>What a handler leaves: a good state, and where nothing disturbs the request, its own on an error.\<close>

definition quiet_req :: "'d api_env \<Rightarrow> bool" where
  "quiet_req q \<longleftrightarrow> (\<forall>k x. q_other q k x = x) \<and> (\<forall>k. settled (q_env q k))"

definition handled :: "('d \<Rightarrow> bool) \<Rightarrow> bool \<Rightarrow> 'd \<Rightarrow> response \<times> 'd \<Rightarrow> bool" where
  "handled ok s d p \<longleftrightarrow> ok (snd p) \<and> (s \<longrightarrow> 400 \<le> fst (fst p) \<longrightarrow> snd p = d)"

lemmas handlers = handleCreateTask_def handleGetTask_def handleListTasks_def handleControlTask_def
  handleClaimTask_def handleSucceedAttempt_def handleFailAttempt_def handleRegisterWorker_def
  handleListWorkers_def handleCreateSchedule_def handleListSchedules_def handleUpdateSchedule_def
  handleTriggerSchedule_def

locale api_store =
  fixes S :: "'d api_store_ops" and cfg :: config and ok :: "'d \<Rightarrow> bool" and fresh :: "env \<Rightarrow> 'd \<Rightarrow> bool"
  assumes create_task: "lawful ok (\<lambda>_. True) env (as_CreateTask S env ti)"
    and halt: "lawful ok (\<lambda>_. True) env (as_HaltTask S env i)"
    and resume: "lawful ok (\<lambda>_. True) env (as_ResumeTask S env i)"
    and cancel: "lawful ok (\<lambda>_. True) env (as_CancelTask S env i)"
    and retry: "lawful ok (\<lambda>_. True) env (as_RetryTask S env i)"
    and restart: "lawful ok (\<lambda>_. True) env (as_RestartTask S env i)"
    and claim: "lawful ok (\<lambda>_. True) env (as_ClaimTask S env wid qu types cfg)"
    and succeed: "lawful ok (\<lambda>_. True) env (as_SucceedAttempt S env i res)"
    and failed: "lawful ok (\<lambda>_. True) env (as_FailAttempt S env i msg)"
    and create_worker: "lawful ok (fresh env) env (as_CreateWorker S env wi)"
    and create_schedule: "lawful ok (\<lambda>_. True) env (as_CreateSchedule S env ci)"
    and update_schedule: "lawful ok (\<lambda>_. True) env (as_UpdateSchedule S env i ui)"
begin

lemma handled_respond:
  assumes "lawful ok pre env f" and "ok d0" and "pre d0" and "\<And>x. fst (on_ok x) < 400"
    and "s \<Longrightarrow> settled env \<and> d0 = d"
  shows "handled ok s d (respond on_err on_ok (f d0))"
proof (cases "f d0")
  case (Pair r d')
  have "ok d'" using assms(1-3) Pair by (auto simp: lawful_def dest: spec [of _ d0])
  moreover have "d' = d" if "r = Inl e" s for e
    using assms(1,5) Pair that by (auto simp: lawful_def)
  moreover have "\<not> 400 \<le> fst (on_ok x)" for x using assms(4) [of x] by simp
  ultimately show ?thesis
    using Pair by (cases r) (auto simp: handled_def respond_def)
qed

lemma serve_handled:
  assumes d: "ok d" and other: "\<And>k x. ok x \<Longrightarrow> ok (q_other q k x)"
    and "fresh (q_env q 0) (q_other q 0 d)" and s: "s \<Longrightarrow> quiet_req q"
  shows "handled ok s d (serve S cfg q r d)"
proof -
  have same: "s \<Longrightarrow> settled (q_env q k) \<and> q_other q k x = x" for k x
    using s by (simp add: quiet_req_def)
  have d0: "ok (q_other q k d)" for k by (rule other [OF d])
  note call = handled_respond [where pre = "\<lambda>_. True", OF _ d0 TrueI]
  note worker = handled_respond [OF create_worker d0 assms(3)]
  have stay: "handled ok s d (x, d)" for x using d by (simp add: handled_def)
  have read: "handled ok s d (x, q_other q k d)" for x k using d0 [of k] same by (simp add: handled_def)
  show ?thesis
  proof (cases r)
    case (PostTasks b)
    then show ?thesis
      using stay same by (auto simp: handlers intro!: call [OF create_task] split: sum.split)
  next
    case (GetTaskById i)
    then show ?thesis
      using same other d by (auto simp: handlers Let_def handled_def)
  next
    case (PostControl i b)
    show ?thesis unfolding PostControl
      by (simp add: handlers Let_def stay split: sum.split, intro conjI impI allI;
        (rule call [OF halt] call [OF resume] call [OF cancel] call [OF retry] call [OF restart],
         simp, simp add: same))
  next
    case (PostWorkersRegister b)
    then show ?thesis using stay same by (auto simp: handlers intro!: worker split: sum.split)
  next
    case (PostWorkerClaim b)
    then show ?thesis
      using stay same by (auto simp: handlers intro!: call [OF claim] split: sum.split option.split)
  next
    case (PostSucceed aid b)
    then show ?thesis using stay same by (auto simp: handlers intro!: call [OF succeed] split: sum.split)
  next
    case (PostFail aid b)
    then show ?thesis using stay same by (auto simp: handlers intro!: call [OF failed] split: sum.split)
  next
    case (PostSchedules b)
    then show ?thesis
      using stay same by (auto simp: handlers intro!: call [OF create_schedule] split: sum.split)
  next
    case (PatchSchedule i b)
    then show ?thesis
      using stay same by (auto simp: handlers intro!: call [OF update_schedule] split: sum.split)
  next
    case (PostTrigger i)
    have "ok (q_other q 1 (q_other q 0 d))" by (intro other d0)
    from handled_respond [where pre = "\<lambda>_. True", OF create_task this TrueI] PostTrigger show ?thesis
      using read same by (auto simp: handlers Let_def split: sum.split)
  qed (use read in \<open>auto simp: handlers Let_def\<close>)
qed

end

subsection \<open>The store keeps the laws\<close>

lemma store_op_error_same:
  "e_fate env \<noteq> CtxWhileWaiting \<Longrightarrow> store_op env fn on_err evs out d = (Inl e, d', es) \<Longrightarrow> d' = d"
  by (auto simp: store_op_def store_write_def execTx_def split: write_fate.splits sum.splits prod.splits
      if_splits)

text \<open>The calls the API makes, and what an invariant of them gives the handlers.\<close>

definition api_call :: "store_call \<Rightarrow> bool" where
  "api_call op \<longleftrightarrow> (case op of OpCancelAttempt _ \<Rightarrow> False | OpHeartbeat _ \<Rightarrow> False | OpRequeue \<Rightarrow> False
     | OpTimeout _ \<Rightarrow> False | OpRecordRun _ _ \<Rightarrow> False | _ \<Rightarrow> True)"

definition kept_by_api :: "config \<Rightarrow> (db \<Rightarrow> bool) \<Rightarrow> bool" where
  "kept_by_api cfg ok \<longleftrightarrow>
     (\<forall>env op d. api_call op \<longrightarrow> uuid_ok env op d \<longrightarrow> ok d \<longrightarrow> ok (apply_op cfg env op d))"

lemma call_lawful:
  assumes "kept_by_api cfg ok" and "api_call op" and "\<And>d. pre d \<Longrightarrow> uuid_ok env op d"
    and "\<And>d. apply_op cfg env op d = fst (snd (f d))"
    and "\<And>d e d' es. settled env \<Longrightarrow> f d = (Inl e, d', es) \<Longrightarrow> d' = d"
  shows "lawful ok pre env (\<lambda>d. sans_events (f d))"
proof -
  have "ok (snd (sans_events (f d)))" if "ok d" "pre d" for d
    using assms(1,2) assms(3) [OF that(2)] that(1) unfolding kept_by_api_def sans_events_def
    by (metis assms(4) snd_conv)
  then show ?thesis using assms(5) by (auto simp: lawful_def)
qed

lemma method_lawful:
  assumes "kept_by_api cfg ok" and "api_call op" and "f = store_op env fn on_err evs out"
    and "\<And>d. apply_op cfg env op d = fst (snd (f d))" and "\<And>wi. op \<noteq> OpCreateWorker wi"
  shows "lawful ok (\<lambda>_. True) env (\<lambda>d. sans_events (f d))"
proof (rule call_lawful [OF assms(1,2) _ assms(4)])
  show "uuid_ok env op d" for d using assms(5) by (auto simp: uuid_ok_def split: store_call.split)
qed (auto simp: assms(3) settled_def dest: store_op_error_same)

lemma UpdateSchedule_error_same:
  assumes "settled env" and "UpdateSchedule env i inp d = (Inl e, d', es)"
  shows "d' = d"
proof (cases "schedule_sets inp = []")
  case True
  with assms(2) show ?thesis by (simp add: UpdateSchedule_def)
next
  case False
  obtain r d1 es1 where op: "store_op env (update_schedule_tx env i inp) (Wrap ''UpdateSchedule'')
      (\<lambda>_. []) (\<lambda>n. n) d = (r, d1, es1)" by (rule prod_cases3)
  show ?thesis
  proof (cases r)
    case (Inl x)
    with op False assms show ?thesis
      by (auto simp: UpdateSchedule_def settled_def dest: store_op_error_same)
  next
    case (Inr n)
    then obtain m where tx: "update_schedule_tx env i inp d = (Inr m, d1)" "n = m"
      using op by (auto elim: store_op_Inr)
    note d1 = update_schedule_tx_D [OF tx(1)]
    have "find_row s_id i (d_schedules d1) \<noteq> None" if "n \<noteq> 0"
    proof -
      have "find_row s_id i (d_schedules d) \<noteq> None"
        using that d1(1) tx(2) by (auto simp: count_where_zero_iff find_row_None_iff image_iff)
      then show ?thesis by (simp add: d1(2) upd_schedule_def find_row_update_same)
    qed
    then have "n = 0" using assms op False Inr
      by (auto simp: UpdateSchedule_def settled_def GetSchedule_def split: if_splits option.splits)
    then have "count_where (\<lambda>s. s_id s = i) (d_schedules d) = 0" using d1(1) tx(2) by simp
    then have "i \<notin> s_id ` set (d_schedules d)" by (auto simp: count_where_zero_iff)
    then have "d1 = d" using d1(2) by (simp add: upd_schedule_def)
    with op False Inr assms show ?thesis by (auto simp: UpdateSchedule_def split: if_splits)
  qed
qed

lemma api_ops_simps:
  "as_CreateTask api_ops env ti = (\<lambda>d. sans_events (CreateTask env ti d))"
  "as_HaltTask api_ops env i = (\<lambda>d. sans_events (HaltTask env i d))"
  "as_ResumeTask api_ops env i = (\<lambda>d. sans_events (ResumeTask env i d))"
  "as_CancelTask api_ops env i = (\<lambda>d. sans_events (CancelTask env i d))"
  "as_RetryTask api_ops env i = (\<lambda>d. sans_events (RetryTask env i d))"
  "as_RestartTask api_ops env i = (\<lambda>d. sans_events (RestartTask env i d))"
  "as_ClaimTask api_ops env wid qu types cfg = (\<lambda>d. sans_events (ClaimTask env cfg wid qu types d))"
  "as_SucceedAttempt api_ops env i res = (\<lambda>d. sans_events (SucceedAttempt env i res d))"
  "as_FailAttempt api_ops env i msg = (\<lambda>d. sans_events (FailAttempt env i msg d))"
  "as_CreateWorker api_ops env wi = (\<lambda>d. sans_events (CreateWorker env wi d))"
  "as_CreateSchedule api_ops env ci = (\<lambda>d. sans_events (CreateSchedule env ci d))"
  "as_UpdateSchedule api_ops env i ui = (\<lambda>d. sans_events (UpdateSchedule env i ui d))"
  by (simp_all add: api_ops_def)

lemmas store_methods = CreateTask_def HaltTask_def ResumeTask_def CancelTask_def RetryTask_def
  RestartTask_def SucceedAttempt_def FailAttempt_def CreateWorker_def CreateSchedule_def

lemma api_store_keeps:
  assumes "kept_by_api cfg ok"
  shows "api_store api_ops cfg ok fresh_worker_id"
proof (unfold_locales, unfold api_ops_simps, goal_cases)
  case (1 env ti)
  show ?case by (rule method_lawful [OF assms, where op = "OpCreateTask ti"]) (simp_all add: store_methods api_call_def)
next
  case (2 env i)
  show ?case by (rule method_lawful [OF assms, where op = "OpHalt i"]) (simp_all add: store_methods api_call_def)
next
  case (3 env i)
  show ?case by (rule method_lawful [OF assms, where op = "OpResume i"]) (simp_all add: store_methods api_call_def)
next
  case (4 env i)
  show ?case by (rule method_lawful [OF assms, where op = "OpCancel i"]) (simp_all add: store_methods api_call_def)
next
  case (5 env i)
  show ?case by (rule method_lawful [OF assms, where op = "OpRetry i"]) (simp_all add: store_methods api_call_def)
next
  case (6 env i)
  show ?case by (rule method_lawful [OF assms, where op = "OpRestart i"]) (simp_all add: store_methods api_call_def)
next
  case (7 env wid qu types)
  show ?case by (rule call_lawful [OF assms, where op = "OpClaim wid qu types"])
      (auto simp: api_call_def uuid_ok_def settled_def ClaimTask_def dest: store_op_error_same split: if_splits)
next
  case (8 env i res)
  show ?case by (rule method_lawful [OF assms, where op = "OpSucceed i res"]) (simp_all add: store_methods api_call_def)
next
  case (9 env i msg)
  show ?case by (rule method_lawful [OF assms, where op = "OpFail i msg"]) (simp_all add: store_methods api_call_def)
next
  case (10 env wi)
  show ?case by (rule call_lawful [OF assms, where op = "OpCreateWorker wi"])
      (auto simp: api_call_def uuid_ok_def fresh_worker_id_def list_all_iff settled_def store_methods
        dest: store_op_error_same)
next
  case (11 env ci)
  show ?case by (rule method_lawful [OF assms, where op = "OpCreateSchedule ci"]) (simp_all add: store_methods api_call_def)
next
  case (12 env i ui)
  show ?case by (rule call_lawful [OF assms, where op = "OpUpdateSchedule i ui"])
      (auto simp: api_call_def uuid_ok_def dest: UpdateSchedule_error_same)
qed

lemma reachable_kept: "kept_by_api cfg (reachable cfg any_call)"
  by (simp add: kept_by_api_def reachable.call)

interpretation api: api_store api_ops cfg "reachable cfg any_call" fresh_worker_id for cfg
  by (rule api_store_keeps [OF reachable_kept])

subsection \<open>What clients can count on\<close>

definition statuses :: "int set" where "statuses = {200, 201, 204, 400, 404, 409, 500}"

lemma respond_status:
  "(\<And>e. fst (on_err e) \<in> statuses) \<Longrightarrow> (\<And>x. fst (on_ok x) \<in> statuses) \<Longrightarrow>
   fst (fst (respond on_err on_ok p)) \<in> statuses"
  by (simp add: respond_def split: sum.split prod.split)

lemma error_status [simp]:
  "fst (writeError e) \<in> statuses" "fst (writeAttemptError e) \<in> statuses"
  by (simp_all add: writeError_def writeAttemptError_def statuses_def)

lemma known_status [simp]:
  "200 \<in> statuses" "201 \<in> statuses" "204 \<in> statuses" "400 \<in> statuses"
  by (simp_all add: statuses_def)

lemma serve_status: "fst (fst (serve S cfg q r d)) \<in> statuses"
  by (cases r)
    (simp_all add: handlers Let_def answer_read_def respond_status split: sum.split option.split prod.split)

text \<open>C24: The API answers with the documented statuses only, and an answer of 400 or above means that the
  request changed nothing, when no other goroutine interferes, the client waits for the answer and the
  read after a patch does not fail; whatever happens, the database stays among the reachable ones.\<close>

theorem serve_errors_change_nothing:
  assumes "reachable cfg any_call d" and "\<And>k x. reachable cfg any_call x \<Longrightarrow> reachable cfg any_call (q_other q k x)"
    and "fresh_worker_id (q_env q 0) (q_other q 0 d)" and "serve api_ops cfg q r d = ((st, b), d')"
  shows "st \<in> {200, 201, 204, 400, 404, 409, 500} \<and> reachable cfg any_call d' \<and>
    (quiet_req q \<and> 400 \<le> st \<longrightarrow> d' = d)"
  using api.serve_handled [OF assms(1-3), of "quiet_req q" r] serve_status [of api_ops cfg q r d]
  by (simp add: assms(4) handled_def statuses_def)

lemma serve_errors_change_nothing_witness:
  "snd (serve api_ops defaults demo_api (PostControl ''iii'' (Inr ''halt'')) demo_db) = demo_db"
proof -
  have "fst (fst (serve api_ops defaults demo_api (PostControl ''iii'' (Inr ''halt'')) demo_db)) = 409"
    by code_simp
  then obtain b d' where s: "serve api_ops defaults demo_api (PostControl ''iii'' (Inr ''halt'')) demo_db = ((409, b), d')"
    by (metis prod.collapse)
  have "quiet_req demo_api" by (simp add: quiet_req_def demo_api_def settled_def demo_env_def)
  moreover have "fresh_worker_id (q_env demo_api 0) (q_other demo_api 0 demo_db)" by code_simp
  ultimately show ?thesis
    using serve_errors_change_nothing [OF demo_reachable _ _ s] s by (simp add: demo_api_def)
qed

text \<open>The control actions of the API.\<close>

definition control_op :: "string \<Rightarrow> string \<Rightarrow> store_call option" where
  "control_op action i =
     map_of [(''halt'', OpHalt i), (''resume'', OpResume i), (''cancel'', OpCancel i),
             (''retry'', OpRetry i), (''restart'', OpRestart i)] action"

lemma respond_sans:
  "fst (fst (respond f g (sans_events p))) = (case fst p of Inl e \<Rightarrow> fst (f e) | Inr x \<Rightarrow> fst (g x))"
  "snd (respond f g (sans_events p)) = fst (snd p)"
  by (simp_all add: respond_def sans_events_def split: sum.split)

lemma unit_result:
  "fst (case p of (Inl e, d', es) \<Rightarrow> (Inl e, d', es) | (Inr _, d', es) \<Rightarrow> (Inr (), d', es)) =
     (case fst p of Inl e \<Rightarrow> Inl e | Inr _ \<Rightarrow> Inr ())"
  "fst (snd (case p of (Inl e, d', es) \<Rightarrow> (Inl e, d', es) | (Inr _, d', es) \<Rightarrow> (Inr (), d', es))) = fst (snd p)"
  by (simp_all split: prod.split sum.split)

lemma handleControl_result:
  assumes "control_op action i = Some op" and "quiet_req q" and "control_result (q_env q 0) op d = Some r"
  shows "fst (fst (handleControlTask api_ops q i (Inr action) d)) =
      (case fst r of Inl e \<Rightarrow> fst (writeError e) | Inr _ \<Rightarrow> 200)"
    and "snd (handleControlTask api_ops q i (Inr action) d) = fst (snd r)"
  using assms
  by (auto simp: control_op_def handleControlTask_def control_result_def quiet_req_def api_ops_simps
      respond_sans unit_result Let_def split: if_splits sum.splits)

lemma control_result_exists: "control_op action i = Some op \<Longrightarrow> control_result env op d \<noteq> None"
  by (auto simp: control_op_def control_result_def simp del: not_None_eq split: if_splits)

text \<open>What an action needs beside a state it starts from: the IDs it draws are not in the tables yet, and
  for a restart the schedule the copied row refers to is there.\<close>

definition action_clear :: "env \<Rightarrow> store_call \<Rightarrow> db \<Rightarrow> bool" where
  "action_clear env op d =
     (case op of
        OpRestart i \<Rightarrow>
          \<not> has_row t_id (e_new_id env 0) (d_tasks d) \<and> \<not> has_row ev_id (e_new_id env 1) (d_events d) \<and>
          list_all (\<lambda>t. t_id t = i \<longrightarrow> ref_ok (e_fk env) (t_schedule_id t) (map s_id (d_schedules d))) (d_tasks d)
      | _ \<Rightarrow> \<not> has_row ev_id (e_new_id env 0) (d_events d))"

lemma restart_done:
  assumes "smooth env" and "find_row t_id i (d_tasks d) = Some t"
    and "t_status t \<in> {Queued, Succeeded, Dead, Cancelled, Halted}" and "action_clear env (OpRestart i) d"
  shows "\<exists>es. RestartTask env i d = (Inr (restart_copy env i t), restart_db env i t d, es)"
    and "step cfg env (OpRestart i) d (restart_db env i t d)"
proof -
  have "e_new_id env 0 \<notin> t_id ` set (d_tasks d)" "e_new_id env 1 \<notin> ev_id ` set (d_events d)"
      "ref_ok (e_fk env) (t_schedule_id t) (map s_id (d_schedules d))"
    using assms(4) find_row_SomeD [OF assms(2)] by (auto simp: action_clear_def has_row_iff list_all_iff)
  note clear = this
  show "step cfg env (OpRestart i) d (restart_db env i t d)"
    using assms(2,3) clear by (intro step.restart)
  have "restart_tx env i d = (Inr (restart_copy env i t), restart_db env i t d)"
    by (rule smooth_restart_tx [OF assms(1-3) clear])
  then show "\<exists>es. RestartTask env i d = (Inr (restart_copy env i t), restart_db env i t d, es)"
    by (simp add: RestartTask_def smooth_store_op [OF assms(1)])
qed

lemma control_done:
  assumes "smooth env" and "sources_of op = Some (i, sts)" and "op \<noteq> OpRestart i"
    and "find_row t_id i (d_tasks d) = Some t" and "t_status t \<in> set sts" and "action_clear env op d"
  shows "\<exists>d' es. control_result env op d = Some (Inr (), d', es) \<and> step cfg env op d d'"
proof -
  have clear: "e_new_id env 0 \<notin> ev_id ` set (d_events d)"
    using assms(2,3,6) by (cases op) (auto simp: sources_of_def action_clear_def has_row_iff)
  obtain from_states g ev where a: "action_of env op = Some (i, from_states, g, ev)" "set from_states = set sts"
    using assms(2,3) by (cases op) (auto simp: sources_of_def)
  have "step cfg env op d (move_db i g (control_event env i ev) d)"
    using a(2) assms(5) clear by (intro step.action [OF a(1) assms(4)]) simp_all
  moreover have "\<exists>es. control_result env op d = Some (Inr (), move_db i g (control_event env i ev) d, es)"
    using a assms(2-5) smooth_action_bodies [OF assms(1,4) clear]
    by (cases op)
      (auto simp: sources_of_def control_result_def HaltTask_def CancelTask_def ResumeTask_def RetryTask_def
        smooth_store_op [OF assms(1)])
  ultimately show ?thesis by blast
qed

lemma control_served:
  assumes "smooth env" and "sources_of op = Some (i, sts)"
    and "find_row t_id i (d_tasks d) = Some t" and "t_status t \<in> set sts" and "action_clear env op d"
  shows "\<exists>d' es. control_result env op d = Some (Inr (), d', es) \<and> step cfg env op d d' \<and>
    (op = OpRestart i \<longrightarrow> (\<exists>y. RestartTask env i d = (Inr (restart_copy env i t), y)))"
proof (cases "op = OpRestart i")
  case True
  with assms(2) have "set sts = {Queued, Succeeded, Dead, Cancelled, Halted}" by (auto simp: sources_of_def)
  then show ?thesis
    using True restart_done [OF assms(1,3)] assms(4,5) by (fastforce simp: control_result_def)
next
  case False
  then show ?thesis using control_done [OF assms(1,2) False assms(3-5)] by blast
qed

lemma handleControl_body:
  assumes "control_op action i = Some op" and "quiet_req q" and "control_result (q_env q 0) op d = Some (Inr (), d', es)"
  shows "snd (fst (handleControlTask api_ops q i (Inr action) d)) =
      (case RestartTask (q_env q 0) i d of (Inr t, _) \<Rightarrow> if op = OpRestart i then TaskJSON t else StatusOk | _ \<Rightarrow> StatusOk)"
  using assms
  by (auto simp: control_op_def handleControlTask_def control_result_def quiet_req_def api_ops_simps
      respond_def sans_events_def Let_def split: if_splits sum.splits prod.splits)

lemma errors_is_sentinel: "errors_is e ErrInvalidTransition \<Longrightarrow> \<not> errors_is e ErrNotFound"
  by (induction e) auto

text \<open>C27: Controlling a task over the API, undisturbed and with new IDs: a task that does not exist is 404,
  one in a state the action does not start from is 409, both without effect; from one of its states each of
  the five actions is 200 and has done its step, a restart answering with the new queued copy of the task it
  has superseded; any other action is 400.\<close>

theorem ControlTask_status:
  assumes "quiet_req q" and "smooth (q_env q 0)"
    and "\<And>op. control_op action i = Some op \<Longrightarrow> action_clear (q_env q 0) op d"
    and "handleControlTask api_ops q i (Inr action) d = ((st, b), d')"
  shows "case control_op action i of
      None \<Rightarrow> st = 400 \<and> d' = d
    | Some op \<Rightarrow>
        (case (find_row t_id i (d_tasks d), sources_of op) of
           (Some t, Some (_, sts)) \<Rightarrow>
             if t_status t \<notin> set sts then st = 409 \<and> d' = d
             else st = 200 \<and> step cfg (q_env q 0) op d d' \<and>
               b = (if action = ''restart'' then TaskJSON (restart_copy (q_env q 0) i t) else StatusOk)
         | _ \<Rightarrow> st = 404 \<and> d' = d)"
proof (cases "control_op action i")
  case None
  then show ?thesis
    using assms(4) by (auto simp: control_op_def handleControlTask_def Let_def split: if_splits)
next
  case (Some op)
  then obtain sts where src: "sources_of op = Some (i, sts)" "action = ''restart'' \<longleftrightarrow> op = OpRestart i"
    by (auto simp: control_op_def sources_of_def split: if_splits)
  obtain r where r: "control_result (q_env q 0) op d = Some r"
      "st = (case fst r of Inl e \<Rightarrow> fst (writeError e) | Inr _ \<Rightarrow> 200)" "d' = fst (snd r)"
    using control_result_exists [OF Some, of "q_env q 0" d] handleControl_result [OF Some assms(1)] assms(4)
    by (cases "control_result (q_env q 0) op d") fastforce+
  note refused = control_refused [OF assms(2) src(1) r(1)]
  show ?thesis
  proof (cases "find_row t_id i (d_tasks d)")
    case None
    then show ?thesis using refused r(2,3) Some src(1) by (simp add: writeError_def status_of_def)
  next
    case t: (Some t)
    show ?thesis
    proof (cases "t_status t \<in> set sts")
      case False
      then show ?thesis
        using refused t r(2,3) Some src(1) by (auto simp: writeError_def errors_is_sentinel status_of_def)
    next
      case True
      obtain d1 es where d1: "control_result (q_env q 0) op d = Some (Inr (), d1, es)"
          "step cfg (q_env q 0) op d d1"
          "op = OpRestart i \<Longrightarrow> \<exists>y. RestartTask (q_env q 0) i d = (Inr (restart_copy (q_env q 0) i t), y)"
        using control_served [OF assms(2) src(1) t True assms(3) [OF Some], of cfg] by blast
      then show ?thesis
        using r handleControl_body [OF Some assms(1) d1(1)] assms(4) Some t src True
        by (auto split: prod.splits sum.splits)
    qed
  qed
qed

lemma ControlTask_status_witness:
  "(\<exists>st b d'. handleControlTask api_ops demo_api ''ii'' (Inr ''halt'') demo_db = ((st, b), d') \<and> st = 200 \<and>
     step defaults (demo_env 9) (OpHalt ''ii'') demo_db d') \<and>
   (\<exists>t d'. find_row t_id ''iii'' (d_tasks demo_db) = Some t \<and>
     handleControlTask api_ops demo_api ''iii'' (Inr ''restart'') demo_db =
       ((200, TaskJSON (restart_copy (demo_env 9) ''iii'' t)), d') \<and>
     step defaults (demo_env 9) (OpRestart ''iii'') demo_db d')"
proof -
  obtain st b d' where h: "handleControlTask api_ops demo_api ''ii'' (Inr ''halt'') demo_db = ((st, b), d')"
    by (metis prod.collapse)
  obtain st2 b2 d2 where h2: "handleControlTask api_ops demo_api ''iii'' (Inr ''restart'') demo_db = ((st2, b2), d2)"
    by (metis prod.collapse)
  have q: "quiet_req demo_api" by (simp add: quiet_req_def demo_api_def settled_def demo_env_def)
  have sm: "smooth (q_env demo_api 0)" "q_env demo_api 0 = demo_env 9" by (simp_all add: demo_api_def)
  have clear: "action_clear (q_env demo_api 0) (OpHalt ''ii'') demo_db"
      "action_clear (q_env demo_api 0) (OpRestart ''iii'') demo_db" by code_simp+
  have "status_of ''ii'' demo_db = Some Running" "status_of ''iii'' demo_db = Some Queued" by code_simp+
  then obtain t u where "find_row t_id ''ii'' (d_tasks demo_db) = Some t" "t_status t = Running"
      "find_row t_id ''iii'' (d_tasks demo_db) = Some u" "t_status u = Queued"
    by (auto simp: status_of_def)
  then show ?thesis
    using ControlTask_status [OF q sm(1) _ h, of defaults] h ControlTask_status [OF q sm(1) _ h2, of defaults] h2
      sm(2) clear
    by (simp add: control_op_def sources_of_def)
qed

subsection \<open>Pull workers have no heartbeat\<close>

text \<open>An attempt no heartbeat was ever recorded for stays as it was claimed, until it is over.\<close>

definition untouched :: "config \<Rightarrow> string \<Rightarrow> attempt \<Rightarrow> db \<Rightarrow> bool" where
  "untouched cfg aid a d \<longleftrightarrow> reachable cfg any_call d \<and>
     (\<exists>a'. find_row a_id aid (d_attempts d) = Some a' \<and> (a' = a \<or> a_status a' \<noteq> ARunning))"

lemma attempt_row_step:
  assumes "step cfg env op d d'" and "\<And>i. op \<noteq> OpHeartbeat i" and "find_row a_id aid (d_attempts d) = Some a"
  shows "\<exists>a'. find_row a_id aid (d_attempts d') = Some a' \<and> (a' = a \<or> a_status a' \<noteq> ARunning)"
  using assms(1)
proof cases
  case (finish t i f g ev detail x)
  show ?thesis
  proof (cases "a_id x = aid")
    case True
    with finish assms(3) have "find_row a_id aid (d_attempts d') = Some (f a)"
      using outcome_of_frame(1) [OF finish(2)] by (auto simp: finish_db_def find_row_update_same)
    then show ?thesis using outcome_idle(1) [OF finish(2)] by blast
  next
    case False
    with finish assms(3) have "find_row a_id aid (d_attempts d') = Some a"
      using outcome_of_frame(1) [OF finish(2)] by (simp add: finish_db_def find_row_update_other)
    then show ?thesis by blast
  qed
next
  case (claim types q t wid)
  with assms(3) show ?thesis by (simp add: claim_db_fields find_row_append)
next
  case (heartbeat aid)
  with assms(2) show ?thesis by blast
next
  case (action i from_states g ev t)
  with assms(3) show ?thesis by (simp add: move_db_def)
next
  case (restart i t)
  with assms(3) show ?thesis by (simp add: restart_db_def)
next
  case requeue
  with assms(3) show ?thesis by (simp add: requeue_db_def)
qed (use assms(3) in \<open>auto simp: upd_schedule_def\<close>)

lemma untouched_kept: "kept_by_api cfg (untouched cfg aid a)"
  unfolding kept_by_api_def
proof (intro allI impI)
  fix env op d
  assume op: "api_call op" and u: "uuid_ok env op d" and d: "untouched cfg aid a d"
  have hb: "op \<noteq> OpHeartbeat i" for i using op by (auto simp: api_call_def)
  obtain a0 where a0: "reachable cfg any_call d" "find_row a_id aid (d_attempts d) = Some a0"
      "a0 = a \<or> a_status a0 \<noteq> ARunning" using d by (auto simp: untouched_def)
  have "apply_op cfg env op d = d \<or> step cfg env op d (apply_op cfg env op d)"
    using apply_op_step [of d cfg env op] reachable_base [OF a0(1)] by (auto simp: base_ok_def keys_ok_def)
  then have "\<exists>a'. find_row a_id aid (d_attempts (apply_op cfg env op d)) = Some a' \<and>
      (a' = a \<or> a_status a' \<noteq> ARunning)"
  proof
    assume st: "step cfg env op d (apply_op cfg env op d)"
    show ?thesis
    proof (cases "a_status a0 = ARunning")
      case True
      then show ?thesis using attempt_row_step [OF st hb a0(2)] a0(3) by auto
    next
      case False
      have "find_row a_id aid (d_attempts (run_calls cfg [(env, op)] d)) = Some a0"
        by (rule finished_stays [OF a0(1,2) False])
      then show ?thesis using False by simp
    qed
  qed (use a0 in auto)
  then show "untouched cfg aid a (apply_op cfg env op d)"
    using reachable.call [OF a0(1) u TrueI] by (simp add: untouched_def)
qed

interpretation api_hb: api_store api_ops cfg "untouched cfg aid a" fresh_worker_id for cfg aid a
  by (rule api_store_keeps [OF untouched_kept])

lemma serve_all_untouched:
  "untouched cfg aid a d \<Longrightarrow> fresh_requests cfg qrs d \<Longrightarrow> list_all (\<lambda>(q, r). q_other q = (\<lambda>_ x. x)) qrs \<Longrightarrow>
     untouched cfg aid a (serve_all cfg qrs d)"
proof (induction cfg qrs d rule: serve_all.induct)
  case (2 cfg q r qrs d)
  have "untouched cfg aid a (snd (serve api_ops cfg q r d))"
    using api_hb.serve_handled [of cfg aid a d q False r] 2(2-4) by (simp add: handled_def)
  then show ?case using 2 by simp
qed simp

text \<open>No request of the API is a heartbeat: whatever its pull worker and any other client send, an attempt
  that was claimed over the API and is still running counts as stale for every cutoff from its start on,
  so the sweep fails it once its age exceeds the heartbeat cutoff, however alive its worker is.\<close>

theorem api_attempts_go_stale:
  assumes "reachable cfg any_call d" and "find_row a_id aid (d_attempts d) = Some a"
    and "a_status a = ARunning" and "a_heartbeat_at a = None" and "a_started_at a = Some s"
    and "fresh_requests cfg qrs d" and "list_all (\<lambda>(q, r). q_other q = (\<lambda>_ x. x)) qrs"
    and "find_row a_id aid (d_attempts (serve_all cfg qrs d)) = Some a'" and "a_status a' = ARunning"
    and "s \<le> fmtDBTime cutoff" and "\<not> e_fault env ''FindStaleAttempts''"
  shows "\<exists>as. FindStaleAttempts env cutoff (serve_all cfg qrs d) = Inr as \<and> scanAttempt a' \<in> set as"
proof -
  have "untouched cfg aid a d" using assms(1,2) by (simp add: untouched_def)
  from serve_all_untouched [OF this assms(6,7)] have "a' = a"
    using assms(8,9) by (auto simp: untouched_def)
  moreover have "a' \<in> set (d_attempts (serve_all cfg qrs d))" using assms(8) by (simp add: find_row_SomeD)
  ultimately show ?thesis
    using assms(3-5,10,11) by (auto simp: FindStaleAttempts_def stale_def last_sign_def)
qed

lemma api_attempts_go_stale_witness:
  "\<exists>as a'. FindStaleAttempts (demo_env 70) (64 * 1000000000)
     (serve_all defaults [(demo_api, PostFail ''other'' (Inr ''boom''))] demo_db) = Inr as \<and> scanAttempt a' \<in> set as"
proof -
  define a where "a = hd (d_attempts demo_db)"
  have a: "a_id a = ''iiii''" "a_status a = ARunning" "Option.is_none (a_heartbeat_at a)" "a_started_at a = Some 4"
    "d_attempts demo_db \<noteq> []" unfolding a_def by code_simp+
  have row: "find_row a_id ''iiii'' (d_attempts demo_db) = Some a"
    using a(1,5) by (cases "d_attempts demo_db") (auto simp: a_def)
  define d' where "d' = serve_all defaults [(demo_api, PostFail ''other'' (Inr ''boom''))] demo_db"
  have d': "a_id (hd (d_attempts d')) = ''iiii''" "a_status (hd (d_attempts d')) = ARunning" "d_attempts d' \<noteq> []"
    unfolding d'_def by code_simp+
  have row': "find_row a_id ''iiii'' (d_attempts d') = Some (hd (d_attempts d'))"
    using d'(1,3) by (cases "d_attempts d'") auto
  have fr: "fresh_requests defaults [(demo_api, PostFail ''other'' (Inr ''boom''))] demo_db" by code_simp
  have "a_heartbeat_at a = None" using a(3) by (simp add: Option.is_none_def)
  from api_attempts_go_stale [OF demo_reachable row a(2) this a(4) fr _ row' [unfolded d'_def] d'(2) [unfolded d'_def],
      of "64 * 1000000000" "demo_env 70"]
  show ?thesis by (auto simp: demo_api_def demo_env_def fmtDBTime_def d'_def)
qed

end
