(* ===== verification/ETQ_StoreTheorems.thy ===== *)
theory ETQ_StoreTheorems
  imports ETQ_Runs
begin

section \<open>What the store promises\<close>

text \<open>
  The properties of the store, each over every database that some sequence of calls reaches, with
  its evaluation at a concrete run where it has hypotheses.
\<close>

subsection \<open>Calls and steps\<close>

text \<open>C2: Every call of the store, whatever its faults and its fate in the write queue, leaves the
  database as it was or makes exactly the step its operation's contract allows; and a call that is
  served and meets no fault makes the step whenever it is enabled.\<close>

theorem apply_op_refines:
  assumes "reachable cfg allowed d"
  shows "(apply_op cfg env op d = d \<or> step cfg env op d (apply_op cfg env op d)) \<and>
    (smooth env \<longrightarrow> (\<forall>d'. step cfg env op d d' \<longrightarrow> apply_op cfg env op d = d'))"
  using apply_op_step [of d cfg env op] apply_op_enabled [of env d cfg op]
    base_ok_D [OF reachable_base [OF assms]] by blast

lemma apply_op_refines_witness:
  "step defaults (demo_env 5) (OpHalt ''ii'') demo_db
     (apply_op defaults (demo_env 5) (OpHalt ''ii'') demo_db)"
proof -
  have "apply_op defaults (demo_env 5) (OpHalt ''ii'') demo_db = demo_db \<Longrightarrow> False"
    by (drule arg_cong [where f = "status_of ''ii''"]) code_simp
  then show ?thesis using apply_op_refines [OF demo_reachable] by blast
qed

text \<open>No two rows of a table share an ID, and every attempt and every event belongs to a task
  that is there.\<close>

theorem store_keys:
  assumes "reachable cfg allowed d"
  shows "keys_ok d \<and> tasks_exist d"
  using reachable_base [OF assms] by (simp add: base_ok_def)

lemma store_keys_witness: "keys_ok demo_db \<and> tasks_exist demo_db"
  by (rule store_keys [OF demo_reachable])

text \<open>C40: The rows are well formed: a task's retries are within its budget, its queue is named and
  its budget is not zero; an attempt has a finish time exactly when it is over, an error exactly
  when it failed, a result only when it succeeded, and it names its worker and its start.\<close>

theorem store_rows:
  assumes "reachable cfg allowed d"
  shows "(\<forall>t \<in> set (d_tasks d). task_ok t) \<and> (\<forall>a \<in> set (d_attempts d). attempt_ok a)"
  using rows_inv.always [OF assms] by (simp add: rows_ok_def)

lemma store_rows_witness:
  "list_all task_ok (d_tasks demo_db) \<and> list_all attempt_ok (d_attempts demo_db) \<and>
     length (d_tasks demo_db) = 2"
proof -
  have "length (d_tasks demo_db) = 2" by code_simp
  then show ?thesis using store_rows [OF demo_reachable] by (simp add: list_all_iff)
qed

text \<open>C6: The counter of every worker is the number of running attempts that name it, and its
  status is busy exactly when the counter has reached its concurrency.\<close>

theorem store_loads:
  assumes "reachable cfg allowed d" and "w \<in> set (d_workers d)"
  shows "w_current_task_count w =
      count_where (\<lambda>a. a_status a = ARunning \<and> a_worker_id a = Some (w_id w)) (d_attempts d) \<and>
    (w_status w = WBusy \<longleftrightarrow> w_concurrency w \<le> w_current_task_count w)"
  using loads_inv.always [OF assms(1)] assms(2)
  by (auto simp: loads_ok_def load_of_def worker_ok_def split: if_splits)

lemma store_loads_witness:
  "\<exists>w \<in> set (d_workers demo_db). w_id w = ''i'' \<and> w_current_task_count w = 1 \<and>
     (w_status w = WBusy \<longleftrightarrow> w_concurrency w \<le> w_current_task_count w)"
proof -
  have "\<exists>w \<in> set (d_workers demo_db). w_id w = ''i'' \<and>
      count_where (\<lambda>a. a_status a = ARunning \<and> a_worker_id a = Some (w_id w)) (d_attempts demo_db) = 1"
    by code_simp
  then show ?thesis using store_loads [OF demo_reachable] by metis
qed

text \<open>C5: The numbers of running tasks never exceed the limits the configuration sets for all
  tasks, for a queue and for a type (a limit of zero is none).\<close>

theorem store_limits:
  assumes "reachable cfg allowed d" and "validate cfg = None"
  shows "running_count (\<lambda>_. True) d \<le> c_global cfg \<and>
    (QueueLimit cfg q \<noteq> 0 \<longrightarrow> running_count (\<lambda>t. t_queue t = q) d \<le> QueueLimit cfg q) \<and>
    (TaskTypeLimit cfg tt \<noteq> 0 \<longrightarrow> running_count (\<lambda>t. t_type t = tt) d \<le> TaskTypeLimit cfg tt)"
  using limits_inv.always [OF assms(1)] QueueLimit_nonneg [OF assms(2), of q]
    TaskTypeLimit_nonneg [OF assms(2), of tt] assms(2)
  by (auto simp: limits_ok_def validate_None)

lemma store_limits_witness:
  "running_count (\<lambda>_. True) demo_db \<le> 128"
proof -
  have "validate defaults = None" "c_global defaults = 128" by code_simp+
  then show ?thesis using store_limits [OF demo_reachable, of "[]" "[]"] by simp
qed

subsection \<open>The life of a task\<close>

text \<open>C15: The attempts of a task are numbered 1, 2, 3, ... in the order they were made, its timeline
  has one started event per attempt, and every task has a queued event.\<close>

theorem store_history:
  assumes "reachable cfg allowed d"
  shows "map a_num (attempts_of i d) = [1..int (length (attempts_of i d))] \<and>
    started_count i d = int (length (attempts_of i d)) \<and>
    (\<forall>t \<in> set (d_tasks d). \<exists>e \<in> set (d_events d). ev_task_id e = t_id t \<and> ev_event e = EvQueued)"
  using history_inv.always [OF assms] by (simp add: history_ok_def)

lemma store_history_witness:
  "map a_num (attempts_of ''ii'' demo_db) = [1..1] \<and> started_count ''ii'' demo_db = 1"
proof -
  have "length (attempts_of ''ii'' demo_db) = 1" by code_simp
  then show ?thesis using store_history [OF demo_reachable, of "''ii''"] by simp
qed

text \<open>C7: A running task has a running attempt, and a task that was never halted has exactly one
  running attempt while it runs and none otherwise.\<close>

theorem store_attempts_agree:
  assumes "reachable cfg allowed d" and "t \<in> set (d_tasks d)"
  shows "(running t \<longrightarrow> 1 \<le> running_attempts (t_id t) d) \<and>
    (\<not> was_halted (t_id t) d \<longrightarrow> running_attempts (t_id t) d = (if running t then 1 else 0))"
  using agree_inv.always [OF assms(1)] assms(2) by (auto simp: attempts_agree_def)

lemma store_attempts_agree_witness:
  "\<exists>t \<in> set (d_tasks demo_db). running t \<and> \<not> was_halted (t_id t) demo_db \<and>
     running_attempts (t_id t) demo_db = 1"
proof -
  have "\<exists>t \<in> set (d_tasks demo_db). running t \<and> \<not> was_halted (t_id t) demo_db" by code_simp
  then show ?thesis using store_attempts_agree [OF demo_reachable] by fastforce
qed

text \<open>C16: Nothing that was recorded is rewritten: after any sequence of calls every task and every
  attempt is still there with the columns it was made with, every finished attempt is there
  unchanged, and the timeline has only grown at its end.\<close>

theorem store_extends:
  assumes "reachable cfg allowed d"
  shows "extends d (run_calls cfg calls d)"
  by (rule run_calls_extends [OF reachable_base [OF assms]])

lemma store_extends_witness:
  "extends demo_db (run_calls defaults [(demo_env 5, OpFail ''iiii'' ''boom''), (demo_env 6, OpRestart ''iii'')] demo_db)"
  by (rule store_extends [OF demo_reachable])

text \<open>C17: A call leaves the status of a task, or moves it along an edge of its operation, from a source
  state that its comment names; any other move is the outcome of an attempt that was still running although
  its task, once halted, no longer was.  The edges are those of the diagrams in the documents and, beside
  them, only: a restart to superseded, the cancellation of a queued task, and the retry of a dead or a
  cancelled one.\<close>

theorem store_edges:
  assumes "reachable cfg allowed d" and "status_of i d = Some s"
  shows "\<exists>s'. status_of i (apply_op cfg env op d) = Some s' \<and>
    (s' = s \<or> (s, s') \<in> set (edges op) \<and> ((s, s') \<in> set diagram \<or> beside_diagram op s s') \<or>
     (was_halted i d \<and> s \<noteq> Running \<and> 1 \<le> running_attempts i d \<and> (Running, s') \<in> set (edges op)))"
proof -
  note base = reachable_base [OF assms(1)]
  obtain t where t: "find_row t_id i (d_tasks d) = Some t" "t_status t = s"
    using assms(2) by (auto simp: status_of_def)
  have "t \<in> set (d_tasks d)" "t_id t = i" using t(1) by (simp_all add: find_row_SomeD)
  then have halted: "was_halted i d" if "s \<noteq> Running" "1 \<le> running_attempts i d"
    using agree_inv.always [OF assms(1)] that t(2) by (auto simp: attempts_agree_def running_def)
  consider "apply_op cfg env op d = d" | "step cfg env op d (apply_op cfg env op d)"
    using apply_op_step [of d cfg env op] base_ok_D [OF base] by blast
  then show ?thesis
  proof cases
    case 2
    from status_step [OF 2 base t(1)] show ?thesis using t(2) halted edges_diagram by blast
  qed (simp add: assms(2))
qed

lemma store_edges_witness:
  "\<exists>s'. status_of ''ii'' (apply_op defaults (demo_env 5) (OpSucceed ''iiii'' None) demo_db) = Some s' \<and>
     s' = Succeeded \<and> (Running, s') \<in> set (edges (OpSucceed ''iiii'' None))"
proof -
  have s: "status_of ''ii'' demo_db = Some Running" by code_simp
  have "status_of ''ii'' (apply_op defaults (demo_env 5) (OpSucceed ''iiii'' None) demo_db) \<noteq> Some Running"
    by code_simp
  then show ?thesis
    using store_edges [OF demo_reachable s, of "demo_env 5" "OpSucceed ''iiii'' None"] by auto
qed

text \<open>The edges beside the diagrams are taken: a task is cancelled in the queue, and a cancelled one, which
  DESIGN.md says will not run again, is queued and runs.\<close>

lemma cancelled_task_runs:
  "status_of ''iii'' (run_calls defaults [(demo_env 5, OpCancel ''iii'')] demo_db) = Some Cancelled"
  "status_of ''iii'' (run_calls defaults [(demo_env 5, OpCancel ''iii''), (demo_env 6, OpRetry ''iii''),
     (demo_env 7, OpClaim ''i'' ''default'' [''email''])] demo_db) = Some Running"
  by code_simp+

lemma never_halted:
  assumes "reachable cfg no_halt d"
  shows "\<not> was_halted i d"
  using assms
proof (induction rule: reachable.induct)
  case (call d env op)
  have "\<not> was_halted i d'" if "step cfg env op d d'" for d'
    using that
  proof cases
    case (finish t aid f g ev detail a)
    then have "ev \<noteq> EvHalted" by (cases op) (auto split: prod.splits dest!: retry_decision_cases)
    then show ?thesis using call.IH by (auto simp: was_halted_def finish(1) finish_db_def)
  next
    case (action j from_states g ev t)
    then have "ev \<noteq> EvHalted" using call.hyps(3) by (cases op) (auto simp: no_halt_def)
    then show ?thesis
      using call.IH by (auto simp: was_halted_def action(1) move_db_def control_event_def)
  qed (use call.IH in \<open>auto simp: was_halted_def claim_db_def heartbeat_db_def restart_db_def
      requeue_db_def upd_schedule_def\<close>)
  then show ?case
    using apply_op_step [of d cfg env op] base_ok_D [OF reachable_base [OF call.hyps(1)]] call.IH by metis
qed (simp add: was_halted_def empty_db_def)

text \<open>In a run in which no task is halted, the number of attempts that are running at the same
  time stays within the global limit.\<close>

theorem concurrency_limit:
  assumes "reachable cfg no_halt d" and "validate cfg = None"
  shows "count_where (\<lambda>a. a_status a = ARunning) (d_attempts d) \<le> c_global cfg"
  using running_attempts_total [OF reachable_base [OF assms(1)] agree_inv.always [OF assms(1)]]
    never_halted [OF assms(1)] limits_inv.always [OF assms(1)] assms(2)
  by (auto simp: all_running_attempts_def limits_ok_def validate_None)

lemma concurrency_limit_witness:
  "count_where (\<lambda>a. a_status a = ARunning) (d_attempts demo_db) \<le> 128"
proof -
  have "validate defaults = None" "c_global defaults = 128" by code_simp+
  then show ?thesis using concurrency_limit [OF demo_reachable_no_halt] by simp
qed

text \<open>C10: A task that is left to the queue (queued once, by its creation, and never halted) is
  executed at most once more than its retry budget.\<close>

theorem attempts_bounded:
  assumes "reachable cfg allowed d" and "t \<in> set (d_tasks d)"
    and "queued_count (t_id t) d = 1" and "\<not> was_halted (t_id t) d"
  shows "int (length (attempts_of (t_id t) d)) \<le> max 0 (t_max_retries t) + 1"
proof -
  have "t_retry_count t \<le> max 0 (t_max_retries t)"
    using rows_inv.always [OF assms(1)] assms(2) by (auto simp: rows_ok_def task_ok_def)
  moreover have "int (length (attempts_of (t_id t) d)) \<le> t_retry_count t + of_bool (\<not> waiting t)"
    using budget_inv.always [OF assms(1)] assms(2-4) by (auto simp: attempt_budget_def)
  ultimately show ?thesis by (auto simp: of_bool_def split: if_splits)
qed

lemma attempts_bounded_witness:
  "\<exists>t \<in> set (d_tasks demo_db). t_id t = ''ii'' \<and>
     int (length (attempts_of ''ii'' demo_db)) \<le> max 0 (t_max_retries t) + 1"
proof -
  have "\<exists>t \<in> set (d_tasks demo_db). t_id t = ''ii'' \<and> queued_count (t_id t) demo_db = 1 \<and>
      \<not> was_halted (t_id t) demo_db" by code_simp
  then show ?thesis using attempts_bounded [OF demo_reachable] by metis
qed

text \<open>Cancelling is not final: when a running task is halted and then cancelled, the attempt
  left running can still report its success, and the cancelled task becomes succeeded.\<close>

theorem cancelled_task_succeeds:
  "status_of ''ii'' (run_calls defaults halt_cancel empty_db) = Some Cancelled \<and>
   status_of ''ii'' (apply_op defaults (demo_env 7) (OpSucceed ''iiii'' None)
                      (run_calls defaults halt_cancel empty_db)) = Some Succeeded"
  by code_simp

text \<open>A halted task frees its place: with a global limit of one, halting the running task lets
  a second one be claimed while the first one's attempt still runs, so two attempts run at once;
  the number of running tasks is one all the same.\<close>

theorem halt_exceeds_limit:
  "c_global limit_one = 1 \<and> calls_ok limit_one any_call halt_claim empty_db \<and>
   count_where (\<lambda>a. a_status a = ARunning) (d_attempts (run_calls limit_one halt_claim empty_db)) = 2 \<and>
   running_count (\<lambda>_. True) (run_calls limit_one halt_claim empty_db) = 1"
  by code_simp

end
