(* ===== verification/ETQ_Migrate.thy ===== *)
theory ETQ_Migrate
  imports ETQ_Strings
begin

section \<open>Migrations (internal/store/migrate.go)\<close>

text \<open>
  The runner that brings a database to the schema of the embedded migration files: it parses the
  file names, splits the scripts into statements, and runs each file it finds no record of in one
  transaction together with that record.

  The SQL engine is outside: \<open>exec\<close> says what a statement makes of a schema, or that it fails.  What
  the code relies on is that a transaction that is rolled back leaves no trace, DDL included.
  \<open>fault\<close> says which driver calls fail, by step and file.
\<close>

datatype migrate_error =
  EnsureFailed
| QueryFailed
| ListFailed
| BadName string
| NonNumericVersion string
| ReadFailed string
| BeginFailed string
| ExecFailed string string
| RecordFailed string int
| CommitFailed string

record 's mig_db =
  mg_rows :: "(int \<times> string) list option"
  mg_schema :: 's

type_synonym 's sql_engine = "string \<Rightarrow> 's \<Rightarrow> 's option"

subsection \<open>Names\<close>

definition parseMigrationName :: "string \<Rightarrow> migrate_error + (int \<times> string)" where
  "parseMigrationName path =
     (let base = TrimSuffix (after_last (CHR ''/'') path) ''.sql'' in
      case split_two (CHR ''_'') base of
        None \<Rightarrow> Inl (BadName path)
      | Some (num, desc) \<Rightarrow>
          (case Atoi num of
             None \<Rightarrow> Inl (NonNumericVersion path)
           | Some version \<Rightarrow> Inr (version, desc)))"

subsection \<open>Statements\<close>

definition add_line :: "string list \<times> string \<Rightarrow> string \<Rightarrow> string list \<times> string" where
  "add_line s line =
     (let (stmts, buf) = s; trimmed = TrimSpace (strip_comment line) in
      if trimmed = [] then (stmts, buf)
      else
        (let buf' = buf @ trimmed @ [newline] in
         if HasSuffix trimmed '';''
         then (let stmt = TrimSpace buf' in
               (if stmt \<noteq> [] \<and> stmt \<noteq> '';'' then stmts @ [stmt] else stmts, []))
         else (stmts, buf')))"

definition splitSQL :: "string \<Rightarrow> string list" where
  "splitSQL script =
     (let (stmts, buf) = foldl add_line ([], []) (split_lines script); stmt = TrimSpace buf in
      if stmt \<noteq> [] then stmts @ [stmt] else stmts)"

subsection \<open>One migration\<close>

fun exec_all :: "'s sql_engine \<Rightarrow> string list \<Rightarrow> 's \<Rightarrow> string + 's" where
  "exec_all exec [] s = Inr s"
| "exec_all exec (q # qs) s = (case exec q s of None \<Rightarrow> Inl q | Some s' \<Rightarrow> exec_all exec qs s')"

text \<open>
  The transaction: the statements, the record of the version (a primary key), the commit.  An error
  anywhere rolls back, so the database is the one before.
\<close>

definition applyMigration ::
  "'s sql_engine \<Rightarrow> (string \<Rightarrow> string \<Rightarrow> bool) \<Rightarrow> string \<Rightarrow> int \<Rightarrow> string \<Rightarrow> string \<Rightarrow> 's mig_db \<Rightarrow>
     migrate_error option \<times> 's mig_db" where
  "applyMigration exec fault path version desc content m =
     (if fault ''begin tx'' path then (Some (BeginFailed path), m)
      else case exec_all exec (splitSQL content) (mg_schema m) of
        Inl stmt \<Rightarrow> (Some (ExecFailed path stmt), m)
      | Inr s \<Rightarrow>
          (case mg_rows m of
             None \<Rightarrow> (Some (RecordFailed path version), m)
           | Some rows \<Rightarrow>
               if fault ''record'' path \<or> version \<in> set (map fst rows)
               then (Some (RecordFailed path version), m)
               else if fault ''commit'' path then (Some (CommitFailed path), m)
               else (None, m\<lparr>mg_rows := Some (rows @ [(version, desc)]), mg_schema := s\<rparr>)))"

subsection \<open>The runner\<close>

definition ensureMigrationsTable ::
  "(string \<Rightarrow> string \<Rightarrow> bool) \<Rightarrow> 's mig_db \<Rightarrow> migrate_error option \<times> 's mig_db" where
  "ensureMigrationsTable fault m =
     (if fault ''ensure'' [] then (Some EnsureFailed, m)
      else (None, m\<lparr>mg_rows := Some (case mg_rows m of None \<Rightarrow> [] | Some rows \<Rightarrow> rows)\<rparr>))"

definition appliedVersions ::
  "(string \<Rightarrow> string \<Rightarrow> bool) \<Rightarrow> 's mig_db \<Rightarrow> migrate_error + int list" where
  "appliedVersions fault m =
     (case mg_rows m of
        None \<Rightarrow> Inl QueryFailed
      | Some rows \<Rightarrow> if fault ''query'' [] then Inl QueryFailed else Inr (map fst rows))"

type_synonym mig_file = "string \<times> string"

fun migrate_files ::
  "'s sql_engine \<Rightarrow> (string \<Rightarrow> string \<Rightarrow> bool) \<Rightarrow> int list \<Rightarrow> mig_file list \<Rightarrow> 's mig_db \<Rightarrow>
     migrate_error option \<times> 's mig_db" where
  "migrate_files exec fault applied [] m = (None, m)"
| "migrate_files exec fault applied ((path, content) # fs) m =
     (case parseMigrationName path of
        Inl e \<Rightarrow> (Some e, m)
      | Inr (version, desc) \<Rightarrow>
          if version \<in> set applied then migrate_files exec fault applied fs m
          else if fault ''read'' path then (Some (ReadFailed path), m)
          else (case applyMigration exec fault path version desc content m of
                  (Some e, m') \<Rightarrow> (Some e, m')
                | (None, m') \<Rightarrow> migrate_files exec fault applied fs m'))"

definition Migrate ::
  "'s sql_engine \<Rightarrow> (string \<Rightarrow> string \<Rightarrow> bool) \<Rightarrow> mig_file list \<Rightarrow> 's mig_db \<Rightarrow>
     migrate_error option \<times> 's mig_db" where
  "Migrate exec fault files m =
     (case ensureMigrationsTable fault m of
        (Some e, m0) \<Rightarrow> (Some e, m0)
      | (None, m0) \<Rightarrow>
          (case appliedVersions fault m0 of
             Inl e \<Rightarrow> (Some e, m0)
           | Inr applied \<Rightarrow>
               if fault ''list'' [] then (Some ListFailed, m0)
               else migrate_files exec fault applied (sort_key fst files) m0))"

text \<open>
  The contract: the files without a record, in order, each wholly executed and recorded.
\<close>

definition pending :: "int list \<Rightarrow> mig_file list \<Rightarrow> mig_file list" where
  "pending applied files =
     filter (\<lambda>f. case parseMigrationName (fst f) of Inl _ \<Rightarrow> True | Inr (v, _) \<Rightarrow> v \<notin> set applied) files"

fun run_whole :: "'s sql_engine \<Rightarrow> mig_file list \<Rightarrow> (int \<times> string) list \<times> 's \<Rightarrow> ((int \<times> string) list \<times> 's) option" where
  "run_whole exec [] x = Some x"
| "run_whole exec ((path, content) # fs) (rows, s) =
     (case (parseMigrationName path, exec_all exec (splitSQL content) s) of
        (Inr (v, desc), Inr s') \<Rightarrow> run_whole exec fs (rows @ [(v, desc)], s')
      | _ \<Rightarrow> None)"

definition rows_of_db :: "'s mig_db \<Rightarrow> (int \<times> string) list" where
  "rows_of_db m = (case mg_rows m of None \<Rightarrow> [] | Some rows \<Rightarrow> rows)"

text \<open>An example: an engine that collects the statements and rejects one, and the names of the three files.\<close>

definition demo_engine :: "string list sql_engine" where
  "demo_engine q s = (if q = ''BAD;'' then None else Some (s @ [q]))"

definition demo_files :: "mig_file list" where
  "demo_files = [(''migrations/002_execution_limits.sql'', ''B;''), (''migrations/001_initial.sql'', ''A;'')]"

definition blank_db :: "string list mig_db" where
  "blank_db = \<lparr>mg_rows = None, mg_schema = []\<rparr>"

text \<open>A script as the lines of its statements, and what counts as one.\<close>

definition render_lines :: "string list \<Rightarrow> string" where
  "render_lines ls = concat (map (\<lambda>l. l @ [newline]) ls)"

definition statement_ok :: "string list \<Rightarrow> bool" where
  "statement_ok ls \<longleftrightarrow> ls \<noteq> [] \<and> ls \<noteq> ['';''] \<and> list_all plain_line ls \<and> HasSuffix (last ls) '';'' \<and>
     list_all (\<lambda>l. \<not> HasSuffix l '';'') (butlast ls)"

subsection \<open>Names parse\<close>

lemma digit_not_sign: "digit_of c \<noteq> None \<Longrightarrow> c \<noteq> CHR ''-'' \<and> c \<noteq> CHR ''+'' \<and> c \<noteq> CHR ''_'' \<and> c \<noteq> CHR ''/''"
  by (auto simp: digit_of_def less_eq_char_def split: if_splits)

lemma digits_value_digits: "digits_value acc s = Some v \<Longrightarrow> c \<in> set s \<Longrightarrow> digit_of c \<noteq> None"
  by (induction acc s rule: digits_value.induct) (auto split: option.splits)

lemma digit_nonneg: "digit_of c = Some x \<Longrightarrow> 0 \<le> x"
proof -
  assume "digit_of c = Some x"
  then have "48 \<le> (of_char c :: nat)" "x = of_char c - 48"
    by (auto simp: digit_of_def less_eq_char_def split: if_splits)
  moreover have "(of_char c :: int) = int (of_char c)" by (simp add: of_char_def)
  ultimately show ?thesis by linarith
qed

lemma digits_value_nonneg: "digits_value acc s = Some v \<Longrightarrow> 0 \<le> acc \<Longrightarrow> 0 \<le> v"
proof (induction acc s rule: digits_value.induct)
  case (2 acc c cs)
  then obtain x where x: "digit_of c = Some x" "digits_value (acc * 10 + x) cs = Some v"
    by (auto split: option.splits)
  with 2 x digit_nonneg [OF x(1)] show ?case by simp
qed simp

lemma Atoi_digits:
  assumes "ds \<noteq> []" and "digits_value 0 ds = Some v" and "v < 2 ^ 63"
  shows "Atoi ds = Some v"
proof -
  obtain c cs where ds: "ds = c # cs" using assms(1) by (cases ds) auto
  have "digit_of c \<noteq> None" using digits_value_digits [OF assms(2), of c] ds by simp
  then show ?thesis
    using assms digits_value_nonneg [OF assms(2)] digit_not_sign [of c] ds
    by (simp add: Atoi_def unsigned_value_def)
qed

lemma parse_name:
  assumes "ds \<noteq> []" and "digits_value 0 ds = Some v" and "v < 2 ^ 63" and "CHR ''/'' \<notin> set desc"
  shows "parseMigrationName (dir @ ''/'' @ ds @ ''_'' @ desc @ ''.sql'') = Inr (v, desc)"
proof -
  have ds: "c \<notin> set ds" if "c = CHR ''/'' \<or> c = CHR ''_''" for c
    using digits_value_digits [OF assms(2), of c] digit_not_sign [of c] that by auto
  have "after_last (CHR ''/'') (dir @ CHR ''/'' # (ds @ ''_'' @ desc @ ''.sql'')) = ds @ ''_'' @ desc @ ''.sql''"
    using ds assms(4) by (intro after_last_append) auto
  then have base: "TrimSuffix (after_last (CHR ''/'') (dir @ ''/'' @ ds @ ''_'' @ desc @ ''.sql'')) ''.sql'' =
      ds @ CHR ''_'' # desc"
    using TrimSuffix_append [of "ds @ CHR ''_'' # desc" "''.sql''"] by simp
  have "split_two (CHR ''_'') (ds @ CHR ''_'' # desc) = Some (ds, desc)" using ds by (intro split_two_append) auto
  then show ?thesis
    unfolding parseMigrationName_def Let_def base by (simp add: Atoi_digits [OF assms(1-3)])
qed

subsection \<open>Scripts split\<close>

lemma split_render:
  "list_all (\<lambda>l. newline \<notin> set l) ls \<Longrightarrow> split_lines (render_lines ls @ s) = ls @ split_lines s"
  by (induction ls) (simp_all add: render_lines_def split_lines_append)

lemma render_append: "render_lines (xs @ ys) = render_lines xs @ render_lines ys"
  by (simp add: render_lines_def)

lemma plain_trim: "plain_line l \<Longrightarrow> TrimSpace (strip_comment l) = l"
  by (simp add: plain_line_def TrimSpace_id)

lemma add_plain:
  "plain_line l \<Longrightarrow> \<not> HasSuffix l '';'' \<Longrightarrow> add_line (stmts, buf) l = (stmts, buf @ l @ [newline])"
  by (simp add: add_line_def plain_trim) (simp add: plain_line_def)

lemma add_plains:
  "list_all plain_line ls \<Longrightarrow> list_all (\<lambda>l. \<not> HasSuffix l '';'') ls \<Longrightarrow>
     foldl add_line (stmts, buf) ls = (stmts, buf @ render_lines ls)"
  by (induction ls arbitrary: buf) (simp_all add: add_plain render_lines_def)

lemma render_ends:
  assumes "ls \<noteq> []" and "list_all plain_line ls"
  shows "\<exists>s. render_lines ls = s @ [newline] \<and> s \<noteq> [] \<and> \<not> is_space (hd s) \<and> \<not> is_space (last s)"
proof -
  define s where "s = render_lines (butlast ls) @ last ls"
  have ls: "ls = butlast ls @ [last ls]" using assms(1) by simp
  have last: "plain_line (last ls)" and hd: "plain_line (hd ls)"
    using assms by (simp_all add: list_all_iff)
  have "render_lines ls = s @ [newline]"
    by (subst ls) (simp add: render_append s_def, simp add: render_lines_def)
  moreover have "hd s = hd (hd ls)"
    using assms(1) hd last by (cases ls) (auto simp: s_def render_lines_def plain_line_def)
  moreover have "last s = last (last ls)" "s \<noteq> []" using last by (simp_all add: s_def plain_line_def)
  ultimately show ?thesis using hd last by (auto simp: plain_line_def)
qed

lemma add_statement:
  assumes "statement_ok ls"
  shows "foldl add_line (stmts, []) ls = (stmts @ [TrimSpace (render_lines ls)], [])"
proof -
  note ok = assms [unfolded statement_ok_def]
  have ls: "ls = butlast ls @ [last ls]" using ok by simp
  have plain: "plain_line (last ls)" "list_all plain_line (butlast ls)"
    using ok by (auto simp: list_all_iff dest: in_set_butlastD)
  have buf: "render_lines (butlast ls) @ last ls @ [newline] = render_lines ls"
    by (subst (3) ls) (simp add: render_append, simp add: render_lines_def)
  have "TrimSpace (render_lines ls) \<noteq> [] \<and> TrimSpace (render_lines ls) \<noteq> '';''"
  proof -
    obtain s where s: "render_lines ls = s @ [newline]" "s \<noteq> []" "\<not> is_space (hd s)" "\<not> is_space (last s)"
      using render_ends ok by blast
    then have t: "TrimSpace (render_lines ls) = s" by (simp add: TrimSpace_newline)
    moreover have "s \<noteq> '';''"
    proof
      assume "s = '';''"
      then have eq: "render_lines (butlast ls) @ last ls = '';''" using s(1) buf by simp
      then have "render_lines (butlast ls) = [] \<and> last ls = '';''"
        using plain(1) by (auto simp: plain_line_def append_eq_Cons_conv)
      then have "butlast ls = []" "last ls = '';''" by (cases "butlast ls"; simp add: render_lines_def)+
      then have "ls = ['';'']" using ls by simp
      then show False using ok by simp
    qed
    ultimately show ?thesis using s(2) by simp
  qed
  then have "add_line (stmts, render_lines (butlast ls)) (last ls) = (stmts @ [TrimSpace (render_lines ls)], [])"
    using plain(1) ok buf
    by (simp add: add_line_def plain_trim) (auto simp: plain_line_def)
  then have "foldl add_line (stmts, []) (butlast ls @ [last ls]) = (stmts @ [TrimSpace (render_lines ls)], [])"
    using add_plains [OF plain(2), of stmts "[]"] ok by (simp add: foldl_append del: append_butlast_last_id)
  then show ?thesis by (metis ls)
qed

text \<open>Splitting a script gives back its statements: for statements of plain lines, each ended by the
  first line of it that ends in a semicolon, written one after the other with a newline after each line,
  splitSQL returns exactly these statements, in order.\<close>

theorem splitSQL_statements:
  assumes "list_all statement_ok stmts"
  shows "splitSQL (concat (map render_lines stmts)) = map (\<lambda>ls. TrimSpace (render_lines ls)) stmts \<and>
    list_all (\<lambda>ls. TrimSpace (render_lines ls) @ [newline] = render_lines ls) stmts"
proof
  have lines: "split_lines (concat (map render_lines stmts)) = concat stmts @ [[]]"
    using assms
    by (induction stmts) (auto simp: split_render statement_ok_def plain_line_def list_all_iff)
  have "foldl add_line (done, []) (concat stmts) = (done @ map (\<lambda>ls. TrimSpace (render_lines ls)) stmts, [])"
    for "done"
    using assms by (induction stmts arbitrary: "done") (simp_all add: add_statement)
  from this [of "[]"] show "splitSQL (concat (map render_lines stmts)) = map (\<lambda>ls. TrimSpace (render_lines ls)) stmts"
    by (simp add: splitSQL_def lines add_line_def TrimSpace_def)
  show "list_all (\<lambda>ls. TrimSpace (render_lines ls) @ [newline] = render_lines ls) stmts"
    using assms unfolding list_all_iff statement_ok_def by (metis TrimSpace_newline render_ends list_all_iff)
qed

lemma splitSQL_statements_witness:
  "splitSQL (concat (map render_lines [[''CREATE TABLE t ('', ''x'', '');''], [''DROP TABLE u;'']])) =
     [''CREATE TABLE t ('' @ [newline] @ ''x'' @ [newline] @ '');'', ''DROP TABLE u;'']"
proof -
  have "list_all statement_ok [[''CREATE TABLE t ('', ''x'', '');''], [''DROP TABLE u;'']]" by code_simp
  note this [THEN splitSQL_statements, THEN conjunct1]
  moreover have "map (\<lambda>ls. TrimSpace (render_lines ls)) [[''CREATE TABLE t ('', ''x'', '');''], [''DROP TABLE u;'']] =
      [''CREATE TABLE t ('' @ [newline] @ ''x'' @ [newline] @ '');'', ''DROP TABLE u;'']" by code_simp
  ultimately show ?thesis by simp
qed

subsection \<open>Migrating\<close>

lemma applyMigration_cases:
  assumes "applyMigration exec fault path v desc content m = (r, m')"
  shows "(r \<noteq> None \<and> m' = m) \<or>
    (r = None \<and> (\<exists>rows s. mg_rows m = Some rows \<and> v \<notin> set (map fst rows) \<and>
       exec_all exec (splitSQL content) (mg_schema m) = Inr s \<and>
       m' = m\<lparr>mg_rows := Some (rows @ [(v, desc)]), mg_schema := s\<rparr>))"
  using assms by (auto simp: applyMigration_def split: if_splits sum.splits option.splits)

lemma migrate_files_prefix:
  "migrate_files exec fault applied fs m = (r, m') \<Longrightarrow> mg_rows m = Some rows \<Longrightarrow>
   \<exists>n rows'. mg_rows m' = Some rows' \<and>
     run_whole exec (take n (pending applied fs)) (rows, mg_schema m) = Some (rows', mg_schema m') \<and>
     (r = None \<longrightarrow> n = length (pending applied fs))"
proof (induction exec fault applied fs m arbitrary: rows rule: migrate_files.induct)
  case (1 exec fault applied m)
  then show ?case by (auto simp: pending_def)
next
  case (2 exec fault applied path content fs m)
  show ?case
  proof (cases "parseMigrationName path")
    case (Inl e)
    with 2 show ?thesis by (auto intro: exI [of _ 0])
  next
    case (Inr y)
    obtain v desc where y: "y = (v, desc)" by fastforce
    show ?thesis
    proof (cases "v \<in> set applied")
      case True
      then have "migrate_files exec fault applied fs m = (r, m')" using Inr y 2(3) by simp
      moreover have "pending applied ((path, content) # fs) = pending applied fs"
        using Inr y True by (simp add: pending_def)
      ultimately show ?thesis using 2(1) [OF Inr y [symmetric] True _ 2(4)] by simp
    next
      case False
      obtain r1 m1 where a: "applyMigration exec fault path v desc content m = (r1, m1)" by fastforce
      show ?thesis
      proof (cases "fault ''read'' path \<or> r1 \<noteq> None")
        case True
        have "m' = m \<and> r \<noteq> None"
        proof (cases "fault ''read'' path")
          case True
          then show ?thesis using Inr y False 2(3) by auto
        next
          case False
          then have "r1 \<noteq> None" using True by simp
          then show ?thesis
            using Inr y \<open>v \<notin> set applied\<close> False a 2(3) applyMigration_cases [OF a] by auto
        qed
        then show ?thesis using 2(4) by (auto intro: exI [of _ 0])
      next
        case ok: False
        from applyMigration_cases [OF a] ok 2(4) obtain s where
          s: "exec_all exec (splitSQL content) (mg_schema m) = Inr s"
            "m1 = m\<lparr>mg_rows := Some (rows @ [(v, desc)]), mg_schema := s\<rparr>" by auto
        have rec: "migrate_files exec fault applied fs m1 = (r, m')" using Inr y False ok a 2(3) by simp
        have nofault: "\<not> fault ''read'' path" "(r1, m1) = (None, m1)" using ok by auto
        have rows1: "mg_rows m1 = Some (rows @ [(v, desc)])" "mg_schema m1 = s" by (simp_all add: s(2))
        from 2(2) [OF Inr y [symmetric] False nofault(1) a [symmetric, unfolded nofault(2)] refl rec rows1(1)] obtain n rows' where
          n: "mg_rows m' = Some rows'"
            "run_whole exec (take n (pending applied fs)) (rows @ [(v, desc)], s) = Some (rows', mg_schema m')"
            "r = None \<longrightarrow> n = length (pending applied fs)" by (auto simp: rows1(2))
        have "pending applied ((path, content) # fs) = (path, content) # pending applied fs"
          using Inr y False by (simp add: pending_def)
        with n s(1) Inr y show ?thesis by (intro exI [of _ "Suc n"]) auto
      qed
    qed
  qed
qed


text \<open>A migration run is a prefix of the work, done whole: whatever fails, the database afterwards is what
  the first n of the files without a record make of it, in the order of their names, each one executed to its last
  statement and recorded; a run without an error did them all.\<close>

lemma Migrate_whole:
  assumes "Migrate exec fault files m = (r, m')"
  shows "\<exists>n. run_whole exec (take n (pending (map fst (rows_of_db m)) (sort_key fst files))) (rows_of_db m, mg_schema m)
        = Some (rows_of_db m', mg_schema m') \<and>
      (r = None \<longrightarrow> n = length (pending (map fst (rows_of_db m)) (sort_key fst files)))"
proof (cases "r \<noteq> None \<and> rows_of_db m' = rows_of_db m \<and> mg_schema m' = mg_schema m")
  case True
  then show ?thesis by (auto intro: exI [of _ 0])
next
  case False
  define m0 where "m0 = m\<lparr>mg_rows := Some (rows_of_db m)\<rparr>"
  have m0: "mg_rows m0 = Some (rows_of_db m)" "mg_schema m0 = mg_schema m" by (simp_all add: m0_def)
  have "migrate_files exec fault (map fst (rows_of_db m)) (sort_key fst files) m0 = (r, m')"
    using assms False
    by (auto simp: Migrate_def ensureMigrationsTable_def appliedVersions_def m0_def rows_of_db_def
        split: if_splits)
  from migrate_files_prefix [OF this m0(1)] obtain n rows' where
    "mg_rows m' = Some rows'" "run_whole exec (take n (pending (map fst (rows_of_db m)) (sort_key fst files)))
       (rows_of_db m, mg_schema m) = Some (rows', mg_schema m')"
    "r = None \<longrightarrow> n = length (pending (map fst (rows_of_db m)) (sort_key fst files))"
    by (auto simp: m0(2))
  moreover from this(1) have "rows_of_db m' = rows'" by (simp add: rows_of_db_def)
  ultimately show ?thesis by blast
qed

lemma demo_migrates: "\<exists>m'. Migrate demo_engine (\<lambda>_ _. False) demo_files blank_db = (None, m')"
proof -
  have "Option.is_none (fst (Migrate demo_engine (\<lambda>_ _. False) demo_files blank_db))" by code_simp
  then show ?thesis by (cases "Migrate demo_engine (\<lambda>_ _. False) demo_files blank_db") (simp add: Option.is_none_def)
qed

lemma Migrate_whole_witness:
  "\<exists>m'. Migrate demo_engine (\<lambda>_ _. False) demo_files blank_db = (None, m') \<and>
     run_whole demo_engine (sort_key fst demo_files) ([], []) = Some (rows_of_db m', mg_schema m')"
proof -
  obtain m' where run: "Migrate demo_engine (\<lambda>_ _. False) demo_files blank_db = (None, m')"
    using demo_migrates by blast
  have p: "pending (map fst (rows_of_db blank_db)) (sort_key fst demo_files) = sort_key fst demo_files"
    "rows_of_db blank_db = []" "mg_schema blank_db = []" by code_simp+
  from Migrate_whole [OF run] run p show ?thesis by auto
qed

lemma run_whole_rows:
  "run_whole exec fs (rows, s) = Some (rows', s') \<Longrightarrow>
   set rows \<subseteq> set rows' \<and>
   list_all (\<lambda>f. case parseMigrationName (fst f) of Inr (v, _) \<Rightarrow> v \<in> set (map fst rows') | Inl _ \<Rightarrow> False) fs"
proof (induction fs arbitrary: rows s)
  case (Cons f fs)
  obtain path content where f: "f = (path, content)" by fastforce
  with Cons.prems obtain v desc s1 where v: "parseMigrationName path = Inr (v, desc)"
      "run_whole exec fs (rows @ [(v, desc)], s1) = Some (rows', s')"
    by (auto split: sum.splits prod.splits)
  with Cons.IH [OF v(2)] f show ?case by (auto intro: rev_image_eqI)
qed simp

lemma migrate_files_skip:
  "list_all (\<lambda>f. case parseMigrationName (fst f) of Inr (v, _) \<Rightarrow> v \<in> set applied | Inl _ \<Rightarrow> False) fs \<Longrightarrow>
   migrate_files exec fault applied fs m = (None, m)"
  by (induction exec fault applied fs m rule: migrate_files.induct) (auto split: sum.splits)

text \<open>C29: Migrating is idempotent: after a run without an error, another run, with whatever engine and
  whatever faults in its transactions, returns no error and changes nothing.\<close>

theorem Migrate_idempotent:
  assumes "Migrate exec fault files m = (None, m')"
    and "\<not> fault' ''ensure'' []" and "\<not> fault' ''query'' []" and "\<not> fault' ''list'' []"
  shows "Migrate exec' fault' files m' = (None, m')"
proof -
  let ?rows = "rows_of_db m" and ?files = "sort_key fst files"
  obtain rows' where rows': "mg_rows m' = Some rows'"
  proof -
    have "\<exists>rows'. mg_rows m' = Some rows'"
      using assms(1) migrate_files_prefix [of exec fault _ ?files _ None m']
      by (fastforce simp: Migrate_def ensureMigrationsTable_def appliedVersions_def split: if_splits)
    then show ?thesis using that by blast
  qed
  from Migrate_whole [OF assms(1)] have
    "run_whole exec (pending (map fst ?rows) ?files) (?rows, mg_schema m) = Some (rows', mg_schema m')"
    by (auto simp: rows_of_db_def rows')
  from run_whole_rows [OF this] have
    "list_all (\<lambda>f. case parseMigrationName (fst f) of Inr (v, _) \<Rightarrow> v \<in> set (map fst rows') | Inl _ \<Rightarrow> False) ?files"
    by (fastforce simp: list_all_iff pending_def split: sum.splits)
  note skip = migrate_files_skip [OF this]
  have "ensureMigrationsTable fault' m' = (None, m')"
    using assms(2) rows' by (cases m') (simp add: ensureMigrationsTable_def)
  then show ?thesis using assms(3,4) rows' skip by (simp add: Migrate_def appliedVersions_def)
qed

lemma Migrate_idempotent_witness:
  "\<exists>m'. Migrate demo_engine (\<lambda>_ _. False) demo_files blank_db = (None, m') \<and>
     Migrate (\<lambda>_ _. None) (\<lambda>_ _. False) demo_files m' = (None, m')"
proof -
  obtain m' where run: "Migrate demo_engine (\<lambda>_ _. False) demo_files blank_db = (None, m')"
    using demo_migrates by blast
  have "Migrate (\<lambda>_ _. None) (\<lambda>_ _. False) demo_files m' = (None, m')"
    by (rule Migrate_idempotent [OF run]) simp_all
  with run show ?thesis by blast
qed

end
