(* ===== verification/ETQ_Server.thy ===== *)
theory ETQ_Server
  imports ETQ_API ETQ_StoreTheorems ETQ_Migrate
begin

section \<open>The server (cmd/server/main.go)\<close>

text \<open>
  The command line, the configuration a command runs with, and the server as a whole: one store, one
  worker pool on the default queue, the three schedulers and the API, whose steps interleave in any
  way.  The state of the running server is its database; a step is one cycle of a pool goroutine, one
  pass of a scheduler or one request, each of which makes several calls to the store between which
  the other goroutines may do anything that calls to the store can do.
\<close>

subsection \<open>Command line\<close>

datatype command =
  CmdServer "string list"
| CmdMigrate "string list"
| CmdVersion
| CmdHelp
| CmdMissing
| CmdUnknown string

definition run :: "string list \<Rightarrow> command" where
  "run args =
     (case args of
        [] \<Rightarrow> CmdMissing
      | [_] \<Rightarrow> CmdMissing
      | _ # c # rest \<Rightarrow>
          if c = ''server'' then CmdServer rest
          else if c = ''migrate'' then CmdMigrate rest
          else if c = ''version'' then CmdVersion
          else if c = ''help'' \<or> c = ''-h'' \<or> c = ''--help'' then CmdHelp
          else CmdUnknown c)"

text \<open>The flags as parsed, the environment variables, the file system and the TOML decoder are given.\<close>

definition loadConfig ::
  "(string \<Rightarrow> stat_result) \<Rightarrow> (string \<Rightarrow> config \<Rightarrow> config option) \<Rightarrow> string \<Rightarrow> string \<Rightarrow>
     string \<Rightarrow> string \<Rightarrow> config_error + (config \<times> string)" where
  "loadConfig st decode env_config env_db config_flag db_flag =
     (let path = ConfigFilePath config_flag env_config in
      case Load (st path) (decode path) env_db path of
        Inl e \<Rightarrow> Inl e
      | Inr cfg \<Rightarrow> Inr (cfg, if db_flag \<noteq> [] then db_flag else c_db_path cfg))"

subsection \<open>What cmdServer builds\<close>

definition server_pool_config :: "config \<Rightarrow> registry \<Rightarrow> pool_config" where
  "server_pool_config cfg reg =
     \<lparr>pc_registry = reg, pc_config = cfg, pc_queue = ''default'', pc_concurrency = c_global cfg,
      pc_interval = 300000000\<rparr>"

definition server_scheduler :: scheduler where
  "server_scheduler =
     New \<lparr>sc_RetryInterval = 0, sc_ScanInterval = 0, sc_HeartbeatCutoff = 0, sc_TaskPollInterval = 0\<rparr>"

text \<open>Interference by other goroutines: anything calls to the store can do.\<close>

definition by_calls :: "config \<Rightarrow> (nat \<Rightarrow> db \<Rightarrow> db) \<Rightarrow> bool" where
  "by_calls cfg f \<longleftrightarrow> (\<forall>k x. reachable cfg any_call x \<longrightarrow> reachable cfg any_call (f k x))"

inductive system :: "config \<Rightarrow> registry \<Rightarrow> cron_parser \<Rightarrow> db \<Rightarrow> bool" for cfg reg parse where
  boot: "system cfg reg parse empty_db"
| pool: "system cfg reg parse d \<Longrightarrow> fresh_worker_id env d \<Longrightarrow>
    NewPool store_ops env (server_pool_config cfg reg) d = (r, d') \<Longrightarrow> system cfg reg parse d'"
| cycle: "system cfg reg parse d \<Longrightarrow> by_calls cfg (r_other p) \<Longrightarrow>
    pl_config pl = pool_defaults (server_pool_config cfg reg) \<Longrightarrow>
    RunOnce store_ops p (run_config_of pl) d = (res, d') \<Longrightarrow> system cfg reg parse d'"
| init_schedules: "system cfg reg parse d \<Longrightarrow> by_calls cfg (p_other p) \<Longrightarrow>
    initSchedules sched_ops parse p d = (d', es) \<Longrightarrow> system cfg reg parse d'"
| poll_schedules: "system cfg reg parse d \<Longrightarrow> by_calls cfg (p_other p) \<Longrightarrow>
    poll sched_ops parse p d = (d', es) \<Longrightarrow> system cfg reg parse d'"
| sweep: "system cfg reg parse d \<Longrightarrow> by_calls cfg (p_other p) \<Longrightarrow>
    scan sched_ops (sch_cutoff server_scheduler) p d = (d', es) \<Longrightarrow> system cfg reg parse d'"
| requeue: "system cfg reg parse d \<Longrightarrow> by_calls cfg (p_other p) \<Longrightarrow>
    retry_run sched_ops [Tick p] d = (d', es) \<Longrightarrow> system cfg reg parse d'"
| request: "system cfg reg parse d \<Longrightarrow> by_calls cfg (q_other q) \<Longrightarrow>
    fresh_worker_id (q_env q 0) (q_other q 0 d) \<Longrightarrow>
    serve api_ops cfg q rq d = (resp, d') \<Longrightarrow> system cfg reg parse d'"

text \<open>An example: the pool registers, a task is posted, a cycle runs it.\<close>

definition demo_post :: request where
  "demo_post = PostTasks (Inr \<lparr>ctr_type = ''email'', ctr_queue = [], ctr_payload = None, ctr_priority = 0,
     ctr_max_retries = 0, ctr_timeout_secs = None, ctr_run_at = None\<rparr>)"

definition demo_cfg :: config where
  "demo_cfg = defaults\<lparr>c_db_path := ''erminetq.db''\<rparr>"

definition pool_db :: db where
  "pool_db = snd (NewPool store_ops (demo_env 1) (server_pool_config demo_cfg demo_registry) empty_db)"

definition posted_db :: db where
  "posted_db = snd (serve api_ops demo_cfg (demo_api\<lparr>q_env := (\<lambda>k. demo_env 2)\<rparr>) demo_post pool_db)"

definition worked_db :: db where
  "worked_db = snd (RunOnce store_ops demo_cycle
     (run_config_of \<lparr>pl_worker = ''i'', pl_config = pool_defaults (server_pool_config demo_cfg demo_registry)\<rparr>) posted_db)"

subsection \<open>The system stays among the reachable databases\<close>

lemma NewPool_reachable:
  assumes "reachable cfg any_call d" and "fresh_worker_id env d" and "NewPool store_ops env pc d = (r, d')"
  shows "reachable cfg any_call d'"
proof -
  have "reachable cfg any_call (db_of (CreateWorker env wi d))" for wi
    using reachable.call [OF assms(1), of env "OpCreateWorker wi"] assms(2)
    by (simp add: uuid_ok_def fresh_worker_id_def list_all_iff)
  then show ?thesis
    using assms(3) by (auto simp: NewPool_def Let_def store_ops_simps split: prod.splits sum.splits) (metis snd_conv fst_conv)+
qed

lemma loadConfig_valid: "loadConfig st decode ec ed cf df = Inr (cfg, path) \<Longrightarrow> validate cfg = None"
  by (auto simp: loadConfig_def Let_def split: sum.splits dest: Load_valid)

lemma system_reachable: "system cfg reg parse d \<Longrightarrow> reachable cfg any_call d"
proof (induction rule: system.induct)
  case boot
  show ?case by (rule reachable.init)
next
  case (pool d env r d')
  then show ?case by (blast intro: NewPool_reachable)
next
  case (cycle d p pl res d')
  have "rc_config (run_config_of pl) = cfg"
    using cycle.hyps(3) by (simp add: run_config_of_def pool_defaults_def server_pool_config_def)
  then show ?case
    using cycle by (intro pool_store.RunOnce_ok [OF cycle.IH _ _ cycle.hyps(4)]) (auto simp: by_calls_def)
next
  case (init_schedules d p d' es)
  then show ?case using scheds.passes_ok [of cfg d p parse] by (auto simp: by_calls_def)
next
  case (poll_schedules d p d' es)
  then show ?case using scheds.passes_ok [of cfg d p parse] by (auto simp: by_calls_def)
next
  case (sweep d p d' es)
  then show ?case using scheds.passes_ok [of cfg d p parse "sch_cutoff server_scheduler"] by (auto simp: by_calls_def)
next
  case (requeue d p d' es)
  then show ?case using scheds.passes_ok [of cfg d p parse] by (auto simp: by_calls_def)
next
  case (request d q rq resp d')
  then show ?case
    using api.serve_handled [of cfg d q False rq] by (auto simp: by_calls_def handled_def)
qed

end
