(* ===== verification/ETQ_Writer.thy ===== *)
theory ETQ_Writer
  imports ETQ_Runs
begin

section \<open>The write queue (internal/store/store.go)\<close>

text \<open>
  \<open>write\<close>, \<open>writeLoop\<close> and \<open>Close\<close> with all their goroutines.  The state has what they share: the
  buffered channel \<open>writeCh\<close>, whether \<open>closeCh\<close> is closed, where \<open>writeLoop\<close> stands, the result
  channel of every call and how far every call of \<open>write\<close> has come; and three histories the code
  does not keep, the calls accepted, executed and drained, in order.  A call is a number; \<open>req\<close>
  says with what environment and body it was made.

  One action is one communication: a case of a \<open>select\<close> that some goroutine takes.  Where several
  cases are ready Go chooses any, so every enabled action is a possible next one.  \<open>CtxOver\<close> is the
  environment ending the context of a call.
\<close>

datatype 'a caller = Sending | Waiting | Returned "err + 'a"

datatype loop_state = Selecting | Draining | Exited

record 'a writer =
  wq_db :: db
  wq_ch :: "nat list"
  wq_closed :: bool
  wq_loop :: loop_state
  wq_res :: "nat \<Rightarrow> (err + 'a) option"
  wq_caller :: "nat \<Rightarrow> 'a caller"
  wq_over :: "nat \<Rightarrow> bool"
  wq_sent :: "nat list"
  wq_log :: "nat list"
  wq_dropped :: "nat list"

type_synonym 'a requests = "nat \<Rightarrow> env \<times> 'a tx"

definition write_cap :: nat where "write_cap = 64"

text \<open>The store as \<open>Open\<close> leaves it: an empty channel, the loop at its \<open>select\<close>.\<close>

definition open_store :: "db \<Rightarrow> 'a writer" where
  "open_store d = \<lparr>wq_db = d, wq_ch = [], wq_closed = False, wq_loop = Selecting,
     wq_res = (\<lambda>_. None), wq_caller = (\<lambda>_. Sending), wq_over = (\<lambda>_. False),
     wq_sent = [], wq_log = [], wq_dropped = []\<rparr>"

datatype write_action =
  Send nat | SendCtx nat | SendClosed nat | Receive nat | ReceiveCtx nat
| Exec | SeeClose | DrainOne | DrainEnd | CloseStore | CtxOver nat

definition return_to :: "nat \<Rightarrow> err + 'a \<Rightarrow> 'a writer \<Rightarrow> 'a writer" where
  "return_to k r w = w\<lparr>wq_caller := (wq_caller w)(k := Returned r)\<rparr>"

text \<open>The cases of the two selects of \<open>write\<close>.\<close>

definition send :: "nat \<Rightarrow> 'a writer \<Rightarrow> 'a writer option" where
  "send k w =
     (if wq_caller w k = Sending \<and> length (wq_ch w) < write_cap
      then Some (w\<lparr>wq_ch := wq_ch w @ [k], wq_sent := wq_sent w @ [k],
                   wq_caller := (wq_caller w)(k := Waiting)\<rparr>)
      else None)"

definition receive :: "nat \<Rightarrow> 'a writer \<Rightarrow> 'a writer option" where
  "receive k w =
     (if wq_caller w k = Waiting
      then (case wq_res w k of
              Some r \<Rightarrow> Some (return_to k r (w\<lparr>wq_res := (wq_res w)(k := None)\<rparr>))
            | None \<Rightarrow> None)
      else None)"

definition give_up :: "'a caller \<Rightarrow> bool \<Rightarrow> err \<Rightarrow> nat \<Rightarrow> 'a writer \<Rightarrow> 'a writer option" where
  "give_up at ready e k w =
     (if wq_caller w k = at \<and> ready then Some (return_to k (Inl e) w) else None)"

text \<open>The cases of \<open>writeLoop\<close>: execute the next request, see the close, drain, return.\<close>

definition exec_next :: "'a requests \<Rightarrow> 'a writer \<Rightarrow> 'a writer option" where
  "exec_next req w =
     (case wq_ch w of
        k # ks \<Rightarrow>
          if wq_loop w = Selecting then
            (case execTx (fst (req k)) (snd (req k)) (wq_db w) of
               (r, d') \<Rightarrow> Some (w\<lparr>wq_db := d', wq_ch := ks, wq_res := (wq_res w)(k := Some r),
                                wq_log := wq_log w @ [k]\<rparr>))
          else None
      | [] \<Rightarrow> None)"

definition drain_next :: "'a writer \<Rightarrow> 'a writer option" where
  "drain_next w =
     (case wq_ch w of
        k # ks \<Rightarrow>
          if wq_loop w = Draining
          then Some (w\<lparr>wq_ch := ks, wq_res := (wq_res w)(k := Some (Inl ErrStoreClosing)),
                       wq_dropped := wq_dropped w @ [k]\<rparr>)
          else None
      | [] \<Rightarrow> None)"

fun write_act :: "'a requests \<Rightarrow> write_action \<Rightarrow> 'a writer \<Rightarrow> 'a writer option" where
  "write_act req (Send k) w = send k w"
| "write_act req (SendCtx k) w = give_up Sending (wq_over w k) ErrCtx k w"
| "write_act req (SendClosed k) w = give_up Sending (wq_closed w) ErrStoreClosing k w"
| "write_act req (Receive k) w = receive k w"
| "write_act req (ReceiveCtx k) w = give_up Waiting (wq_over w k) ErrCtx k w"
| "write_act req Exec w = exec_next req w"
| "write_act req SeeClose w =
     (if wq_loop w = Selecting \<and> wq_closed w then Some (w\<lparr>wq_loop := Draining\<rparr>) else None)"
| "write_act req DrainOne w = drain_next w"
| "write_act req DrainEnd w =
     (if wq_loop w = Draining \<and> wq_ch w = [] then Some (w\<lparr>wq_loop := Exited\<rparr>) else None)"
| "write_act req CloseStore w = Some (w\<lparr>wq_closed := True\<rparr>)"
| "write_act req (CtxOver k) w = Some (w\<lparr>wq_over := (wq_over w)(k := True)\<rparr>)"

fun write_run :: "'a requests \<Rightarrow> write_action list \<Rightarrow> 'a writer \<Rightarrow> 'a writer option" where
  "write_run req [] w = Some w"
| "write_run req (a # as) w =
     (case write_act req a w of None \<Rightarrow> None | Some w' \<Rightarrow> write_run req as w')"

inductive write_reach :: "'a requests \<Rightarrow> 'a writer \<Rightarrow> 'a writer \<Rightarrow> bool" for req w where
  start: "write_reach req w w"
| act: "write_reach req w w' \<Longrightarrow> write_act req a w' = Some w'' \<Longrightarrow> write_reach req w w''"

text \<open>
  The contract: the requests executed, one after the other, each as one transaction on what the
  requests before it left.
\<close>

definition serial_db :: "'a requests \<Rightarrow> nat list \<Rightarrow> db \<Rightarrow> db" where
  "serial_db req ks d = fold (\<lambda>k d. snd (execTx (fst (req k)) (snd (req k)) d)) ks d"

text \<open>The database request \<open>k\<close> found when its turn came.\<close>

definition db_at :: "'a requests \<Rightarrow> nat list \<Rightarrow> db \<Rightarrow> nat \<Rightarrow> db" where
  "db_at req ks d k = serial_db req (takeWhile (\<lambda>j. j \<noteq> k) ks) d"

definition answer :: "'a requests \<Rightarrow> db \<Rightarrow> 'a writer \<Rightarrow> nat \<Rightarrow> err + 'a \<Rightarrow> bool" where
  "answer req d0 w k r \<longleftrightarrow>
     (if k \<in> set (wq_log w)
      then r = fst (execTx (fst (req k)) (snd (req k)) (db_at req (wq_log w) d0 k))
      else r = Inl ErrStoreClosing \<and> wq_closed w \<and> k \<notin> set (wq_ch w))"

definition queue_inv :: "'a requests \<Rightarrow> db \<Rightarrow> 'a writer \<Rightarrow> bool" where
  "queue_inv req d0 w \<longleftrightarrow>
     wq_db w = serial_db req (wq_log w) d0 \<and>
     wq_sent w = wq_log w @ wq_dropped w @ wq_ch w \<and> distinct (wq_sent w) \<and>
     length (wq_ch w) \<le> write_cap \<and>
     (wq_loop w = Selecting \<longrightarrow> wq_dropped w = []) \<and>
     (wq_loop w \<noteq> Selecting \<longrightarrow> wq_closed w)"

text \<open>How far call \<open>k\<close> has come, and what it may have been told.\<close>

definition call_inv :: "'a requests \<Rightarrow> db \<Rightarrow> 'a writer \<Rightarrow> nat \<Rightarrow> bool" where
  "call_inv req d0 w k \<longleftrightarrow>
     (case wq_caller w k of
        Sending \<Rightarrow> k \<notin> set (wq_sent w) \<and> wq_res w k = None
      | Waiting \<Rightarrow> k \<in> set (wq_sent w) \<and>
          (case wq_res w k of None \<Rightarrow> k \<in> set (wq_ch w) | Some r \<Rightarrow> answer req d0 w k r)
      | Returned r \<Rightarrow> answer req d0 w k r \<or> r = Inl ErrCtx \<and> wq_over w k)"

text \<open>
  An example: two calls that create a task each; the second enters first, and its context ends
  while it waits.
\<close>

definition demo_requests :: "task requests" where
  "demo_requests k = (demo_env (20 + int k), create_task_tx (demo_env (20 + int k)) demo_task)"

definition demo_actions :: "write_action list" where
  "demo_actions = [Send 1, CtxOver 1, Send 0, ReceiveCtx 1, Exec, Exec, Receive 0]"

subsection \<open>The invariant\<close>

lemma serial_db_append [simp]: "serial_db req (ks @ [k]) d =
    snd (execTx (fst (req k)) (snd (req k)) (serial_db req ks d))"
  by (simp add: serial_db_def)

lemma serial_db_Nil [simp]: "serial_db req [] d = d"
  by (simp add: serial_db_def)

lemma db_at_old: "k \<in> set ks \<Longrightarrow> db_at req (ks @ [j]) d k = db_at req ks d k"
  by (simp add: db_at_def)

lemma db_at_new: "k \<notin> set ks \<Longrightarrow> db_at req (ks @ [k]) d k = serial_db req ks d"
  by (simp add: db_at_def takeWhile_append takeWhile_eq_all_conv)

lemmas write_act_defs = send_def receive_def give_up_def exec_next_def drain_next_def return_to_def

lemma sending_unsent: "call_inv req d0 w k \<Longrightarrow> wq_caller w k = Sending \<Longrightarrow> k \<notin> set (wq_sent w)"
  by (simp add: call_inv_def)

lemma queue_inv_send:
  assumes "queue_inv req d0 w" and "send k w = Some w'" and "call_inv req d0 w k"
  shows "queue_inv req d0 w'"
  using assms(1,2) sending_unsent [OF assms(3)]
  by (auto simp: queue_inv_def send_def split: if_splits)

lemma queue_inv_exec:
  "queue_inv req d0 w \<Longrightarrow> exec_next req w = Some w' \<Longrightarrow> queue_inv req d0 w'"
  by (auto simp: queue_inv_def exec_next_def split: list.splits prod.splits if_splits)

lemma queue_inv_drain:
  "queue_inv req d0 w \<Longrightarrow> drain_next w = Some w' \<Longrightarrow> queue_inv req d0 w'"
  by (auto simp: queue_inv_def drain_next_def split: list.splits if_splits)

text \<open>Every action keeps the invariant of the queue.\<close>

lemma queue_inv_act:
  assumes "queue_inv req d0 w" and "write_act req a w = Some w'" and "\<And>k. call_inv req d0 w k"
  shows "queue_inv req d0 w'"
proof (cases a)
  case (Send k)
  with assms show ?thesis by (auto intro: queue_inv_send)
next
  case Exec
  with assms show ?thesis by (auto intro: queue_inv_exec)
next
  case DrainOne
  with assms show ?thesis by (auto intro: queue_inv_drain)
qed (use assms(1,2) in
  \<open>auto simp: queue_inv_def receive_def give_up_def return_to_def split: if_splits option.splits\<close>)

text \<open>And every action keeps what holds of every call.\<close>

lemma call_inv_send:
  "call_inv req d0 w k \<Longrightarrow> send j w = Some w' \<Longrightarrow> call_inv req d0 w' k"
  by (auto simp: call_inv_def send_def answer_def split: if_splits caller.splits option.splits)

lemma call_inv_receive:
  "call_inv req d0 w k \<Longrightarrow> receive j w = Some w' \<Longrightarrow> call_inv req d0 w' k"
  by (auto simp: call_inv_def receive_def return_to_def answer_def
      split: if_splits caller.splits option.splits)

lemma call_inv_return:
  assumes "call_inv req d0 w k"
    and "answer req d0 w j r \<or> r = Inl ErrCtx \<and> wq_over w j"
  shows "call_inv req d0 (return_to j r w) k"
proof -
  have "answer req d0 (return_to j r w) = answer req d0 w"
    by (intro ext) (simp add: return_to_def answer_def)
  with assms show ?thesis
    by (cases "k = j"; cases "wq_caller w k"; cases "wq_res w k")
      (simp_all add: call_inv_def return_to_def)
qed

lemma call_inv_give_up:
  assumes "call_inv req d0 w k" and "give_up st ready e j w = Some w'"
    and "ready \<Longrightarrow> wq_caller w j = st \<Longrightarrow> answer req d0 w j (Inl e) \<or> e = ErrCtx \<and> wq_over w j"
  shows "call_inv req d0 w' k"
proof -
  have "w' = return_to j (Inl e) w" "ready" "wq_caller w j = st"
    using assms(2) by (simp_all add: give_up_def split: if_splits)
  with assms(1,3) show ?thesis by (simp add: call_inv_return)
qed

lemma answer_closed:
  assumes "queue_inv req d0 w" and "call_inv req d0 w j" and "wq_caller w j = Sending" and "wq_closed w"
  shows "answer req d0 w j (Inl ErrStoreClosing)"
  using sending_unsent [OF assms(2,3)] assms(1,4) by (simp add: answer_def queue_inv_def)

lemma call_inv_exec:
  assumes "call_inv req d0 w k" and "exec_next req w = Some w'" and "queue_inv req d0 w"
  shows "call_inv req d0 w' k"
proof -
  obtain j ks r d' where
    w: "wq_ch w = j # ks" "execTx (fst (req j)) (snd (req j)) (wq_db w) = (r, d')"
      "w' = w\<lparr>wq_db := d', wq_ch := ks, wq_res := (wq_res w)(j := Some r), wq_log := wq_log w @ [j]\<rparr>"
    using assms(2) by (auto simp: exec_next_def split: list.splits prod.splits if_splits)
  have fresh: "j \<notin> set (wq_log w)" "j \<notin> set ks" "j \<in> set (wq_sent w)" "wq_db w = serial_db req (wq_log w) d0"
    using assms(3) w(1) by (auto simp: queue_inv_def)
  show ?thesis
  proof (cases "k = j")
    case True
    have "\<not> answer req d0 w k r'" for r' using True fresh(1) w(1) by (simp add: answer_def)
    moreover have "answer req d0 w' k r" using True fresh w by (simp add: answer_def db_at_new)
    ultimately show ?thesis
      using True assms(1) w fresh by (auto simp: call_inv_def split: caller.splits)
  next
    case False
    then have "answer req d0 w k r' \<Longrightarrow> answer req d0 w' k r'" for r'
      using w by (auto simp: answer_def db_at_old)
    then show ?thesis
      using False assms(1) w by (auto simp: call_inv_def split: caller.splits option.splits)
  qed
qed

lemma call_inv_drain:
  assumes "call_inv req d0 w k" and "drain_next w = Some w'" and "queue_inv req d0 w"
  shows "call_inv req d0 w' k"
proof -
  obtain j ks where w: "wq_ch w = j # ks" "wq_loop w = Draining"
      "w' = w\<lparr>wq_ch := ks, wq_res := (wq_res w)(j := Some (Inl ErrStoreClosing)),
              wq_dropped := wq_dropped w @ [j]\<rparr>"
    using assms(2) by (auto simp: drain_next_def split: list.splits if_splits)
  have fresh: "j \<notin> set (wq_log w)" "j \<notin> set ks" "j \<in> set (wq_sent w)" "wq_closed w"
    using assms(3) w(1,2) by (auto simp: queue_inv_def)
  show ?thesis
  proof (cases "k = j")
    case True
    have "answer req d0 w' k (Inl ErrStoreClosing)"
      "answer req d0 w k r' \<Longrightarrow> answer req d0 w' k r'" for r'
      using True fresh w by (auto simp: answer_def)
    then show ?thesis
      using True assms(1) w fresh by (auto simp: call_inv_def split: caller.splits)
  next
    case False
    then have "answer req d0 w k r' \<Longrightarrow> answer req d0 w' k r'" for r'
      using w by (auto simp: answer_def split: if_splits)
    then show ?thesis
      using False assms(1) w by (auto simp: call_inv_def split: caller.splits option.splits)
  qed
qed

lemma call_inv_frame:
  assumes "call_inv req d0 w k" and "wq_caller w' = wq_caller w" and "wq_res w' = wq_res w"
    and "wq_sent w' = wq_sent w" and "wq_log w' = wq_log w" and "wq_ch w' = wq_ch w"
    and "wq_closed w \<Longrightarrow> wq_closed w'" and "\<And>j. wq_over w j \<Longrightarrow> wq_over w' j"
  shows "call_inv req d0 w' k"
proof -
  have ans: "answer req d0 w k r \<Longrightarrow> answer req d0 w' k r" for r
    using assms(5-7) by (simp add: answer_def split: if_splits)
  show ?thesis
    using assms(1-4,6,8) ans by (cases "wq_caller w k") (auto simp: call_inv_def split: option.splits)
qed

lemma call_inv_act:
  assumes "\<And>k. call_inv req d0 w k" and "write_act req a w = Some w'" and "queue_inv req d0 w"
  shows "call_inv req d0 w' k"
proof (cases a)
  case (Send j)
  with assms show ?thesis by (auto intro: call_inv_send)
next
  case (Receive j)
  with assms show ?thesis by (auto intro: call_inv_receive)
next
  case (SendCtx j)
  then show ?thesis using assms(2) by (auto intro: call_inv_give_up [OF assms(1)])
next
  case (SendClosed j)
  then show ?thesis
    using assms(2) by (auto intro: call_inv_give_up [OF assms(1)] answer_closed [OF assms(3,1)])
next
  case (ReceiveCtx j)
  then show ?thesis using assms(2) by (auto intro: call_inv_give_up [OF assms(1)])
next
  case Exec
  with assms show ?thesis by (auto intro: call_inv_exec)
next
  case DrainOne
  with assms show ?thesis by (auto intro: call_inv_drain)
next
  case SeeClose
  with assms(2) show ?thesis by (intro call_inv_frame [OF assms(1)]) (auto split: if_splits)
next
  case DrainEnd
  with assms(2) show ?thesis by (intro call_inv_frame [OF assms(1)]) (auto split: if_splits)
next
  case CloseStore
  with assms(2) show ?thesis by (intro call_inv_frame [OF assms(1)]) auto
next
  case (CtxOver j)
  with assms(2) show ?thesis by (intro call_inv_frame [OF assms(1)]) auto
qed

lemma write_reach_inv:
  "write_reach req (open_store d0) w \<Longrightarrow> queue_inv req d0 w \<and> (\<forall>k. call_inv req d0 w k)"
proof (induction rule: write_reach.induct)
  case start
  show ?case by (simp add: open_store_def queue_inv_def call_inv_def)
next
  case (act w' a w'')
  then have inv: "queue_inv req d0 w'" "\<And>k. call_inv req d0 w' k" by simp_all
  show ?case using queue_inv_act [OF inv(1) act.hyps(2) inv(2)] call_inv_act [OF inv(2) act.hyps(2) inv(1)]
    by simp
qed

subsection \<open>What the queue promises its callers\<close>

lemma execTx_fate: "execTx (env\<lparr>e_fate := f\<rparr>) fn d = execTx env fn d"
  by (simp add: execTx_def split: sum.split prod.split)

text \<open>C13: The goroutines around the write queue serialise: the database is what the executed requests,
  each one transaction, make of the initial one in the order they were accepted, none of them twice;
  and every call that has returned was answered as write answers one caller alone, run at its
  turn, for some fate of the call: served, or given up on while its request was executed, or not
  executed.\<close>

theorem writes_serialise:
  assumes "write_reach req (open_store d0) w"
  shows "wq_db w = serial_db req (wq_log w) d0 \<and> distinct (wq_log w) \<and>
    wq_sent w = wq_log w @ wq_dropped w @ wq_ch w \<and> length (wq_ch w) \<le> 64 \<and>
    (wq_caller w k = Returned r \<longrightarrow>
       (\<exists>f. (k \<in> set (wq_log w) \<longleftrightarrow> f \<in> {Served, CtxWhileWaiting}) \<and>
            store_write ((fst (req k))\<lparr>e_fate := f\<rparr>) (snd (req k)) (db_at req (wq_log w) d0 k) =
              (r, if k \<in> set (wq_log w)
                  then snd (execTx (fst (req k)) (snd (req k)) (db_at req (wq_log w) d0 k))
                  else db_at req (wq_log w) d0 k)))"
proof -
  have q: "queue_inv req d0 w" and c: "call_inv req d0 w k"
    using write_reach_inv [OF assms] by simp_all
  have "\<exists>f. (k \<in> set (wq_log w) \<longleftrightarrow> f \<in> {Served, CtxWhileWaiting}) \<and>
      store_write ((fst (req k))\<lparr>e_fate := f\<rparr>) (snd (req k)) x =
        (r, if k \<in> set (wq_log w) then snd (execTx (fst (req k)) (snd (req k)) x) else x)"
    if "wq_caller w k = Returned r" and x: "x = db_at req (wq_log w) d0 k" for x
  proof -
    from c that(1) consider (served) "k \<in> set (wq_log w)" "r = fst (execTx (fst (req k)) (snd (req k)) x)"
      | (late) "k \<in> set (wq_log w)" "r = Inl ErrCtx" | (closing) "k \<notin> set (wq_log w)" "r = Inl ErrStoreClosing"
      | (early) "k \<notin> set (wq_log w)" "r = Inl ErrCtx"
      by (auto simp: call_inv_def answer_def x split: if_splits)
    then show ?thesis
    proof cases
      case served
      then show ?thesis
        by (intro exI [of _ Served]) (simp add: store_write_def execTx_fate)
    next
      case late
      then show ?thesis
        by (intro exI [of _ CtxWhileWaiting]) (simp add: store_write_def execTx_fate)
    next
      case closing
      then show ?thesis by (intro exI [of _ StoreClosing]) (simp add: store_write_def)
    next
      case early
      then show ?thesis by (intro exI [of _ CtxBeforeAccept]) (simp add: store_write_def)
    qed
  qed
  with q show ?thesis by (auto simp: queue_inv_def write_cap_def)
qed

text \<open>A run of the queue is made of its actions.\<close>

lemma write_run_reach:
  "write_reach req w0 w \<Longrightarrow> write_run req as w = Some w' \<Longrightarrow> write_reach req w0 w'"
  by (induction as arbitrary: w) (auto split: option.splits intro: write_reach.act)

lemma write_run_reach0:
  "write_run req as w = Some w' \<Longrightarrow> write_reach req w w'"
  by (rule write_run_reach [OF write_reach.start])

lemma writes_serialise_witness:
  "\<exists>w. write_run demo_requests demo_actions (open_store queued_db) = Some w \<and>
     wq_db w = serial_db demo_requests [1, 0] queued_db \<and>
     length (d_tasks (wq_db w)) = length (d_tasks queued_db) + 2 \<and> wq_caller w 1 = Returned (Inl ErrCtx)"
proof -
  define w where "w = the (write_run demo_requests demo_actions (open_store queued_db))"
  have run: "write_run demo_requests demo_actions (open_store queued_db) = Some w"
    unfolding w_def by (rule some_the) code_simp
  have "wq_log w = [1, 0]" "length (d_tasks (wq_db w)) = length (d_tasks queued_db) + 2"
    "wq_caller w 1 = Returned (Inl ErrCtx)" unfolding w_def by code_simp+
  with run writes_serialise [OF write_run_reach0 [OF run], of 1 "Inl ErrCtx"] show ?thesis by simp
qed

subsection \<open>Closing\<close>

lemma write_run_append:
  "write_run req (as @ bs) w =
     (case write_run req as w of None \<Rightarrow> None | Some w' \<Rightarrow> write_run req bs w')"
  by (induction as arbitrary: w) (auto split: option.split)

text \<open>The actions of \<open>writeLoop\<close>, and how many of them the loop still has before it when nothing more is sent.\<close>

fun of_loop :: "write_action \<Rightarrow> bool" where
  "of_loop Exec = True"
| "of_loop SeeClose = True"
| "of_loop DrainOne = True"
| "of_loop DrainEnd = True"
| "of_loop a = False"

fun sends :: "write_action \<Rightarrow> bool" where
  "sends (Send k) = True"
| "sends a = False"

definition loop_left :: "'a writer \<Rightarrow> nat" where
  "loop_left w = length (wq_ch w) + (case wq_loop w of Selecting \<Rightarrow> 2 | Draining \<Rightarrow> 1 | Exited \<Rightarrow> 0)"

lemma loop_left_act:
  assumes "write_act req a w = Some w'"
  shows "of_bool (of_loop a) + loop_left w' \<le> loop_left w + of_bool (sends a)"
  using assms
  by (cases a) (auto simp: loop_left_def write_act_defs split: if_splits option.splits list.splits prod.splits)

lemma loop_left_run:
  "write_run req bs w = Some w' \<Longrightarrow>
   length (filter of_loop bs) + loop_left w' \<le> loop_left w + length (filter sends bs)"
proof (induction bs arbitrary: w)
  case (Cons a bs)
  from Cons.prems obtain w1 where w1: "write_act req a w = Some w1" "write_run req bs w1 = Some w'"
    by (auto split: option.splits)
  show ?case using loop_left_act [OF w1(1)] Cons.IH [OF w1(2)] by auto
qed simp

text \<open>What lasts from a state of the queue on: the close, what was sent, and, once the close is seen, the database.\<close>

definition later :: "'a writer \<Rightarrow> 'a writer \<Rightarrow> bool" where
  "later w v \<longleftrightarrow> (wq_closed w \<longrightarrow> wq_closed v) \<and> set (wq_sent w) \<subseteq> set (wq_sent v) \<and>
     (wq_loop w \<noteq> Selecting \<longrightarrow> wq_loop v \<noteq> Selecting \<and> wq_log v = wq_log w \<and> wq_db v = wq_db w) \<and>
     (wq_loop w \<noteq> Exited \<and> wq_loop v = Exited \<longrightarrow> set (wq_sent w) \<inter> set (wq_ch v) = {})"

lemma later_act:
  assumes "later w v" and "write_act req a v = Some v'" and "\<And>k. call_inv req d0 v k"
  shows "later w v'"
proof (cases a)
  case (Send k)
  then have "k \<notin> set (wq_sent w)"
    using assms sending_unsent [OF assms(3)] by (auto simp: later_def send_def split: if_splits)
  then show ?thesis using Send assms(1,2) by (auto simp: later_def send_def split: if_splits)
qed (use assms(1,2) in
  \<open>auto simp: later_def write_act_defs split: if_splits option.splits list.splits prod.splits\<close>)

lemma later_run:
  "write_run req bs v = Some v' \<Longrightarrow> write_reach req (open_store d0) v \<Longrightarrow> later w v \<Longrightarrow> later w v'"
proof (induction bs arbitrary: v)
  case (Cons a bs)
  from Cons.prems(1) obtain v1 where v1: "write_act req a v = Some v1" "write_run req bs v1 = Some v'"
    by (auto split: option.splits)
  have "later w v1" using later_act [OF Cons.prems(3) v1(1)] write_reach_inv [OF Cons.prems(2)] by blast
  then show ?case using Cons.IH [OF v1(2) write_reach.act [OF Cons.prems(2) v1(1)]] by blast
qed simp

lemma loop_enabled:
  assumes "wq_closed w" and "wq_loop w \<noteq> Exited"
  shows "\<exists>a. of_loop a \<and> write_act req a w \<noteq> None"
proof -
  have "write_act req SeeClose w \<noteq> None \<or> write_act req DrainOne w \<noteq> None \<or> write_act req DrainEnd w \<noteq> None"
    using assms by (cases "wq_loop w"; cases "wq_ch w") (simp_all add: drain_next_def)
  then show ?thesis by (metis of_loop.simps(2-4))
qed

text \<open>C35: Close returns: once the store is closing, whatever callers do meanwhile, the loop takes at most
  as many more steps as requests are in the channel or enter it, and two; it can always take one until it has
  exited.  It may still execute a request before it sees the close, and none afterwards.  When it has exited,
  every request that was in the channel is executed or dropped, dropped if the close had been seen; and every
  call that waited has its answer, what its transaction returned if it was executed, ErrStoreClosing if not.\<close>

theorem close_drains:
  assumes "write_reach req (open_store d0) w" and "wq_closed w" and "wq_loop w \<noteq> Exited"
    and "write_run req bs w = Some w'"
  shows "length (filter of_loop bs) \<le> length (wq_ch w) + length (filter sends bs) + 2 \<and>
    (wq_loop w' = Exited \<or> (\<exists>a. of_loop a \<and> write_act req a w' \<noteq> None)) \<and>
    (wq_loop w = Draining \<longrightarrow> wq_log w' = wq_log w \<and> wq_db w' = wq_db w) \<and>
    (wq_loop w' = Exited \<and> k \<in> set (wq_ch w) \<longrightarrow>
       (k \<in> set (wq_log w') \<or> k \<in> set (wq_dropped w')) \<and> (wq_loop w = Draining \<longrightarrow> k \<notin> set (wq_log w'))) \<and>
    (wq_loop w' = Exited \<and> wq_caller w k = Waiting \<and> wq_caller w' k = Waiting \<longrightarrow>
       (\<exists>r. wq_res w' k = Some r \<and> answer req d0 w' k r))"
proof -
  have reach: "write_reach req (open_store d0) w'" by (rule write_run_reach [OF assms(1,4)])
  have q: "queue_inv req d0 w" "call_inv req d0 w k" "queue_inv req d0 w'" "call_inv req d0 w' k"
    using write_reach_inv [OF assms(1)] write_reach_inv [OF reach] by simp_all
  have l: "later w w'" by (rule later_run [OF assms(4,1)]) (use assms(3) in \<open>simp add: later_def\<close>)
  have sent: "k \<in> set (wq_sent w)" if "k \<in> set (wq_ch w) \<or> wq_caller w k = Waiting"
    using that q(1,2) by (auto simp: queue_inv_def call_inv_def)
  have old: "k \<notin> set (wq_log w)" if "k \<in> set (wq_ch w)" using that q(1) by (auto simp: queue_inv_def)
  have gone: "k \<notin> set (wq_ch w')" "k \<in> set (wq_log w') \<or> k \<in> set (wq_dropped w')"
    if "wq_loop w' = Exited" "k \<in> set (wq_sent w)"
    using that l q(3) assms(3) by (auto simp: later_def queue_inv_def)
  have "length (filter of_loop bs) \<le> length (wq_ch w) + length (filter sends bs) + 2"
    using loop_left_run [OF assms(4)] by (cases "wq_loop w") (simp_all add: loop_left_def)
  moreover have "wq_loop w' = Exited \<or> (\<exists>a. of_loop a \<and> write_act req a w' \<noteq> None)"
    using loop_enabled [of w' req] l assms(2) by (auto simp: later_def)
  moreover have "\<exists>r. wq_res w' k = Some r \<and> answer req d0 w' k r"
    if "wq_loop w' = Exited" "wq_caller w k = Waiting" "wq_caller w' k = Waiting"
    using that gone(1) sent q(4) by (auto simp: call_inv_def split: option.splits)
  ultimately show ?thesis using l gone sent old by (auto simp: later_def)
qed

lemma close_drains_witness:
  "\<exists>w w'. write_run demo_requests [Send 1, Send 0, CloseStore] (open_store queued_db) = Some w \<and>
     write_run demo_requests [Exec, SeeClose, Send 2, DrainOne, DrainOne, DrainEnd] w = Some w' \<and>
     wq_loop w' = Exited \<and> wq_log w' = [1] \<and> wq_res w' 0 = Some (Inl ErrStoreClosing)"
proof -
  define w where "w = the (write_run demo_requests [Send 1, Send 0, CloseStore] (open_store queued_db))"
  define w' where "w' = the (write_run demo_requests [Exec, SeeClose, Send 2, DrainOne, DrainOne, DrainEnd] w)"
  have run: "write_run demo_requests [Send 1, Send 0, CloseStore] (open_store queued_db) = Some w"
    unfolding w_def by (rule some_the) code_simp
  have run': "write_run demo_requests [Exec, SeeClose, Send 2, DrainOne, DrainOne, DrainEnd] w = Some w'"
    unfolding w'_def w_def by (rule some_the) code_simp
  have w: "wq_closed w" "wq_loop w = Selecting" "wq_caller w 0 = Waiting" unfolding w_def by code_simp+
  have w': "wq_loop w' = Exited" "wq_log w' = [1]" "wq_caller w' 0 = Waiting" unfolding w'_def w_def by code_simp+
  from close_drains [OF write_run_reach0 [OF run] w(1) _ run', of 0] w w' run run' show ?thesis
    by (auto simp: answer_def simp del: write_run.simps)
qed

text \<open>The second select of write does not look at closeCh, and the channel still has room
  when the loop has returned: a request that enters it then is never answered, and its call of
  write waits for as long as its context lives.\<close>

theorem write_after_close_waits:
  assumes "wq_loop w = Exited" and "wq_caller w k = Sending" and "length (wq_ch w) < 64"
    and "wq_res w k = None"
    and "write_act req (Send k) w = Some w1" and "write_reach req w1 w2" and "\<not> wq_over w2 k"
  shows "wq_caller w2 k = Waiting \<and> wq_res w2 k = None \<and> wq_loop w2 = Exited"
proof -
  define stuck where "stuck v \<longleftrightarrow> wq_loop v = Exited \<and> wq_res v k = None \<and>
    (wq_over v k \<or> wq_caller v k = Waiting)" for v :: "'a writer"
  have "stuck w1" using assms(1,4,5) by (auto simp: stuck_def send_def split: if_splits)
  with assms(6) have "stuck w2"
  proof (induction rule: write_reach.induct)
    case (act w' a w'')
    then show ?case
      by (cases a) (auto simp: stuck_def write_act_defs split: if_splits option.splits list.splits)
  qed simp
  with assms(7) show ?thesis by (simp add: stuck_def)
qed

lemma write_after_close_waits_witness:
  "\<exists>w. write_run demo_requests [CloseStore, SeeClose, DrainEnd, Send 0] (open_store queued_db) = Some w \<and>
     wq_caller w 0 = Waiting \<and> wq_loop w = Exited"
proof -
  define v where "v = the (write_run demo_requests [CloseStore, SeeClose, DrainEnd] (open_store queued_db))"
  define w where "w = the (write_act demo_requests (Send 0) v)"
  have v: "wq_loop v = Exited" "wq_caller v 0 = Sending" "length (wq_ch v) < 64" "Option.is_none (wq_res v 0)"
      "\<not> wq_over w 0"
    unfolding w_def v_def by code_simp+
  have run: "write_run demo_requests [CloseStore, SeeClose, DrainEnd] (open_store queued_db) = Some v"
    "write_act demo_requests (Send 0) v = Some w"
    unfolding w_def v_def by (rule some_the, code_simp)+
  have "write_run demo_requests ([CloseStore, SeeClose, DrainEnd] @ [Send 0]) (open_store queued_db) = Some w"
    using run(2) by (subst write_run_append, subst run(1)) simp
  then have "write_run demo_requests [CloseStore, SeeClose, DrainEnd, Send 0] (open_store queued_db) = Some w"
    by (simp del: write_run.simps)
  moreover have "wq_res v 0 = None" using v(4) by (simp add: Option.is_none_def)
  ultimately show ?thesis
    using write_after_close_waits [OF v(1-3) _ run(2) write_reach.start v(5)] by simp
qed

end
