(* ===== verification/ETQ_Concurrent.thy ===== *)
theory ETQ_Concurrent
  imports ETQ_Writer ETQ_StoreTheorems
begin

section \<open>The store behind its write queue\<close>

text \<open>
  The write queue (ETQ_Writer) executes transactions it knows nothing about; the store machine
  (ETQ_Machine) runs its methods one at a time.  Here the two are put together: the requests in the
  queue are the bodies that the methods of the store hand to \<open>write\<close>.  What is shown is that the
  queue implements the machine: whatever the goroutines of the callers do, in any interleaving, the
  database is one that some sequence of calls leads to, so every invariant of the store holds of it,
  and calls take effect in an order that respects real time.
\<close>

subsection \<open>The bodies of the methods\<close>

text \<open>
  The queue's result type is one for all calls: of a body's value only the events are kept that its
  method emits for it once \<open>write\<close> has returned it.
\<close>

definition announce :: "'a tx \<Rightarrow> ('a \<Rightarrow> sse_event list) \<Rightarrow> sse_event list tx" where
  "announce m evs = bind_tx m (\<lambda>x. ret (evs x))"

definition silently :: "'a tx \<Rightarrow> sse_event list tx" where
  "silently m = announce m (\<lambda>_. [])"

text \<open>The function a method hands to \<open>write\<close>; two methods may return before they come to it.\<close>

fun write_body :: "config \<Rightarrow> env \<Rightarrow> store_call \<Rightarrow> sse_event list tx option" where
  "write_body cfg env (OpCreateTask i) =
     Some (announce (create_task_tx env i) (\<lambda>t. emit env (SSEEvent (t_id t) EvQueued)))"
| "write_body cfg env (OpClaim wid q types) =
     (if types = [] then None
      else Some (announce (claim_tx env cfg wid q types)
                   (\<lambda>r. case r of None \<Rightarrow> [] | Some (t, aid) \<Rightarrow> emit env (SSEEvent (t_id t) EvStarted))))"
| "write_body cfg env (OpSucceed aid r) =
     Some (announce (succeed_tx env aid r) (\<lambda>tid. emit env (SSEEvent tid EvSucceeded)))"
| "write_body cfg env (OpFail aid msg) =
     Some (announce (fail_tx env aid msg) (\<lambda>(tid, ev). emit env (SSEEvent tid ev)))"
| "write_body cfg env (OpCancelAttempt aid) =
     Some (announce (cancel_attempt_tx env aid) (\<lambda>tid. emit env (SSEEvent tid EvCancelled)))"
| "write_body cfg env (OpHeartbeat aid) =
     Some (silently (sql env ''update heartbeat'' (exec (heartbeat_db (fmtDBTime (e_now env)) aid))))"
| "write_body cfg env (OpHalt i) =
     Some (announce (control_tx env i [Running] Halted EvHalted) (\<lambda>_. emit env (SSEEvent i EvHalted)))"
| "write_body cfg env (OpResume i) =
     Some (announce (resume_tx env i) (\<lambda>_. emit env (SSEEvent i EvQueued)))"
| "write_body cfg env (OpCancel i) =
     Some (announce (control_tx env i [Queued, Halted] Cancelled EvCancelled)
             (\<lambda>_. emit env (SSEEvent i EvCancelled)))"
| "write_body cfg env (OpRetry i) =
     Some (announce (retry_tx env i) (\<lambda>_. emit env (SSEEvent i EvQueued)))"
| "write_body cfg env (OpRestart i) =
     Some (announce (restart_tx env i)
             (\<lambda>nt. emit env (SSEEvent i EvSuperseded) @ emit env (SSEEvent (t_id nt) EvQueued)))"
| "write_body cfg env OpRequeue = Some (silently (requeue_tx env))"
| "write_body cfg env (OpTimeout aid) =
     Some (announce (timeout_tx env aid) (\<lambda>tid. emit env (SSEEvent tid EvHeartbeatTimeout)))"
| "write_body cfg env (OpCreateWorker i) = Some (silently (create_worker_tx env i))"
| "write_body cfg env (OpCreateSchedule i) = Some (silently (create_schedule_tx env i))"
| "write_body cfg env (OpUpdateSchedule i inp) =
     (if schedule_sets inp = [] then None else Some (silently (update_schedule_tx env i inp)))"
| "write_body cfg env (OpRecordRun i next_run) = Some (silently (record_run_tx env i next_run))"

text \<open>
  The calls the goroutines make, by number, as requests of the queue.  How a call fares in the queue
  is the queue's to say, so its environment has no fate of its own.
\<close>

definition served_env :: "env \<Rightarrow> env" where "served_env env = env\<lparr>e_fate := Served\<rparr>"

definition store_requests :: "config \<Rightarrow> (nat \<Rightarrow> env) \<Rightarrow> (nat \<Rightarrow> store_call) \<Rightarrow> sse_event list requests" where
  "store_requests cfg env op k =
     (served_env (env k),
      case write_body cfg (served_env (env k)) (op k) of None \<Rightarrow> ret [] | Some fn \<Rightarrow> fn)"

text \<open>The machine's run of the same calls, in the given order.\<close>

definition run_ops :: "config \<Rightarrow> (nat \<Rightarrow> env) \<Rightarrow> (nat \<Rightarrow> store_call) \<Rightarrow> nat list \<Rightarrow> db \<Rightarrow> db" where
  "run_ops cfg env op ks d = fold (\<lambda>k. apply_op cfg (served_env (env k)) (op k)) ks d"

text \<open>The IDs a call draws for a new worker are fresh when its turn comes.\<close>

definition turns_ok :: "config \<Rightarrow> (nat \<Rightarrow> env) \<Rightarrow> (nat \<Rightarrow> store_call) \<Rightarrow> nat list \<Rightarrow> db \<Rightarrow> bool" where
  "turns_ok cfg env op ks d \<longleftrightarrow>
     (\<forall>n < length ks. uuid_ok (env (ks ! n)) (op (ks ! n)) (run_ops cfg env op (take n ks) d))"

text \<open>An example: a worker registers while two tasks are created and the second is claimed.\<close>

definition crowd_ops :: "nat \<Rightarrow> store_call" where
  "crowd_ops k = (if k = 0 then OpCreateTask demo_task else if k = 1 then OpCreateTask demo_task
     else OpClaim ''i'' ''default'' [''email''])"

definition crowd_env :: "nat \<Rightarrow> env" where "crowd_env k = demo_env (20 + int k)"

definition crowd_actions :: "write_action list" where
  "crowd_actions = [Send 1, Send 2, Exec, Send 0, Receive 1, CtxOver 2, Exec, ReceiveCtx 2, Exec, CloseStore]"

subsection \<open>A request is a call\<close>

lemma announce_run:
  "announce m evs d = (case m d of (Inl e, d') \<Rightarrow> (Inl e, d') | (Inr x, d') \<Rightarrow> (Inr (evs x), d'))"
  by (simp add: announce_def bind_tx_def ret_def split: sum.split prod.split)

lemma execTx_announce: "snd (execTx env (announce m evs) d) = snd (execTx env m d)"
  by (simp add: execTx_def announce_run split: sum.split prod.split)

lemma execTx_silently: "snd (execTx env (silently m) d) = snd (execTx env m d)"
  by (simp add: silently_def execTx_announce)

lemma execTx_ret: "snd (execTx env (ret x) d) = d"
  by (simp add: execTx_def ret_def)

lemma store_op_served_db:
  "e_fate env = Served \<Longrightarrow> db_of (store_op env fn on_err evs out d) = snd (execTx env fn d)"
  by (simp add: store_op_def store_write_def split: sum.split prod.split)

lemmas method_defs = CreateTask_def ClaimTask_def SucceedAttempt_def FailAttempt_def CancelAttempt_def
  UpdateHeartbeat_def HaltTask_def ResumeTask_def CancelTask_def RetryTask_def RestartTask_def
  RequeueRetrying_def TimeoutAttempt_def CreateWorker_def CreateSchedule_def UpdateSchedule_def
  RecordScheduleRun_def

lemma UpdateSchedule_db:
  "schedule_sets inp \<noteq> [] \<Longrightarrow> e_fate env = Served \<Longrightarrow>
     db_of (UpdateSchedule env i inp d) = snd (execTx env (update_schedule_tx env i inp) d)"
  using store_op_served_db [of env "update_schedule_tx env i inp" "Wrap ''UpdateSchedule''" "\<lambda>_. []" "\<lambda>n. n" d]
  by (auto simp: UpdateSchedule_def split: prod.splits sum.splits)

lemma write_body_call:
  assumes "e_fate env = Served"
  shows "(case write_body cfg env op of None \<Rightarrow> d | Some fn \<Rightarrow> snd (execTx env fn d)) = apply_op cfg env op d"
proof (cases op)
  case (OpUpdateSchedule i inp)
  show ?thesis
  proof (cases "schedule_sets inp = []")
    case True
    then show ?thesis by (simp add: OpUpdateSchedule UpdateSchedule_def)
  next
    case False
    then show ?thesis by (simp add: OpUpdateSchedule UpdateSchedule_db assms execTx_silently)
  qed
qed (simp_all add: method_defs store_op_served_db assms execTx_announce execTx_silently)

lemma request_is_call:
  "snd (execTx (fst (store_requests cfg env op k)) (snd (store_requests cfg env op k)) d) =
     apply_op cfg (served_env (env k)) (op k) d"
  using write_body_call [where env = "served_env (env k)" and cfg = cfg and op = "op k" and d = d]
  by (simp add: store_requests_def served_env_def execTx_ret split: option.splits)

lemma serial_run_ops: "serial_db (store_requests cfg env op) ks d = run_ops cfg env op ks d"
  by (simp add: serial_db_def run_ops_def request_is_call)

text \<open>The events a method hands to the sink, and that its request leaves just these to its caller.\<close>

fun call_events :: "config \<Rightarrow> env \<Rightarrow> store_call \<Rightarrow> db \<Rightarrow> sse_event list" where
  "call_events cfg env (OpCreateTask i) d = emitted (CreateTask env i d)"
| "call_events cfg env (OpClaim wid q types) d = emitted (ClaimTask env cfg wid q types d)"
| "call_events cfg env (OpSucceed aid r) d = emitted (SucceedAttempt env aid r d)"
| "call_events cfg env (OpFail aid msg) d = emitted (FailAttempt env aid msg d)"
| "call_events cfg env (OpCancelAttempt aid) d = emitted (CancelAttempt env aid d)"
| "call_events cfg env (OpHeartbeat aid) d = emitted (UpdateHeartbeat env aid d)"
| "call_events cfg env (OpHalt i) d = emitted (HaltTask env i d)"
| "call_events cfg env (OpResume i) d = emitted (ResumeTask env i d)"
| "call_events cfg env (OpCancel i) d = emitted (CancelTask env i d)"
| "call_events cfg env (OpRetry i) d = emitted (RetryTask env i d)"
| "call_events cfg env (OpRestart i) d = emitted (RestartTask env i d)"
| "call_events cfg env OpRequeue d = emitted (RequeueRetrying env d)"
| "call_events cfg env (OpTimeout aid) d = emitted (TimeoutAttempt env aid d)"
| "call_events cfg env (OpCreateWorker i) d = emitted (CreateWorker env i d)"
| "call_events cfg env (OpCreateSchedule i) d = emitted (CreateSchedule env i d)"
| "call_events cfg env (OpUpdateSchedule i inp) d = emitted (UpdateSchedule env i inp d)"
| "call_events cfg env (OpRecordRun i next_run) d = emitted (RecordScheduleRun env i next_run d)"

definition told :: "err + sse_event list \<Rightarrow> sse_event list" where
  "told r = (case r of Inl e \<Rightarrow> [] | Inr es \<Rightarrow> es)"

lemma told_announce:
  "e_fate env = Served \<Longrightarrow> told (fst (execTx env (announce m evs) d)) = emitted (store_op env m on_err evs out d)"
  by (simp add: told_def store_op_def store_write_def execTx_def announce_run split: sum.split prod.split)

lemma told_silently: "told (fst (execTx env (silently m) d)) = []"
  by (simp add: told_def silently_def execTx_def announce_run split: sum.split prod.split)

lemma store_op_silent: "emitted (store_op env m on_err (\<lambda>_. []) out d) = []"
  by (simp add: store_op_def split: sum.split prod.split)

lemma UpdateSchedule_silent: "emitted (UpdateSchedule env i inp d) = []"
  using store_op_silent [of env "update_schedule_tx env i inp" "Wrap ''UpdateSchedule''" "\<lambda>n. n" d]
  by (auto simp: UpdateSchedule_def split: prod.splits sum.splits)

lemma write_body_events:
  assumes "e_fate env = Served"
  shows "(case write_body cfg env op of None \<Rightarrow> [] | Some fn \<Rightarrow> told (fst (execTx env fn d))) = call_events cfg env op d"
  by (cases op) (simp_all add: told_announce [OF assms] told_silently store_op_silent UpdateSchedule_silent method_defs
      del: UpdateSchedule_def)

lemma request_events:
  assumes "fst (execTx (fst (store_requests cfg env op k)) (snd (store_requests cfg env op k)) d) = Inr es"
  shows "es = call_events cfg (served_env (env k)) (op k) d"
proof -
  have "told (fst (execTx (served_env (env k)) (ret []) d)) = []" by (simp add: told_def execTx_def ret_def)
  then show ?thesis
    using assms write_body_events [where env = "served_env (env k)" and cfg = cfg and op = "op k" and d = d]
    by (auto simp: store_requests_def served_env_def told_def split: option.splits)
qed

subsection \<open>The queue stays among the reachable databases\<close>

lemma run_ops_append [simp]:
  "run_ops cfg env op (ks @ [k]) d = apply_op cfg (served_env (env k)) (op k) (run_ops cfg env op ks d)"
  "run_ops cfg env op [] d = d"
  by (simp_all add: run_ops_def)

lemma uuid_ok_served [simp]: "uuid_ok (served_env env) op d = uuid_ok env op d"
  by (simp add: uuid_ok_def served_env_def split: store_call.split)

lemma turns_ok_append:
  "turns_ok cfg env op (ks @ [k]) d \<longleftrightarrow>
     turns_ok cfg env op ks d \<and> uuid_ok (env k) (op k) (run_ops cfg env op ks d)"
  by (auto simp: turns_ok_def nth_append less_Suc_eq)

lemma run_ops_reachable:
  "reachable cfg any_call d \<Longrightarrow> turns_ok cfg env op ks d \<Longrightarrow> reachable cfg any_call (run_ops cfg env op ks d)"
  by (induction ks rule: rev_induct) (auto simp: turns_ok_append intro: reachable.call)

text \<open>And nothing that is there gets lost.\<close>

lemma run_ops_base: "base_ok d \<Longrightarrow> base_ok (run_ops cfg env op ks d)"
  by (induction ks rule: rev_induct) (auto intro: apply_op_base)

lemma apply_op_extends: "base_ok d \<Longrightarrow> extends d (apply_op cfg env op d)"
  using run_calls_extends [of d cfg "[(env, op)]"] by simp

lemma run_ops_extends: "base_ok d \<Longrightarrow> extends d (run_ops cfg env op ks d)"
  by (induction ks rule: rev_induct) (auto intro: extends_trans apply_op_extends run_ops_base)

text \<open>The log of the queue only grows at its end.\<close>

lemma log_act: "write_act req a w = Some w' \<Longrightarrow> \<exists>ks. wq_log w' = wq_log w @ ks"
  by (cases a) (auto simp: write_act_defs split: if_splits option.splits list.splits prod.splits)

lemma log_grows: "write_reach req w w' \<Longrightarrow> \<exists>ks. wq_log w' = wq_log w @ ks"
proof (induction rule: write_reach.induct)
  case (act w' a w'')
  then show ?case using log_act [OF act.hyps(2)] by auto
qed simp

lemma write_reach_trans:
  "write_reach req w1 w2 \<Longrightarrow> write_reach req w0 w1 \<Longrightarrow> write_reach req w0 w2"
  by (induction rule: write_reach.induct) (auto intro: write_reach.act)

text \<open>A call that returned a value has been executed.\<close>

lemma returned_value_logged:
  "write_reach req (open_store d0) w \<Longrightarrow> wq_caller w k = Returned (Inr x) \<Longrightarrow> k \<in> set (wq_log w)"
  using write_reach_inv [of req d0 w] by (auto simp: call_inv_def answer_def split: if_splits dest: spec [of _ k])

lemma sent_logged: "write_reach req (open_store d0) w \<Longrightarrow> set (wq_log w) \<subseteq> set (wq_sent w)"
  using write_reach_inv [of req d0 w] by (auto simp: queue_inv_def)

text \<open>C3: The write queue implements the store machine: however the goroutines of the callers are interleaved
  around the queue, wherever contexts end and whenever the store is closed, the database is the one the calls
  executed so far lead to one after the other; these are the calls accepted first, each once and in the order
  in which they entered the queue; and the limits, the keys and the counters of the store hold of it at every
  moment.\<close>

theorem queue_refines_store:
  assumes "write_reach (store_requests cfg env op) (open_store d0) w"
    and "reachable cfg any_call d0" and "turns_ok cfg env op (wq_log w) d0" and "validate cfg = None"
  shows "wq_db w = run_ops cfg env op (wq_log w) d0 \<and>
    wq_log w = take (length (wq_log w)) (wq_sent w) \<and> distinct (wq_sent w) \<and> reachable cfg any_call (wq_db w) \<and>
    running_count (\<lambda>_. True) (wq_db w) \<le> c_global cfg \<and> keys_ok (wq_db w) \<and> loads_ok (wq_db w)"
proof -
  have db: "wq_db w = run_ops cfg env op (wq_log w) d0"
    using write_reach_inv [OF assms(1)] by (simp add: queue_inv_def serial_run_ops)
  have order: "wq_log w = take (length (wq_log w)) (wq_sent w)" "distinct (wq_sent w)"
    using write_reach_inv [OF assms(1)] by (auto simp: queue_inv_def)
  from db have r: "reachable cfg any_call (wq_db w)" using run_ops_reachable [OF assms(2,3)] by simp
  show ?thesis
    using db order r limits_inv.always [OF r] base_inv.always [OF r] loads_inv.always [OF r] assms(4)
    by (auto simp: limits_ok_def validate_None base_ok_def)
qed

lemma queue_refines_store_witness:
  "\<exists>w. write_run (store_requests defaults crowd_env crowd_ops) crowd_actions (open_store queued_db) = Some w \<and>
     wq_log w = [1, 2, 0] \<and> wq_db w = run_ops defaults crowd_env crowd_ops [1, 2, 0] queued_db \<and>
     running_count (\<lambda>_. True) (wq_db w) \<le> 128"
proof -
  define w where "w = the (write_run (store_requests defaults crowd_env crowd_ops) crowd_actions (open_store queued_db))"
  have run: "write_run (store_requests defaults crowd_env crowd_ops) crowd_actions (open_store queued_db) = Some w"
    unfolding w_def by (rule some_the) code_simp
  have log: "wq_log w = [1, 2, 0]" unfolding w_def by code_simp
  have "uuid_ok (crowd_env k) (crowd_ops k) d" for k d by (simp add: uuid_ok_def crowd_ops_def)
  then have "turns_ok defaults crowd_env crowd_ops (wq_log w) queued_db" by (simp add: turns_ok_def)
  moreover have "validate defaults = None" "c_global defaults = 128" by code_simp+
  ultimately show ?thesis
    using run log queue_refines_store [OF write_run_reach0 [OF run] queued_reachable] by auto
qed

text \<open>C14: The write queue is linearisable: a call that returned a value before another one entered the queue
  takes effect before it; what was executed stays executed, and the later database is made from the earlier
  one by the calls executed in between.\<close>

theorem queue_linearises:
  assumes "write_reach (store_requests cfg env op) (open_store d0) w1"
    and "write_reach (store_requests cfg env op) w1 w2"
    and "wq_caller w1 j = Returned (Inr es)" and "k \<notin> set (wq_sent w1)" and "k \<in> set (wq_log w2)"
  shows "\<exists>ks. wq_log w2 = wq_log w1 @ ks \<and> j \<in> set (wq_log w1) \<and> k \<in> set ks \<and>
    wq_db w2 = run_ops cfg env op ks (wq_db w1)"
proof -
  obtain ks where ks: "wq_log w2 = wq_log w1 @ ks" using log_grows [OF assms(2)] by blast
  have "k \<in> set ks" using assms(4,5) sent_logged [OF assms(1)] ks by auto
  moreover have "wq_db w1 = run_ops cfg env op (wq_log w1) d0" "wq_db w2 = run_ops cfg env op (wq_log w2) d0"
    using write_reach_inv [OF assms(1)] write_reach_inv [OF write_reach_trans [OF assms(2,1)]]
    by (simp_all add: queue_inv_def serial_run_ops)
  ultimately show ?thesis
    using ks returned_value_logged [OF assms(1,3)] by (auto simp: run_ops_def)
qed

lemma queue_linearises_witness:
  "\<exists>w1 w2. write_run (store_requests defaults crowd_env crowd_ops) [Send 1, Exec, Receive 1] (open_store queued_db) = Some w1 \<and>
     write_run (store_requests defaults crowd_env crowd_ops) [Send 0, Exec] w1 = Some w2 \<and>
     (\<exists>ks. wq_log w2 = wq_log w1 @ ks \<and> 1 \<in> set (wq_log w1) \<and> 0 \<in> set ks)"
proof -
  define w1 where "w1 = the (write_run (store_requests defaults crowd_env crowd_ops) [Send 1, Exec, Receive 1] (open_store queued_db))"
  define w2 where "w2 = the (write_run (store_requests defaults crowd_env crowd_ops) [Send 0, Exec] w1)"
  have runs: "write_run (store_requests defaults crowd_env crowd_ops) [Send 1, Exec, Receive 1] (open_store queued_db) = Some w1"
    "write_run (store_requests defaults crowd_env crowd_ops) [Send 0, Exec] w1 = Some w2"
    unfolding w2_def w1_def by (rule some_the, code_simp)+
  have w: "wq_sent w1 = [1]" "wq_log w2 = [1, 0]" unfolding w2_def w1_def by code_simp+
  have "(case wq_caller w1 1 of Returned r \<Rightarrow> \<not> isl r | _ \<Rightarrow> False)" unfolding w1_def by code_simp
  then obtain es where "wq_caller w1 1 = Returned (Inr es)" by (auto split: caller.splits simp: isl_def) (metis sum.exhaust)
  with runs w queue_linearises [OF write_run_reach0 [OF runs(1)] write_run_reach0 [OF runs(2)], where j = 1 and k = 0]
  show ?thesis by auto
qed

end
