(* ===== verification/ETQ_Cycle.thy ===== *)
theory ETQ_Cycle
  imports ETQ_Concurrent ETQ_Server
begin

section \<open>A goroutine's calls through the write queue\<close>

text \<open>
  Workers, schedulers and handlers are modelled as functions that let the other goroutines change the
  database between two calls of their own (\<open>r_other\<close>, \<open>p_other\<close>, \<open>q_other\<close>).  Here that picture
  is derived from the write queue: whatever the goroutines do around it, the calls one of them has had
  executed look to it like a sequence of calls with interference in between, and the interference is
  that of the other calls.  It is applied to the cycle of a worker (internal/queue/worker.go).
\<close>

subsection \<open>Calls with interference in between\<close>

fun with_others :: "config \<Rightarrow> (nat \<Rightarrow> env) \<Rightarrow> (nat \<Rightarrow> store_call) \<Rightarrow> (nat \<Rightarrow> db \<Rightarrow> db) \<Rightarrow> nat list \<Rightarrow> db \<Rightarrow> db" where
  "with_others cfg env op f [] d = d"
| "with_others cfg env op f (k # ks) d =
     with_others cfg env op (\<lambda>i. f (Suc i)) ks (apply_op cfg (served_env (env k)) (op k) (f 0 d))"

lemma with_others_append:
  "with_others cfg env op f (ks @ [k]) d =
     apply_op cfg (served_env (env k)) (op k) (f (length ks) (with_others cfg env op f ks d))"
  by (induction ks arbitrary: f d) simp_all

text \<open>What calls to the store can do, and that they keep what is there.\<close>

definition kept_by_others :: "config \<Rightarrow> (nat \<Rightarrow> db \<Rightarrow> db) \<Rightarrow> bool" where
  "kept_by_others cfg f \<longleftrightarrow>
     (\<forall>i x. reachable cfg any_call x \<longrightarrow> reachable cfg any_call (f i x) \<and> extends x (f i x))"

lemma run_ops_app: "run_ops cfg env op (ks @ ls) d = run_ops cfg env op ls (run_ops cfg env op ks d)"
  by (simp add: run_ops_def)

lemma run_ops_Cons: "run_ops cfg env op (k # ks) d = run_ops cfg env op ks (apply_op cfg (served_env (env k)) (op k) d)"
  by (simp add: run_ops_def)

lemma turns_ok_app:
  "turns_ok cfg env op (ks @ ls) d \<longleftrightarrow> turns_ok cfg env op ks d \<and> turns_ok cfg env op ls (run_ops cfg env op ks d)"
proof (induction ls rule: rev_induct)
  case Nil
  show ?case by (simp add: turns_ok_def)
next
  case (snoc l ls)
  then show ?case using turns_ok_append [of cfg env "op" "ks @ ls" l d] by (auto simp: turns_ok_append run_ops_app)
qed

text \<open>The interference before the first call: on the database of the run, what the log says.\<close>

definition first_others :: "db \<Rightarrow> db \<Rightarrow> (nat \<Rightarrow> db \<Rightarrow> db) \<Rightarrow> nat \<Rightarrow> db \<Rightarrow> db" where
  "first_others d d' f i x = (case i of 0 \<Rightarrow> if x = d then d' else x | Suc j \<Rightarrow> f j x)"

lemma first_others_simps [simp]:
  "first_others d d' f 0 d = d'" "(\<lambda>i. first_others d d' f (Suc i)) = f" "first_others d d' f (Suc j) = f j"
  by (simp_all add: first_others_def fun_eq_iff)

lemma first_others_kept:
  "kept_by_others cfg f \<Longrightarrow> (reachable cfg any_call d \<Longrightarrow> reachable cfg any_call d' \<and> extends d d') \<Longrightarrow>
     kept_by_others cfg (first_others d d' f)"
  by (auto simp: kept_by_others_def first_others_def split: nat.split)

lemma takeWhile_past:
  "distinct (ls @ k # ms) \<Longrightarrow> j \<in> set ms \<Longrightarrow>
     takeWhile (\<lambda>i. i \<noteq> j) (ls @ k # ms) = ls @ k # takeWhile (\<lambda>i. i \<noteq> j) ms"
  by (auto simp: takeWhile_append)

text \<open>Some of the calls of a log, in its order, seen as one goroutine's.\<close>

lemma log_with_others:
  assumes "subseq ks log" and "reachable cfg any_call d" and "turns_ok cfg env op log d" and "distinct log"
  shows "\<exists>f. kept_by_others cfg f \<and> run_ops cfg env op log d = f (length ks) (with_others cfg env op f ks d) \<and>
    (\<forall>i < length ks. run_ops cfg env op (takeWhile (\<lambda>j. j \<noteq> ks ! i) log) d = f i (with_others cfg env op f (take i ks) d))"
  using assms
proof (induction ks arbitrary: log d)
  case Nil
  let ?f = "first_others d (run_ops cfg env op log d) (\<lambda>_ x. x)"
  have "kept_by_others cfg ?f"
    using run_ops_reachable [OF Nil(2,3)] run_ops_extends [OF reachable_base [OF Nil(2)]]
    by (intro first_others_kept) (auto simp: kept_by_others_def)
  then show ?case by (intro exI [of _ ?f]) simp
next
  case (Cons k ks)
  from list_emb_ConsD [OF Cons.prems(1)] obtain l0 l1 where log: "log = l0 @ k # l1" "subseq ks l1" by auto
  let ?d0 = "run_ops cfg env op l0 d"
  let ?d1 = "apply_op cfg (served_env (env k)) (op k) ?d0"
  have turns: "turns_ok cfg env op l0 d" "turns_ok cfg env op [k] ?d0" "turns_ok cfg env op l1 ?d1"
    using Cons.prems(3) turns_ok_app [of cfg env "op" l0 "[k] @ l1" d] turns_ok_app [of cfg env "op" "[k]" l1 ?d0]
    by (simp_all add: log run_ops_Cons run_ops_def)
  have r0: "reachable cfg any_call ?d0" by (rule run_ops_reachable [OF Cons.prems(2) turns(1)])
  have r1: "reachable cfg any_call ?d1"
    using run_ops_reachable [OF r0 turns(2)] by (simp add: run_ops_Cons run_ops_def)
  from Cons.IH [OF log(2) r1 turns(3)] Cons.prems(4) obtain f where f: "kept_by_others cfg f"
    "run_ops cfg env op l1 ?d1 = f (length ks) (with_others cfg env op f ks ?d1)"
    "\<And>i. i < length ks \<Longrightarrow> run_ops cfg env op (takeWhile (\<lambda>j. j \<noteq> ks ! i) l1) ?d1 = f i (with_others cfg env op f (take i ks) ?d1)"
    by (auto simp: log(1))
  let ?f = "first_others d ?d0 f"
  have "kept_by_others cfg ?f"
    using r0 run_ops_extends [OF reachable_base [OF Cons.prems(2)]] by (intro first_others_kept [OF f(1)]) auto
  moreover have "run_ops cfg env op log d = ?f (length (k # ks)) (with_others cfg env op ?f (k # ks) d)"
    using f(2) by (simp add: log(1) run_ops_app run_ops_Cons)
  moreover have "run_ops cfg env op (takeWhile (\<lambda>j. j \<noteq> (k # ks) ! i) log) d =
      ?f i (with_others cfg env op ?f (take i (k # ks)) d)" if i: "i < length (k # ks)" for i
  proof (cases i)
    case 0
    have "takeWhile (\<lambda>j. j \<noteq> k) log = l0" using Cons.prems(4) by (simp add: log(1) takeWhile_append takeWhile_eq_all_conv)
    with 0 show ?thesis by simp
  next
    case (Suc j)
    have "ks ! j \<in> set l1" using log(2) i Suc list_emb_set [OF log(2), of "ks ! j"] by auto
    with Cons.prems(4) have "takeWhile (\<lambda>i. i \<noteq> ks ! j) log = l0 @ k # takeWhile (\<lambda>i. i \<noteq> ks ! j) l1"
      unfolding log(1) by (rule takeWhile_past)
    with f(3) [of j] i Suc show ?thesis by (simp add: run_ops_app run_ops_Cons)
  qed
  ultimately show ?case by (intro exI [of _ ?f]) blast
qed

subsection \<open>The cycle of a worker\<close>

text \<open>The call by which a cycle reports, and the environment its calls make up.\<close>

definition outcome_call :: "bool \<Rightarrow> string + bytes option \<Rightarrow> string \<Rightarrow> store_call" where
  "outcome_call over out aid =
     (if over then OpCancelAttempt aid
      else case out of Inl msg \<Rightarrow> OpFail aid msg | Inr result \<Rightarrow> OpSucceed aid result)"

definition cycle_env :: "(nat \<Rightarrow> env) \<Rightarrow> nat list \<Rightarrow> (nat \<Rightarrow> db \<Rightarrow> db) \<Rightarrow> nat \<Rightarrow> bool \<Rightarrow> db run_env" where
  "cycle_env env ks f beats over =
     \<lparr>r_call = (\<lambda>i. served_env (env (ks ! i))), r_other = f, r_beats = beats, r_over = over\<rparr>"

lemma heartbeats_with_others:
  assumes "list_all (\<lambda>h. op h = OpHeartbeat aid) hs"
  shows "heartbeats store_ops (cycle_env env (c # hs @ ls) f b over) aid (length hs) d =
    with_others cfg env op (\<lambda>i. f (Suc i)) hs d"
  using assms
proof (induction hs arbitrary: ls rule: rev_induct)
  case (snoc h hs)
  from snoc.IH [of "h # ls"] snoc.prems show ?case
    by (simp add: with_others_append store_ops_simps sans_events_def Let_def cycle_env_def nth_append)
qed simp

lemma report_call:
  "snd (report store_ops (served_env env) over out aid d) = apply_op cfg (served_env env) (outcome_call over out aid) d"
  by (auto simp: report_def outcome_call_def store_ops_simps split: sum.split prod.split)

lemma served_fails:
  "res_of (store_op env m on_err evs out d) = Inl e \<Longrightarrow> \<forall>x. fst (execTx env (announce m evs') d) \<noteq> Inl x \<Longrightarrow>
     e_fate env = Served \<Longrightarrow> False"
  by (auto simp: store_op_def store_write_def execTx_def announce_run split: sum.splits prod.splits if_splits)

lemma report_result:
  assumes "\<not> isl (fst (execTx (served_env (env k)) (snd (store_requests cfg env op k)) d))"
    and "op k = outcome_call over out aid"
  shows "fst (report store_ops (served_env (env k)) over out aid d) = (\<not> over, if over then Some ErrCtx else None)"
proof -
  have served: "e_fate (served_env (env k)) = Served" by (simp add: served_env_def)
  show ?thesis
    using assms(1) unfolding store_requests_def snd_conv assms(2)
    by (auto simp: report_def outcome_call_def store_ops_simps CancelAttempt_def FailAttempt_def SucceedAttempt_def
        sans_events_def isl_def split: if_splits sum.splits prod.splits dest: served_fails [OF _ _ served])
qed

text \<open>
  A cycle that has reported: call \<open>c\<close> claimed, the calls \<open>hs\<close> are the ticks of its heartbeat and call \<open>o\<close>
  its report.  It made each after the one before had returned, so the log has them in this order.
\<close>

definition cycle_calls ::
  "config \<Rightarrow> (nat \<Rightarrow> env) \<Rightarrow> (nat \<Rightarrow> store_call) \<Rightarrow> run_config \<Rightarrow> bool \<Rightarrow> db \<Rightarrow> nat list \<Rightarrow> nat \<Rightarrow> nat list \<Rightarrow> nat \<Rightarrow> task \<Rightarrow> string \<Rightarrow> bool"
where
  "cycle_calls cfg env op rc over d0 log c hs rep t aid \<longleftrightarrow>
     rc_config rc = cfg \<and> TaskTypes (rc_registry rc) \<noteq> [] \<and> subseq (c # hs @ [rep]) log \<and>
     op c = OpClaim (rc_worker rc) (rc_queue rc) (TaskTypes (rc_registry rc)) \<and>
     res_of (ClaimTask (served_env (env c)) cfg (rc_worker rc) (rc_queue rc) (TaskTypes (rc_registry rc))
       (run_ops cfg env op (takeWhile (\<lambda>j. j \<noteq> c) log) d0)) = Inr (Some (t, aid)) \<and>
     list_all (\<lambda>h. op h = OpHeartbeat aid) hs \<and>
     op rep = outcome_call over (Dispatch (rc_registry rc) (buildExecCtx (t_timeout_secs t)) t) aid"

lemma finished_kept:
  assumes "find_row a_id aid (d_attempts d) = Some a" and "a_status a \<noteq> ARunning" and "extends d d'" and "keys_ok d'"
  shows "find_row a_id aid (d_attempts d') = Some a"
  using assms find_row_SomeD [OF assms(1)] by (auto simp: extends_def keys_ok_def find_row_unique)

lemma finished_over: "finished_with out a \<Longrightarrow> a_status a \<noteq> ARunning"
  by (auto simp: finished_with_def split: sum.splits)

lemma cycle_is_RunOnce:
  assumes "cycle_calls cfg env op rc over d0 log c hs rep t aid"
    and "run_ops cfg env op (takeWhile (\<lambda>j. j \<noteq> c) log) d0 = f 0 d0"
  shows "RunOnce store_ops (cycle_env env (c # hs @ [rep]) f (length hs) over) rc d0 =
    report store_ops (served_env (env rep)) over (Dispatch (rc_registry rc) (buildExecCtx (t_timeout_secs t)) t) aid
      (f (Suc (length hs)) (with_others cfg env op f (c # hs) d0))"
proof -
  let ?types = "TaskTypes (rc_registry rc)"
  obtain d1 es where claim: "ClaimTask (served_env (env c)) cfg (rc_worker rc) (rc_queue rc) ?types (f 0 d0) =
      (Inr (Some (t, aid)), d1, es)" and d1: "d1 = apply_op cfg (served_env (env c)) (op c) (f 0 d0)"
    using assms by (cases "ClaimTask (served_env (env c)) cfg (rc_worker rc) (rc_queue rc) ?types (f 0 d0)")
      (auto simp: cycle_calls_def)
  have beats: "heartbeats store_ops (cycle_env env (c # hs @ [rep]) f (length hs) over) aid (length hs) d1 =
      with_others cfg env op (\<lambda>i. f (Suc i)) hs d1"
    using assms(1) by (intro heartbeats_with_others) (simp add: cycle_calls_def)
  have env: "r_call (cycle_env env (c # hs @ [rep]) f (length hs) over) 0 = served_env (env c)"
    "r_call (cycle_env env (c # hs @ [rep]) f (length hs) over) (Suc (length hs)) = served_env (env rep)"
    "r_other (cycle_env env (c # hs @ [rep]) f (length hs) over) = f"
    "r_beats (cycle_env env (c # hs @ [rep]) f (length hs) over) = length hs"
    "r_over (cycle_env env (c # hs @ [rep]) f (length hs) over) = over"
    by (simp_all add: cycle_env_def nth_append)
  have "with_others cfg env op f (c # hs) d0 = with_others cfg env op (\<lambda>i. f (Suc i)) hs d1" by (simp add: d1)
  moreover have "rc_config rc = cfg" "?types \<noteq> []" using assms(1) by (simp_all add: cycle_calls_def)
  ultimately show ?thesis
    unfolding RunOnce_def Let_def env store_ops_simps by (simp add: claim beats del: TaskTypes_Nil with_others.simps)
qed

text \<open>
  An example: between its claim and its report, another goroutine creates a task and a third halts the
  very task the worker is executing.
\<close>

definition shift_ops :: "nat \<Rightarrow> store_call" where
  "shift_ops k =
     (if k = 0 then OpClaim ''i'' ''default'' [''email'']
      else if k = 1 then OpCreateTask demo_task
      else if k = 2 then OpHeartbeat (replicate 20 (CHR ''i''))
      else if k = 3 then OpHalt ''ii''
      else OpSucceed (replicate 20 (CHR ''i'')) (Some ''ok''))"

definition shift_actions :: "write_action list" where
  "shift_actions =
     [Send 1, Send 0, Exec, Exec, Receive 0, Send 2, Exec, Receive 2, Send 3, Send 4, Exec, Exec, Receive 4]"

text \<open>C4: A worker's cycle through the write queue is a cycle in the sense of RunOnce, with the calls of all other
  goroutines as its interference; and when its report has returned a value, the attempt holds what the
  handler returned, or is cancelled if the context was over, in the database of the queue from then on,
  whatever the others have had executed meanwhile.\<close>

theorem cycle_through_queue:
  assumes "write_reach (store_requests cfg env op) (open_store d0) w"
    and "reachable cfg any_call d0" and "turns_ok cfg env op (wq_log w) d0"
    and "cycle_calls cfg env op rc over d0 (wq_log w) c hs rep t aid"
    and "wq_caller w rep = Returned (Inr es)"
  shows "\<exists>f d1 a. kept_by_others cfg f \<and>
    RunOnce store_ops (cycle_env env (c # hs @ [rep]) f (length hs) over) rc d0 =
      ((\<not> over, if over then Some ErrCtx else None), d1) \<and>
    wq_db w = f (Suc (Suc (length hs))) d1 \<and>
    find_row a_id aid (d_attempts (wq_db w)) = Some a \<and>
    (if over then a_status a = ACancelled
     else finished_with (Dispatch (rc_registry rc) (buildExecCtx (t_timeout_secs t)) t) a)"
proof -
  let ?req = "store_requests cfg env op" and ?ks = "c # hs @ [rep]"
  let ?out = "Dispatch (rc_registry rc) (buildExecCtx (t_timeout_secs t)) t"
  have inv: "queue_inv ?req d0 w" "call_inv ?req d0 w rep" using write_reach_inv [OF assms(1)] by auto
  have sub: "subseq ?ks (wq_log w)" using assms(4) by (simp add: cycle_calls_def)
  have "distinct (wq_log w)" using inv(1) by (auto simp: queue_inv_def)
  from log_with_others [OF sub assms(2,3) this] obtain f where f: "kept_by_others cfg f"
      "run_ops cfg env op (wq_log w) d0 = f (length ?ks) (with_others cfg env op f ?ks d0)"
      "\<And>i. i < length ?ks \<Longrightarrow> run_ops cfg env op (takeWhile (\<lambda>j. j \<noteq> ?ks ! i) (wq_log w)) d0 =
         f i (with_others cfg env op f (take i ?ks) d0)" by blast
  let ?d = "f (Suc (length hs)) (with_others cfg env op f (c # hs) d0)"
  have run: "RunOnce store_ops (cycle_env env ?ks f (length hs) over) rc d0 =
      report store_ops (served_env (env rep)) over ?out aid ?d"
    using f(3) [of 0] by (intro cycle_is_RunOnce [OF assms(4)]) simp
  have here: "db_at ?req (wq_log w) d0 rep = ?d"
    using f(3) [of "Suc (length hs)"] by (simp add: db_at_def serial_run_ops nth_append)
  have "rep \<in> set (wq_log w)" by (rule returned_value_logged [OF assms(1,5)])
  with here have "\<not> isl (fst (execTx (served_env (env rep)) (snd (?req rep)) ?d))"
    using inv(2) assms(5) by (auto simp: call_inv_def answer_def store_requests_def isl_def)
  then have res: "fst (report store_ops (served_env (env rep)) over ?out aid ?d) = (\<not> over, if over then Some ErrCtx else None)"
    by (rule report_result) (use assms(4) in \<open>simp add: cycle_calls_def\<close>)
  define d1 where "d1 = snd (report store_ops (served_env (env rep)) over ?out aid ?d)"
  have step: "d1 = apply_op cfg (served_env (env rep)) (op rep) ?d"
    unfolding d1_def using assms(4) by (simp add: report_call [where cfg = cfg] cycle_calls_def del: with_others.simps)
  have db: "wq_db w = f (Suc (Suc (length hs))) d1"
    using inv(1) f(2) with_others_append [of cfg env "op" f "c # hs" rep d0] step
    by (simp add: queue_inv_def serial_run_ops del: with_others.simps)
  have whole: "RunOnce store_ops (cycle_env env ?ks f (length hs) over) rc d0 =
      ((\<not> over, if over then Some ErrCtx else None), d1)"
    using run res by (simp add: d1_def prod_eq_iff)
  have "turns_ok cfg env op (takeWhile (\<lambda>j. j \<noteq> rep) (wq_log w)) d0"
    using assms(3) turns_ok_app [of cfg env "op" "takeWhile (\<lambda>j. j \<noteq> rep) (wq_log w)" "dropWhile (\<lambda>j. j \<noteq> rep) (wq_log w)" d0]
    by simp
  from run_ops_reachable [OF assms(2) this] have reach: "reachable cfg any_call ?d"
    using here by (simp add: db_at_def serial_run_ops del: with_others.simps)
  have rep: "report store_ops (served_env (env rep)) over ?out aid ?d = ((\<not> over, if over then Some ErrCtx else None), d1)"
    using res by (simp add: d1_def prod_eq_iff)
  obtain a where a: "find_row a_id aid (d_attempts d1) = Some a" "if over then a_status a = ACancelled else finished_with ?out a"
    using pool_store.report_done(1,2) [OF reach rep] by (cases over) auto
  have "reachable cfg any_call d1" by (rule pool_store.report_ok [OF reach rep])
  then have "reachable cfg any_call (wq_db w)" "extends d1 (wq_db w)"
    using f(1) by (simp_all add: db kept_by_others_def)
  then have "find_row a_id aid (d_attempts (wq_db w)) = Some a"
    using reachable_base [of cfg any_call "wq_db w"] a finished_over
    by (intro finished_kept [OF a(1)]) (auto simp: base_ok_def split: if_splits)
  then show ?thesis using f(1) whole db a(2) by blast
qed

lemma cycle_through_queue_witness:
  "\<exists>w a. write_run (store_requests defaults crowd_env shift_ops) shift_actions (open_store queued_db) = Some w \<and>
     wq_log w = [1, 0, 2, 3, 4] \<and> find_row a_id (replicate 20 (CHR ''i'')) (d_attempts (wq_db w)) = Some a \<and>
     a_status a = ASucceeded \<and> a_result a = Some ''ok''"
proof -
  let ?req = "store_requests defaults crowd_env shift_ops" and ?aid = "replicate 20 (CHR ''i'')"
  define w where "w = the (write_run ?req shift_actions (open_store queued_db))"
  have run: "write_run ?req shift_actions (open_store queued_db) = Some w"
    unfolding w_def by (rule some_the) code_simp
  have log: "wq_log w = [1, 0, 2, 3, 4]" unfolding w_def by code_simp
  define t where "t = fst (the (projr (res_of (ClaimTask (served_env (crowd_env 0)) defaults ''i'' ''default'' [''email'']
    (run_ops defaults crowd_env shift_ops [1] queued_db)))))"
  have "(case res_of (ClaimTask (served_env (crowd_env 0)) defaults ''i'' ''default'' [''email'']
      (run_ops defaults crowd_env shift_ops [1] queued_db)) of Inr (Some (x, aid)) \<Rightarrow> aid = ?aid | _ \<Rightarrow> False)"
    by code_simp
  then have claim: "res_of (ClaimTask (served_env (crowd_env 0)) defaults ''i'' ''default'' [''email'']
      (run_ops defaults crowd_env shift_ops [1] queued_db)) = Inr (Some (t, ?aid))"
    by (auto simp: t_def split: sum.splits option.splits)
  have out: "Dispatch demo_registry (buildExecCtx (t_timeout_secs t)) t = Inr (Some ''ok'')" unfolding t_def by code_simp
  have types: "TaskTypes demo_registry = [''email'']" by code_simp
  have calls: "cycle_calls defaults crowd_env shift_ops demo_run False queued_db (wq_log w) 0 [2] 4 t ?aid"
    using claim out types by (simp add: cycle_calls_def log demo_run_def shift_ops_def outcome_call_def del: TaskTypes_Nil)
  have "uuid_ok (crowd_env k) (shift_ops k) d" for k d by (simp add: uuid_ok_def shift_ops_def)
  then have turns: "turns_ok defaults crowd_env shift_ops (wq_log w) queued_db" by (simp add: turns_ok_def)
  have "(case wq_caller w 4 of Returned r \<Rightarrow> \<not> isl r | _ \<Rightarrow> False)" unfolding w_def by code_simp
  then obtain es where "wq_caller w 4 = Returned (Inr es)" by (auto split: caller.splits simp: isl_def) (metis sum.exhaust)
  from cycle_through_queue [OF write_run_reach0 [OF run] queued_reachable turns calls this]
  show ?thesis using run log out by (auto simp: finished_with_def demo_run_def)
qed

end
