(* ===== verification/ETQ_Events.thy ===== *)
theory ETQ_Events
  imports ETQ_Concurrent ETQ_Broker
begin

section \<open>From the transaction to the event stream\<close>

text \<open>
  A method of the store emits its events after \<open>write\<close> has returned, on the goroutine of its caller
  (\<open>emit\<close> in store.go); the sink is the broker, which passes them on to the subscribers of
  \<^verbatim>\<open>/api/events\<close>.  Here the write queue with the store's methods (ETQ_Concurrent) and the broker
  (ETQ_Broker) run side by side, joined by the callers.  Between the commit and the event, and
  between the events of two callers, anything may happen.
\<close>

subsection \<open>The callers between queue and broker\<close>

text \<open>
  \<open>lv_sink\<close> says whether a sink is registered, \<open>lv_done\<close> how many of its events each call has
  emitted; \<open>lv_origin\<close> is a history, the call and position of every event handed to the sink.
\<close>

record live =
  lv_queue :: "sse_event list writer"
  lv_sink :: bool
  lv_bus :: "sse_event broker"
  lv_done :: "nat \<Rightarrow> nat"
  lv_origin :: "(nat \<times> nat) list"

definition start_live :: "db \<Rightarrow> live" where
  "start_live d = \<lparr>lv_queue = open_store d, lv_sink = False, lv_bus = NewBroker, lv_done = (\<lambda>_. 0), lv_origin = []\<rparr>"

definition SetEventSink :: "bool \<Rightarrow> live \<Rightarrow> live" where
  "SetEventSink sink s = s\<lparr>lv_sink := sink\<rparr>"

text \<open>
  \<open>emit\<close>, once the timestamp is set: the event goes to the sink if there is one.  The code reads the
  sink under the lock and calls it after; here both are one step.  The servers of the repository
  register the broker once and never detach it, so nothing can come between the two.
\<close>

definition dispatch :: "sse_event \<Rightarrow> live \<Rightarrow> live" where
  "dispatch ev s = (if lv_sink s then s\<lparr>lv_bus := Emit ev (lv_bus s)\<rparr> else s)"

text \<open>The next event of a call that has returned a value.\<close>

definition emit_next :: "nat \<Rightarrow> live \<Rightarrow> live option" where
  "emit_next k s =
     (case wq_caller (lv_queue s) k of
        Returned (Inr es) \<Rightarrow>
          if lv_done s k < length es
          then Some (dispatch (es ! lv_done s k)
                 (s\<lparr>lv_done := (lv_done s)(k := lv_done s k + 1),
                    lv_origin := lv_origin s @ (if lv_sink s then [(k, lv_done s k)] else [])\<rparr>))
          else None
      | _ \<Rightarrow> None)"

datatype live_action = Queue write_action | Sink bool | EmitNext nat | Bus "sse_event broker_action"

fun from_store :: "sse_event broker_action \<Rightarrow> bool" where
  "from_store (EmitEv e) = True"
| "from_store _ = False"

fun live_act :: "sse_event list requests \<Rightarrow> live_action \<Rightarrow> live \<Rightarrow> live option" where
  "live_act req (Queue a) s = map_option (\<lambda>w. s\<lparr>lv_queue := w\<rparr>) (write_act req a (lv_queue s))"
| "live_act req (Sink b) s = Some (SetEventSink b s)"
| "live_act req (EmitNext k) s = emit_next k s"
| "live_act req (Bus a) s =
     (if from_store a then None else map_option (\<lambda>b. s\<lparr>lv_bus := b\<rparr>) (broker_act a (lv_bus s)))"

fun live_run :: "sse_event list requests \<Rightarrow> live_action list \<Rightarrow> live \<Rightarrow> live option" where
  "live_run req [] s = Some s"
| "live_run req (a # as) s = (case live_act req a s of None \<Rightarrow> None | Some s' \<Rightarrow> live_run req as s')"

subsection \<open>What a transaction announces is in the timeline\<close>

definition recorded :: "db \<Rightarrow> sse_event \<Rightarrow> bool" where
  "recorded d e \<longleftrightarrow> list_ex (\<lambda>ev. ev_task_id ev = sse_task_id e \<and> ev_event ev = sse_event e) (d_events d)"

lemma emit_set [simp]: "e \<in> set (emit env (SSEEvent i ev)) \<Longrightarrow> sse_task_id e = i \<and> sse_event e = ev"
  by (auto simp: emit_def SSEEvent_def)

lemma body_records:
  assumes "write_body cfg env op = Some fn" and "fn d = (Inr es, d')" and "distinct (map t_id (d_tasks d))" and "e \<in> set es"
  shows "recorded d' e \<or> sse_event e = EvSuperseded"
proof (cases op)
  case (OpCreateTask i)
  with assms obtain a where a: "create_task_tx env i d = (Inr a, d')" "e \<in> set (emit env (SSEEvent (t_id a) EvQueued))"
    by (auto simp: announce_run split: sum.splits prod.splits)
  note D = create_task_tx_D [OF a(1)]
  from D show ?thesis using a(2) by (auto simp: recorded_def dest!: emit_set) 
next
  case (OpClaim wid q types)
  with assms show ?thesis
    by (auto simp: announce_run recorded_def claim_db_fields scanTask_def claim_row_def
        split: sum.splits prod.splits if_splits option.splits dest!: claim_tx_D dest: emit_set)
next
  case (OpSucceed aid r)
  with assms show ?thesis
    by (auto simp: announce_run recorded_def finish_db_def split: sum.splits prod.splits elim!: succeed_tx_D dest: emit_set)
next
  case (OpFail aid msg)
  with assms show ?thesis
    by (auto simp: announce_run recorded_def finish_db_def split: sum.splits prod.splits elim!: fail_tx_D dest: emit_set)
next
  case (OpCancelAttempt aid)
  with assms show ?thesis
    by (auto simp: announce_run recorded_def finish_db_def split: sum.splits prod.splits elim!: cancel_attempt_tx_D dest: emit_set)
next
  case (OpHalt i)
  with assms show ?thesis
    by (auto simp: announce_run recorded_def move_db_def control_event_def split: sum.splits prod.splits elim!: control_tx_D dest: emit_set)
next
  case (OpCancel i)
  with assms show ?thesis
    by (auto simp: announce_run recorded_def move_db_def control_event_def split: sum.splits prod.splits elim!: control_tx_D dest: emit_set)
next
  case (OpResume i)
  with assms show ?thesis
    by (auto simp: announce_run recorded_def move_db_def control_event_def split: sum.splits prod.splits elim!: resume_tx_D dest: emit_set)
next
  case (OpRetry i)
  with assms show ?thesis
    by (auto simp: announce_run recorded_def move_db_def control_event_def split: sum.splits prod.splits elim!: retry_tx_D dest: emit_set)
next
  case (OpRestart i)
  with assms show ?thesis
    by (auto simp: announce_run recorded_def restart_db_def split: sum.splits prod.splits elim!: restart_tx_D dest: emit_set)
next
  case (OpTimeout aid)
  with assms show ?thesis
    by (auto simp: announce_run recorded_def finish_db_def split: sum.splits prod.splits elim!: timeout_tx_D dest: emit_set)
qed (use assms in \<open>auto simp: silently_def announce_run split: sum.splits prod.splits if_splits\<close>)

text \<open>The error a method returns, if it returns one.\<close>

definition err_of :: "'a outcome \<Rightarrow> err option" where
  "err_of r = (case res_of r of Inl e \<Rightarrow> Some e | Inr _ \<Rightarrow> None)"

fun call_error :: "config \<Rightarrow> env \<Rightarrow> store_call \<Rightarrow> db \<Rightarrow> err option" where
  "call_error cfg env (OpCreateTask i) d = err_of (CreateTask env i d)"
| "call_error cfg env (OpClaim wid q types) d = err_of (ClaimTask env cfg wid q types d)"
| "call_error cfg env (OpSucceed aid r) d = err_of (SucceedAttempt env aid r d)"
| "call_error cfg env (OpFail aid msg) d = err_of (FailAttempt env aid msg d)"
| "call_error cfg env (OpCancelAttempt aid) d = err_of (CancelAttempt env aid d)"
| "call_error cfg env (OpHeartbeat aid) d = err_of (UpdateHeartbeat env aid d)"
| "call_error cfg env (OpHalt i) d = err_of (HaltTask env i d)"
| "call_error cfg env (OpResume i) d = err_of (ResumeTask env i d)"
| "call_error cfg env (OpCancel i) d = err_of (CancelTask env i d)"
| "call_error cfg env (OpRetry i) d = err_of (RetryTask env i d)"
| "call_error cfg env (OpRestart i) d = err_of (RestartTask env i d)"
| "call_error cfg env OpRequeue d = err_of (RequeueRetrying env d)"
| "call_error cfg env (OpTimeout aid) d = err_of (TimeoutAttempt env aid d)"
| "call_error cfg env (OpCreateWorker i) d = err_of (CreateWorker env i d)"
| "call_error cfg env (OpCreateSchedule i) d = err_of (CreateSchedule env i d)"
| "call_error cfg env (OpUpdateSchedule i inp) d = err_of (UpdateSchedule env i inp d)"
| "call_error cfg env (OpRecordRun i next_run) d = err_of (RecordScheduleRun env i next_run d)"

text \<open>How a call fares: with a value, with an error, or with the error of a context that ended too late.\<close>

definition fares ::
  "env \<Rightarrow> sse_event list tx \<Rightarrow> db \<Rightarrow> err option \<Rightarrow> db \<Rightarrow> sse_event list \<Rightarrow> bool" where
  "fares env fn d err d' es \<longleftrightarrow>
     (case err of
        None \<Rightarrow> e_fate env = Served \<and> fn d = (Inr es, d')
      | Some e \<Rightarrow> es = [] \<and> (d' = d \<or> e_fate env = CtxWhileWaiting \<and> (\<exists>x. fn d = (Inr x, d'))))"

lemma fares_announce:
  "fares env (announce m evs) d (err_of (store_op env m on_err evs out d))
     (db_of (store_op env m on_err evs out d)) (emitted (store_op env m on_err evs out d))"
  by (auto simp: fares_def err_of_def store_op_def store_write_def execTx_def announce_run
      split: write_fate.splits sum.splits prod.splits)

lemma fares_silently:
  "fares env (silently m) d (err_of (store_op env m on_err (\<lambda>_. []) out d))
     (db_of (store_op env m on_err (\<lambda>_. []) out d)) []"
  using fares_announce [of env m "\<lambda>_. []" d on_err out] by (simp add: silently_def store_op_silent)

lemma call_fares:
  assumes "write_body cfg env op = Some fn" and "\<And>i inp. op \<noteq> OpUpdateSchedule i inp"
  shows "fares env fn d (call_error cfg env op d) (apply_op cfg env op d) (call_events cfg env op d)"
  using assms
  by (cases op) (auto simp: method_defs fares_announce fares_silently store_op_silent split: if_splits)

lemma body_step:
  assumes "write_body cfg env op = Some fn" and "fn d = (Inr es, d')" and "base_ok d"
  shows "step cfg env op d d' \<or> (\<exists>wid q types. op = OpClaim wid q types) \<and> d' = d \<and> es = []"
proof (cases op)
  case (OpClaim wid q types)
  then have types: "types \<noteq> []" using assms(1) by (simp split: if_splits)
  obtain r where r: "claim_tx env cfg wid q types d = (Inr r, d')"
      "es = (case r of None \<Rightarrow> [] | Some (t, aid) \<Rightarrow> emit env (SSEEvent (t_id t) EvStarted))"
    using assms(1,2) types by (auto simp: OpClaim announce_run split: sum.splits prod.splits)
  show ?thesis
  proof (cases r)
    case None
    with claim_tx_D [OF r(1)] base_ok_D [OF assms(3)] r(2) show ?thesis by (auto simp: OpClaim)
  next
    case (Some y)
    with claim_tx_D [OF r(1)] base_ok_D [OF assms(3)] show ?thesis
      by (auto simp: OpClaim intro!: step.claim [OF types] simp del: One_nat_def)
  qed
next
  case (OpUpdateSchedule i inp)
  with assms show ?thesis
    by (auto simp: silently_def announce_run split: sum.splits prod.splits if_splits
        dest!: update_schedule_tx_D intro: step.update_schedule)
next
  case (OpRestart i)
  with assms show ?thesis
    by (auto simp: announce_run split: sum.splits prod.splits elim!: restart_tx_D intro!: step.restart simp del: One_nat_def)
next
  case (OpHeartbeat aid)
  with assms show ?thesis by (auto simp: silently_def announce_run tx_Inr split: sum.splits prod.splits intro: step.heartbeat)
qed (use assms base_ok_D [OF assms(3)] in \<open>auto simp: silently_def announce_run split: sum.splits prod.splits
  dest: step_of_bodies [where cfg = cfg] step_of_actions [where cfg = cfg] step_of_outcomes [where cfg = cfg]\<close>)

text \<open>UpdateSchedule reads the row back after its transaction, so its error may come after the commit.\<close>

lemma UpdateSchedule_fares:
  assumes "schedule_sets inp \<noteq> []"
  shows "let d' = upd_schedule i (apply_sets (schedule_sets inp)) d; r = UpdateSchedule env i inp d
    in case err_of r of
         None \<Rightarrow> e_fate env = Served \<and> db_of r = d'
       | Some e \<Rightarrow> db_of r = d \<or> db_of r = d' \<and> (e_fate env = CtxWhileWaiting \<or> e_fault env ''GetSchedule'')"
proof -
  let ?d' = "upd_schedule i (apply_sets (schedule_sets inp)) d"
  let ?r = "store_op env (update_schedule_tx env i inp) (Wrap ''UpdateSchedule'') (\<lambda>_. []) (\<lambda>n. n) d"
  have upd: "UpdateSchedule env i inp d = (case ?r of
        (Inl e, d', _) \<Rightarrow> (Inl e, d', [])
      | (Inr n, d', _) \<Rightarrow> if n = 0 then (Inl ErrNotFound, d', []) else (GetSchedule env i d', d', []))"
    using assms by (simp add: UpdateSchedule_def)
  have fares: "fares env (silently (update_schedule_tx env i inp)) d (err_of ?r) (db_of ?r) []" by (rule fares_silently)
  obtain r d' es where r: "?r = (r, d', es)" by (cases ?r)
  show ?thesis
  proof (cases r)
    case (Inl e)
    with fares r show ?thesis
      by (auto simp: upd err_of_def fares_def silently_def announce_run split: sum.splits prod.splits
          dest!: update_schedule_tx_D(2))
  next
    case (Inr n)
    with fares r have tx: "update_schedule_tx env i inp d = (Inr n, d')" "e_fate env = Served"
      by (auto simp: err_of_def fares_def elim: store_op_Inr)
    note D = update_schedule_tx_D [OF tx(1)]
    show ?thesis
    proof (cases "i \<in> s_id ` set (d_schedules d)")
      case False
      then have "n = 0" using D(1) by (auto simp: count_where_zero_iff)
      moreover have "d' = d" using D(2) False by (simp add: upd_schedule_def)
      ultimately show ?thesis using r Inr by (simp add: upd err_of_def)
    next
      case True
      then obtain s where s: "find_row s_id i (d_schedules d) = Some s"
        by (cases "find_row s_id i (d_schedules d)") (auto simp: find_row_None_iff)
      then have "s \<in> set (d_schedules d)" "s_id s = i" by (simp_all add: find_row_SomeD)
      then have "1 \<le> n" using D(1) by (simp add: count_where_pos)
      moreover have "find_row s_id i (d_schedules d') = Some (apply_sets (schedule_sets inp) s)"
        using s by (simp add: D(2) upd_schedule_def find_row_update_same)
      ultimately show ?thesis using r Inr tx(2) D(2) by (auto simp: upd err_of_def GetSchedule_def Let_def)
    qed
  qed
qed

text \<open>C19: A writing call is all or nothing, although its statements fail one by one.  A call that returns no error
  has committed its whole step and emits only events its step has recorded (or the superseded of a restart), or it
  is a claim or an empty update that had nothing to do.  A call that returns an error emits nothing and leaves the
  database as it was; it can only have committed, and then its whole step, when its context ended while the request
  was being executed, or when UpdateSchedule could not read back what it had committed.\<close>

theorem call_all_or_nothing:
  assumes "reachable cfg allowed d"
  shows "case call_error cfg env op d of
      None \<Rightarrow>
        e_fate env = Served \<and> step cfg env op d (apply_op cfg env op d) \<and>
          list_all (\<lambda>e. recorded (apply_op cfg env op d) e \<or> sse_event e = EvSuperseded) (call_events cfg env op d) \<or>
        apply_op cfg env op d = d \<and> call_events cfg env op d = [] \<and>
          ((\<exists>wid q types. op = OpClaim wid q types) \<or> (\<exists>i inp. op = OpUpdateSchedule i inp \<and> schedule_sets inp = []))
    | Some e \<Rightarrow>
        call_events cfg env op d = [] \<and>
        (apply_op cfg env op d = d \<or>
         step cfg env op d (apply_op cfg env op d) \<and>
           (e_fate env = CtxWhileWaiting \<or> (\<exists>i inp. op = OpUpdateSchedule i inp \<and> e_fault env ''GetSchedule'')))"
proof -
  note base = reachable_base [OF assms]
  consider (none) "write_body cfg env op = None"
    | (update) i inp where "op = OpUpdateSchedule i inp" "schedule_sets inp \<noteq> []"
    | (body) fn where "write_body cfg env op = Some fn" "\<And>i inp. op \<noteq> OpUpdateSchedule i inp"
    by (cases op; cases "write_body cfg env op") (auto split: if_splits)
  then show ?thesis
  proof cases
    case none
    then show ?thesis
      by (cases op) (auto simp: ClaimTask_def UpdateSchedule_def split: if_splits option.splits)
  next
    case update
    then show ?thesis
      using UpdateSchedule_fares [OF update(2), where env = env and i = i and d = d] step.update_schedule [where cfg = cfg and env = env and i = i and inp = inp and d = d]
      by (auto simp: UpdateSchedule_silent Let_def split: option.splits)
  next
    case body
    show ?thesis
      using call_fares [OF body, where d = d] body_step [OF body(1) _ base] body_records [OF body(1) _ conjunct1 [OF base_ok_D [OF base]]]
      by (cases "call_error cfg env op d") (force simp: fares_def list_all_iff, force simp: fares_def)
  qed
qed

text \<open>An example: the second insert of RestartTask fails after the original has been superseded.\<close>

definition torn_env :: env where
  "torn_env = (demo_env 5)\<lparr>e_fault := (\<lambda>l. l = ''insert new task'')\<rparr>"

lemma call_all_or_nothing_witness:
  "\<not> Option.is_none (call_error defaults torn_env (OpRestart ''iii'') demo_db) \<and>
     apply_op defaults torn_env (OpRestart ''iii'') demo_db = demo_db \<and>
     call_events defaults torn_env (OpRestart ''iii'') demo_db = []"
proof -
  have err: "\<not> Option.is_none (call_error defaults torn_env (OpRestart ''iii'') demo_db)" by code_simp
  have "e_fate torn_env = Served" by (simp add: torn_env_def demo_env_def)
  then show ?thesis
    using err call_all_or_nothing [OF demo_reachable, of torn_env "OpRestart ''iii''"] by (auto simp: Option.is_none_def)
qed

subsection \<open>A call that has returned stays as it is\<close>

lemma returned_stays:
  "write_act req a w = Some w' \<Longrightarrow> wq_caller w k = Returned r \<Longrightarrow> wq_caller w' k = Returned r"
  by (cases a) (auto simp: write_act_defs split: if_splits option.splits list.splits prod.splits)

definition event_of :: "live \<Rightarrow> nat \<times> nat \<Rightarrow> sse_event" where
  "event_of s = (\<lambda>(k, n). case wq_caller (lv_queue s) k of Returned (Inr es) \<Rightarrow> es ! n | _ \<Rightarrow> undefined)"

definition emitted_by :: "live \<Rightarrow> nat \<times> nat \<Rightarrow> bool" where
  "emitted_by s = (\<lambda>(k, n). n < lv_done s k \<and>
     (\<exists>es. wq_caller (lv_queue s) k = Returned (Inr es) \<and> n < length es))"

definition bus_inv :: "live \<Rightarrow> bool" where
  "bus_inv s \<longleftrightarrow> distinct (lv_origin s) \<and> list_all (emitted_by s) (lv_origin s) \<and>
     bk_emitted (lv_bus s) = map (event_of s) (lv_origin s)"

lemma bus_inv_queue:
  assumes "bus_inv s" and "write_act req a (lv_queue s) = Some w"
  shows "bus_inv (s\<lparr>lv_queue := w\<rparr>)"
proof -
  have "emitted_by (s\<lparr>lv_queue := w\<rparr>) x \<and> event_of (s\<lparr>lv_queue := w\<rparr>) x = event_of s x" if "emitted_by s x" for x
    using that returned_stays [OF assms(2)] by (fastforce simp: emitted_by_def event_of_def)
  then show ?thesis using assms(1) by (auto simp: bus_inv_def list_all_iff)
qed

lemma bus_inv_emit:
  assumes "bus_inv s" and "emit_next k s = Some s'"
  shows "bus_inv s'"
proof -
  obtain es where es: "wq_caller (lv_queue s) k = Returned (Inr es)" "lv_done s k < length es"
    "s' = dispatch (es ! lv_done s k) (s\<lparr>lv_done := (lv_done s)(k := lv_done s k + 1),
       lv_origin := lv_origin s @ (if lv_sink s then [(k, lv_done s k)] else [])\<rparr>)"
    using assms(2) by (auto simp: emit_next_def split: caller.splits sum.splits if_splits)
  have same: "event_of s' = event_of s" by (rule ext) (simp add: es(3) dispatch_def event_of_def)
  have "emitted_by s' x" if "emitted_by s x" for x using that by (auto simp: es(3) dispatch_def emitted_by_def)
  moreover have "(k, lv_done s k) \<notin> set (lv_origin s)"
    using assms(1) by (auto simp: bus_inv_def list_all_iff emitted_by_def)
  moreover have "emitted_by s' (k, lv_done s k)" using es(1,2) by (simp add: es(3) dispatch_def emitted_by_def)
  moreover have "event_of s (k, lv_done s k) = es ! lv_done s k" using es(1) by (simp add: event_of_def)
  moreover have "lv_origin s' = lv_origin s @ (if lv_sink s then [(k, lv_done s k)] else [])"
    "bk_emitted (lv_bus s') = bk_emitted (lv_bus s) @ (if lv_sink s then [es ! lv_done s k] else [])"
    by (simp_all add: es(3) dispatch_def)
  ultimately show ?thesis using assms(1) by (auto simp: bus_inv_def list_all_iff same)
qed

lemma bus_inv_bus:
  assumes "bus_inv s" and "broker_act a (lv_bus s) = Some b" and "\<not> from_store a"
  shows "bus_inv (s\<lparr>lv_bus := b\<rparr>)"
proof -
  have "bk_emitted b = bk_emitted (lv_bus s)"
    using assms(2,3) by (cases a) (auto simp: Subscribe_def Unsubscribe_def fanOut_def split: list.splits if_splits)
  moreover have "emitted_by (s\<lparr>lv_bus := b\<rparr>) = emitted_by s" "event_of (s\<lparr>lv_bus := b\<rparr>) = event_of s"
    by (auto simp: emitted_by_def event_of_def fun_eq_iff)
  ultimately show ?thesis using assms(1) by (simp add: bus_inv_def)
qed

text \<open>The queue and the broker each make the steps of their own machine.\<close>

definition live_inv :: "sse_event list requests \<Rightarrow> db \<Rightarrow> live \<Rightarrow> bool" where
  "live_inv req d0 s \<longleftrightarrow> write_reach req (open_store d0) (lv_queue s) \<and> broker_inv (lv_bus s) \<and> bus_inv s"

lemma live_inv_act:
  assumes "live_inv req d0 s" and "live_act req a s = Some s'"
  shows "live_inv req d0 s'"
proof (cases a)
  case (Queue wa)
  then obtain w where w: "write_act req wa (lv_queue s) = Some w" "s' = s\<lparr>lv_queue := w\<rparr>" using assms(2) by auto
  with assms(1) show ?thesis by (auto simp: live_inv_def intro: write_reach.act bus_inv_queue)
next
  case (Sink b)
  have "emitted_by (s\<lparr>lv_sink := b\<rparr>) = emitted_by s" "event_of (s\<lparr>lv_sink := b\<rparr>) = event_of s"
    by (auto simp: emitted_by_def event_of_def fun_eq_iff)
  with assms Sink show ?thesis by (auto simp: live_inv_def SetEventSink_def bus_inv_def)
next
  case (EmitNext k)
  then have "lv_queue s' = lv_queue s" "broker_inv (lv_bus s')"
    using assms broker_inv_act [of "lv_bus s" "EmitEv e" for e]
    by (auto simp: live_inv_def emit_next_def dispatch_def split: caller.splits sum.splits if_splits)
  with assms EmitNext show ?thesis by (auto simp: live_inv_def intro: bus_inv_emit)
next
  case (Bus ba)
  then obtain b where "broker_act ba (lv_bus s) = Some b" "s' = s\<lparr>lv_bus := b\<rparr>" "\<not> from_store ba"
    using assms(2) by (auto split: if_splits)
  with assms(1) show ?thesis by (auto simp: live_inv_def intro: broker_inv_act bus_inv_bus)
qed

lemma live_inv_run:
  "live_inv req d0 s \<Longrightarrow> live_run req as s = Some s' \<Longrightarrow> live_inv req d0 s'"
  by (induction as arbitrary: s) (auto split: option.splits intro: live_inv_act)

lemma live_inv_start: "live_inv req d0 (start_live d0)"
  using broker_inv_new by (simp add: live_inv_def start_live_def bus_inv_def write_reach.start NewBroker_def)

subsection \<open>A committed call's events stay in the timeline\<close>

lemma recorded_extends: "recorded d e \<Longrightarrow> extends d d' \<Longrightarrow> recorded d' e"
  by (auto simp: recorded_def extends_def)

text \<open>The calls before \<open>k\<close>, call \<open>k\<close>, and the calls after it.\<close>

lemma db_at_split:
  assumes "k \<in> set ks"
  obtains bs where "serial_db req ks d = serial_db req bs (snd (execTx (fst (req k)) (snd (req k)) (db_at req ks d k)))"
proof -
  from split_list_first [OF assms] obtain as bs where ks: "ks = as @ k # bs" "k \<notin> set as" by blast
  then have "takeWhile (\<lambda>j. j \<noteq> k) ks = as" by (simp add: takeWhile_append takeWhile_eq_all_conv)
  with ks(1) show ?thesis by (intro that [of bs]) (simp add: serial_db_def db_at_def)
qed

lemma execTx_value:
  "fst (execTx env fn d) = Inr x \<Longrightarrow> fn d = (Inr x, snd (execTx env fn d))"
  by (auto simp: execTx_def split: if_splits sum.splits prod.splits)

lemma request_records:
  assumes "Inr es = fst (execTx (fst (store_requests cfg env op k)) (snd (store_requests cfg env op k)) d)"
    and "base_ok d" and "e \<in> set es"
  shows "recorded (apply_op cfg (served_env (env k)) (op k) d) e \<or> sse_event e = EvSuperseded"
proof (cases "write_body cfg (served_env (env k)) (op k)")
  case None
  with assms(1,3) show ?thesis by (auto simp: store_requests_def execTx_def ret_def split: if_splits)
next
  case (Some fn)
  have "fn d = (Inr es, apply_op cfg (served_env (env k)) (op k) d)"
    using execTx_value [of _ fn d es] assms(1) request_is_call [of cfg env "op" k d] by (simp add: store_requests_def Some)
  from body_records [OF Some this _ assms(3)] show ?thesis using base_ok_D [OF assms(2)] by blast
qed

lemma value_recorded:
  assumes "write_reach (store_requests cfg env op) (open_store d0) w" and "base_ok d0"
    and "wq_caller w k = Returned (Inr es)" and "e \<in> set es"
  shows "recorded (wq_db w) e \<or> sse_event e = EvSuperseded"
proof -
  let ?req = "store_requests cfg env op" and ?d = "db_at (store_requests cfg env op) (wq_log w) d0 k"
  have k: "k \<in> set (wq_log w)" by (rule returned_value_logged [OF assms(1,3)])
  have inv: "queue_inv ?req d0 w" "call_inv ?req d0 w k" using write_reach_inv [OF assms(1)] by auto
  have val: "Inr es = fst (execTx (fst (?req k)) (snd (?req k)) ?d)"
    using inv(2) k assms(3) by (simp add: call_inv_def answer_def)
  have base: "base_ok ?d" by (simp add: db_at_def serial_run_ops run_ops_base assms(2))
  obtain bs where "serial_db ?req (wq_log w) d0 = serial_db ?req bs (snd (execTx (fst (?req k)) (snd (?req k)) ?d))"
    by (rule db_at_split [OF k])
  then have "wq_db w = run_ops cfg env op bs (apply_op cfg (served_env (env k)) (op k) ?d)"
    using inv(1) by (simp add: queue_inv_def request_is_call serial_run_ops)
  then have "extends (apply_op cfg (served_env (env k)) (op k) ?d) (wq_db w)"
    using run_ops_extends [OF apply_op_base [OF base]] by simp
  with request_records [OF val base assms(4)] recorded_extends show ?thesis by blast
qed

subsection \<open>What a subscriber sees\<close>

lemma delivered_subseq: "broker_inv b \<Longrightarrow> subseq (bk_taken b i @ bk_buf b i) (bk_emitted b)"
proof -
  assume inv: "broker_inv b"
  then have "sub_inv b i" by (simp add: broker_inv_def)
  then have "subseq (bk_taken b i @ bk_buf b i) (drop (bk_joined b i) (bk_fanned b))"
    by (cases "i < bk_fresh b") (auto simp: sub_inv_def)
  also have "subseq \<dots> (bk_fanned b)" by (intro suffix_imp_subseq suffix_drop)
  also have "subseq \<dots> (bk_fanned b @ bk_input b)" by (intro prefix_imp_subseq) simp
  also have "subseq \<dots> (bk_emitted b)" using inv by (simp add: broker_inv_def)
  finally show ?thesis .
qed

lemma subseq_of_map:
  assumes "subseq xs (map f ys)"
  obtains zs where "subseq zs ys" and "xs = map f zs"
  using assms by (auto simp: subseq_conv_nths nths_map)

text \<open>An example: one goroutine creates a task and, before it comes to its event, another claims it.\<close>

definition hasty_ops :: "nat \<Rightarrow> store_call" where
  "hasty_ops k = (if k = 0 then OpCreateTask (demo_task\<lparr>cti_priority := 9\<rparr>)
     else OpClaim ''i'' ''default'' [''email''])"

definition hasty_actions :: "live_action list" where
  "hasty_actions =
     [Sink True, Bus Join, Queue (Send 0), Queue Exec, Queue (Receive 0), Queue (Send 1), Queue Exec,
      Queue (Receive 1), EmitNext 1, EmitNext 0, Bus (RunNext [0]), Bus (RunNext [0]), Bus (TakeEv 0), Bus (TakeEv 0)]"

text \<open>Event \<open>n\<close> of those that the method of call \<open>k\<close> emits, run on the database it found at its turn.\<close>

definition turn_events ::
  "config \<Rightarrow> (nat \<Rightarrow> env) \<Rightarrow> (nat \<Rightarrow> store_call) \<Rightarrow> db \<Rightarrow> nat list \<Rightarrow> nat \<Rightarrow> sse_event list" where
  "turn_events cfg env op d0 log k =
     call_events cfg (served_env (env k)) (op k) (run_ops cfg env op (takeWhile (\<lambda>j. j \<noteq> k) log) d0)"

lemma returned_events:
  assumes "write_reach (store_requests cfg env op) (open_store d0) w" and "wq_caller w k = Returned (Inr es)"
  shows "es = turn_events cfg env op d0 (wq_log w) k"
proof -
  have "call_inv (store_requests cfg env op) d0 w k" using write_reach_inv [OF assms(1)] by simp
  then show ?thesis
    using returned_value_logged [OF assms] assms(2)
    by (auto simp: call_inv_def answer_def turn_events_def db_at_def serial_run_ops intro: request_events [OF sym])
qed

text \<open>C32: Every event a subscriber of the stream gets is one that the method of a committed call emits for what it did
  at its turn, each a different one; and it is in the timeline of its task, except that the end of a
  restarted task is announced without being recorded.  This holds of every interleaving of the callers,
  the queue and the broker, also where the sink is registered late or taken away.\<close>

theorem stream_is_recorded:
  assumes "live_run (store_requests cfg env op) acts (start_live d0) = Some s"
    and "reachable cfg any_call d0"
  shows "\<exists>src. distinct src \<and> subseq src (lv_origin s) \<and>
    bk_taken (lv_bus s) i @ bk_buf (lv_bus s) i =
      map (\<lambda>(k, n). turn_events cfg env op d0 (wq_log (lv_queue s)) k ! n) src \<and>
    list_all (\<lambda>(k, n). k \<in> set (wq_log (lv_queue s)) \<and> n < length (turn_events cfg env op d0 (wq_log (lv_queue s)) k)) src \<and>
    list_all (\<lambda>e. recorded (wq_db (lv_queue s)) e \<or> sse_event e = EvSuperseded)
      (bk_taken (lv_bus s) i @ bk_buf (lv_bus s) i)"
proof -
  let ?ev = "turn_events cfg env op d0 (wq_log (lv_queue s))"
  have inv: "live_inv (store_requests cfg env op) d0 s" by (rule live_inv_run [OF live_inv_start assms(1)])
  then have reach: "write_reach (store_requests cfg env op) (open_store d0) (lv_queue s)" by (simp add: live_inv_def)
  obtain src where src: "subseq src (lv_origin s)"
      "bk_taken (lv_bus s) i @ bk_buf (lv_bus s) i = map (event_of s) src"
    using inv delivered_subseq [of "lv_bus s" i] by (auto simp: live_inv_def bus_inv_def elim!: subseq_of_map)
  have each: "k \<in> set (wq_log (lv_queue s)) \<and> n < length (?ev k) \<and> event_of s (k, n) = ?ev k ! n \<and>
      (recorded (wq_db (lv_queue s)) (?ev k ! n) \<or> sse_event (?ev k ! n) = EvSuperseded)"
    if "(k, n) \<in> set src" for k n
  proof -
    have "emitted_by s (k, n)"
      using inv that src(1) by (auto simp: live_inv_def bus_inv_def list_all_iff elim: list_emb_set)
    then obtain es where es: "wq_caller (lv_queue s) k = Returned (Inr es)" "n < length es"
      by (auto simp: emitted_by_def)
    from value_recorded [OF reach reachable_base [OF assms(2)] es(1) nth_mem [OF es(2)]]
      returned_value_logged [OF reach es(1)] es returned_events [OF reach es(1)]
    show ?thesis by (simp add: event_of_def)
  qed
  have "distinct src" using inv src(1) by (auto simp: live_inv_def bus_inv_def subseq_conv_nths)
  moreover have got: "bk_taken (lv_bus s) i @ bk_buf (lv_bus s) i = map (\<lambda>(k, n). ?ev k ! n) src"
    unfolding src(2) using each by (intro map_cong) auto
  moreover have "list_all (\<lambda>(k, n). k \<in> set (wq_log (lv_queue s)) \<and> n < length (?ev k)) src"
    using each by (auto simp: list_all_iff)
  moreover have "list_all (\<lambda>e. recorded (wq_db (lv_queue s)) e \<or> sse_event e = EvSuperseded)
      (bk_taken (lv_bus s) i @ bk_buf (lv_bus s) i)"
    unfolding got using each by (auto simp: list_all_iff)
  ultimately show ?thesis using src(1) by (intro exI [of _ src] conjI)
qed

lemma stream_is_recorded_witness:
  "\<exists>s. live_run (store_requests defaults crowd_env hasty_ops) hasty_actions (start_live queued_db) = Some s \<and>
     length (bk_taken (lv_bus s) 0) = 2 \<and> list_all (recorded (wq_db (lv_queue s))) (bk_taken (lv_bus s) 0) \<and>
     (\<exists>src. distinct src \<and> bk_taken (lv_bus s) 0 =
        map (\<lambda>(k, n). turn_events defaults crowd_env hasty_ops queued_db [0, 1] k ! n) src)"
proof -
  define s where "s = the (live_run (store_requests defaults crowd_env hasty_ops) hasty_actions (start_live queued_db))"
  have run: "live_run (store_requests defaults crowd_env hasty_ops) hasty_actions (start_live queued_db) = Some s"
    unfolding s_def by (rule some_the) code_simp
  have "wq_log (lv_queue s) = [0, 1]" "length (bk_taken (lv_bus s) 0) = 2" "bk_buf (lv_bus s) 0 = []"
    "list_all (\<lambda>e. sse_event e \<noteq> EvSuperseded) (bk_taken (lv_bus s) 0)"
    unfolding s_def by code_simp+
  with stream_is_recorded [OF run queued_reachable, of 0] run show ?thesis by (auto simp: list_all_iff)
qed

text \<open>
  The order of the stream is not that of the transactions: the task of the example is reported
  started before it is reported queued, while its timeline has the two the other way round.
\<close>

lemma stream_out_of_order:
  "\<exists>s. live_run (store_requests defaults crowd_env hasty_ops) hasty_actions (start_live queued_db) = Some s \<and>
     map (\<lambda>e. (sse_task_id e, sse_event e)) (bk_taken (lv_bus s) 0) =
       [(replicate 20 (CHR ''i''), EvStarted), (replicate 20 (CHR ''i''), EvQueued)] \<and>
     map ev_event (filter (\<lambda>ev. ev_task_id ev = replicate 20 (CHR ''i'')) (d_events (wq_db (lv_queue s)))) =
       [EvQueued, EvStarted]"
proof -
  define s where "s = the (live_run (store_requests defaults crowd_env hasty_ops) hasty_actions (start_live queued_db))"
  have "live_run (store_requests defaults crowd_env hasty_ops) hasty_actions (start_live queued_db) = Some s"
    unfolding s_def by (rule some_the) code_simp
  moreover have "map (\<lambda>e. (sse_task_id e, sse_event e)) (bk_taken (lv_bus s) 0) =
      [(replicate 20 (CHR ''i''), EvStarted), (replicate 20 (CHR ''i''), EvQueued)]"
    "map ev_event (filter (\<lambda>ev. ev_task_id ev = replicate 20 (CHR ''i'')) (d_events (wq_db (lv_queue s)))) =
      [EvQueued, EvStarted]"
    unfolding s_def by code_simp+
  ultimately show ?thesis by (intro exI [of _ s] conjI)
qed

end
