(* ===== verification/ETQ_Sweep.thy ===== *)
theory ETQ_Sweep
  imports ETQ_Scheduler
begin

section \<open>What one sweep achieves (internal/scheduler/heartbeat.go)\<close>

text \<open>
  ETQ_Scheduler says that no pass leaves the reachable databases.  Here is what the pass over the
  stale attempts gets done when nothing disturbs it: every attempt that was stale is failed and its
  task is on its way to a retry or dead, everything else is as it was.  A pass is a loop over calls
  that each commit, so the proof carries through the loop which rows have been dealt with.
\<close>

text \<open>The rows of a table with a key among \<open>ids\<close> have become \<open>Q\<close>; the others are unchanged.\<close>

definition marked :: "('r \<Rightarrow> string) \<Rightarrow> string set \<Rightarrow> ('r \<Rightarrow> bool) \<Rightarrow> 'r list \<Rightarrow> 'r list \<Rightarrow> bool" where
  "marked key ids Q rs rs' \<longleftrightarrow>
     list_all2 (\<lambda>r r'. key r' = key r \<and> (if key r \<in> ids then Q r' else r' = r)) rs rs'"

lemma marked_refl: "marked key {} Q rs rs"
  by (simp add: marked_def list_all2_refl)

lemma marked_update:
  "(\<And>r. key (f r) = key r) \<Longrightarrow> (\<And>r. Q (f r)) \<Longrightarrow>
     marked key {i} Q rs (update_where (\<lambda>r. key r = i) f rs)"
  by (induction rs) (simp_all add: marked_def)

lemma marked_trans:
  assumes "marked key A Q rs rs'" and "marked key B Q rs' rs''"
  shows "marked key (A \<union> B) Q rs rs''"
  unfolding marked_def
  by (rule list_all2_trans [OF _ assms(1,2) [unfolded marked_def]]) (auto split: if_splits)

lemma marked_keys: "marked key ids Q rs rs' \<Longrightarrow> map key rs' = map key rs"
  unfolding marked_def by (induction rule: list_all2_induct) auto

lemma marked_row:
  "marked key ids Q rs rs' \<Longrightarrow> r' \<in> set rs' \<Longrightarrow>
     \<exists>r \<in> set rs. key r = key r' \<and> (if key r \<in> ids then Q r' else r' = r)"
  by (auto simp: marked_def list_all2_conv_all_nth in_set_conv_nth) (metis nth_mem)+

text \<open>The two verdicts.\<close>

definition timed_out :: "attempt \<Rightarrow> bool" where
  "timed_out a \<longleftrightarrow> a_status a = AFailed \<and> a_error a = Some ''heartbeat timeout'' \<and> a_finished_at a \<noteq> None"

definition sent_back :: "task \<Rightarrow> bool" where
  "sent_back t \<longleftrightarrow> t_status t = Retrying \<or> t_status t = Dead"

text \<open>The event IDs the calls of a pass draw are fresh and differ.\<close>

definition fresh_pass :: "'d pass_env \<Rightarrow> db \<Rightarrow> bool" where
  "fresh_pass p d \<longleftrightarrow>
     (\<forall>k. e_new_id (p_call p k) 0 \<notin> ev_id ` set (d_events d)) \<and> inj (\<lambda>k. e_new_id (p_call p k) 0)"

subsection \<open>One call\<close>

lemma timeout_commits:
  assumes "smooth env" and "find_row a_id aid (d_attempts d) = Some a" and "a_status a = ARunning"
    and "a_task_id a \<in> t_id ` set (d_tasks d)" and "e_new_id env 0 \<notin> ev_id ` set (d_events d)"
  obtains d' es where "TimeoutAttempt env aid d = (Inr (), d', es)"
    and "marked a_id {aid} timed_out (d_attempts d) (d_attempts d')"
    and "marked t_id {a_task_id a} sent_back (d_tasks d) (d_tasks d')"
    and "ev_id ` set (d_events d') = insert (e_new_id env 0) (ev_id ` set (d_events d))"
proof -
  obtain t where t: "find_row t_id (a_task_id a) (d_tasks d) = Some t"
    using assms(4) by (cases "find_row t_id (a_task_id a) (d_tasks d)") (auto simp: find_row_None_iff)
  obtain ev detail label upd where
    rd: "retry_decision env aid ''heartbeat timeout'' (t_retry_count t) (t_max_retries t) = (ev, detail, label, upd)"
    by (metis prod_cases4)
  have upd: "t_id (upd r) = t_id r" "sent_back (upd r)" for r
    using retry_decision_cases [OF rd] by (auto simp: sent_back_def)
  have aid: "a_id a = aid" using find_row_SomeD [OF assms(2)] by simp
  have "\<exists>es. TimeoutAttempt env aid d =
      (Inr (), finish_db (attempt_failed (fmtDBTime (e_now env)) ''heartbeat timeout'') upd a
         \<lparr>ev_id = e_new_id env 0, ev_task_id = a_task_id a, ev_event = EvHeartbeatTimeout,
          ev_detail = Some detail, ev_created_at = fmtDBTime (e_now env)\<rparr> d, es)"
    by (simp add: TimeoutAttempt_def smooth_store_op [where fn = "timeout_tx env aid", OF assms(1)]
        smooth_bodies(4) [OF assms(1-3) t assms(5) rd])
  then show ?thesis
    by (elim exE) (rule that, assumption, auto simp: aid finish_db_def timed_out_def attempt_failed_def upd
        intro!: marked_update)
qed

subsection \<open>The loop\<close>

text \<open>What the loop needs of the attempts it has still to visit: their rows are running, with tasks.\<close>

definition visitable :: "db \<Rightarrow> attempt list \<Rightarrow> bool" where
  "visitable d as \<longleftrightarrow> distinct (map a_id as) \<and>
     (\<forall>a \<in> set as. a_task_id a \<in> t_id ` set (d_tasks d) \<and>
        (\<exists>r. find_row a_id (a_id a) (d_attempts d) = Some r \<and> a_status r = ARunning \<and> a_task_id r = a_task_id a))"

lemma marked_find_other:
  "marked key ids Q rs rs' \<Longrightarrow> k \<notin> ids \<Longrightarrow> find_row key k rs' = find_row key k rs"
  unfolding marked_def by (induction rule: list_all2_induct) auto

lemma visitable_next:
  assumes "visitable d (a # as)" and "marked a_id {a_id a} Q (d_attempts d) (d_attempts d')"
    and "marked t_id ts Q' (d_tasks d) (d_tasks d')"
  shows "visitable d' as"
proof -
  have "t_id ` set (d_tasks d') = t_id ` set (d_tasks d)"
    using marked_keys [OF assms(3)] by (metis set_map)
  then show ?thesis
    using assms(1) marked_find_other [OF assms(2)] by (auto simp: visitable_def image_iff)
qed

lemma scan_loop_clears:
  assumes "quiet p" and "inj (\<lambda>k. e_new_id (p_call p k) 0)"
  shows "visitable d as \<Longrightarrow> \<forall>j \<ge> k. e_new_id (p_call p j) 0 \<notin> ev_id ` set (d_events d) \<Longrightarrow>
    \<exists>d'. scan_loop sched_ops p k as d = (d', []) \<and>
      marked a_id (a_id ` set as) timed_out (d_attempts d) (d_attempts d') \<and>
      marked t_id (a_task_id ` set as) sent_back (d_tasks d) (d_tasks d')"
proof (induction as arbitrary: k d)
  case Nil
  show ?case by (simp add: marked_refl)
next
  case (Cons a as)
  note q = quiet_simps [OF assms(1)]
  from Cons.prems(1) obtain r where r: "find_row a_id (a_id a) (d_attempts d) = Some r" "a_status r = ARunning"
      "a_task_id r = a_task_id a" "a_task_id r \<in> t_id ` set (d_tasks d)"
    by (auto simp: visitable_def)
  have fresh: "e_new_id (p_call p k) 0 \<notin> ev_id ` set (d_events d)" using Cons.prems(2) by simp
  obtain d1 es where d1: "TimeoutAttempt (p_call p k) (a_id a) d = (Inr (), d1, es)"
      "marked a_id {a_id a} timed_out (d_attempts d) (d_attempts d1)"
      "marked t_id {a_task_id a} sent_back (d_tasks d) (d_tasks d1)"
      "ev_id ` set (d_events d1) = insert (e_new_id (p_call p k) 0) (ev_id ` set (d_events d))"
    by (rule timeout_commits [OF q(4) r(1,2,4) fresh, unfolded r(3)])
  have "\<forall>j \<ge> k + 1. e_new_id (p_call p j) 0 \<notin> ev_id ` set (d_events d1)"
  proof (intro allI impI)
    fix j assume "k + 1 \<le> j"
    moreover from this have "e_new_id (p_call p j) 0 \<noteq> e_new_id (p_call p k) 0"
      using inj_eq [OF assms(2), of j k] by simp
    ultimately show "e_new_id (p_call p j) 0 \<notin> ev_id ` set (d_events d1)"
      using Cons.prems(2) by (simp add: d1(4))
  qed
  from Cons.IH [OF visitable_next [OF Cons.prems(1) d1(2,3)] this] obtain d2 where
    d2: "scan_loop sched_ops p (k + 1) as d1 = (d2, [])"
      "marked a_id (a_id ` set as) timed_out (d_attempts d1) (d_attempts d2)"
      "marked t_id (a_task_id ` set as) sent_back (d_tasks d1) (d_tasks d2)" by auto
  show ?case
    using marked_trans [OF d1(2) d2(2)] marked_trans [OF d1(3) d2(3)] d1(1) d2(1) by (simp add: q)
qed

lemma visitable_stale:
  assumes "keys_ok d" and "tasks_exist d"
  shows "visitable d (map scanAttempt (order_by key (filter (stale c) (d_attempts d))))"
proof -
  have "distinct (map a_id (d_attempts d))" using assms(1) by (simp add: keys_ok_def)
  moreover from this have "distinct (map a_id (order_by key (filter (stale c) (d_attempts d))))"
    by (simp add: order_by_def distinct_map inj_on_def)
  ultimately show ?thesis
    using assms(2)
    by (auto simp: visitable_def comp_def scanAttempt_def stale_def tasks_exist_def find_row_unique)
qed

text \<open>C21: A sweep that nothing disturbs does its whole work: afterwards no attempt is stale; exactly those that
  were are failed with a heartbeat timeout, with their tasks retrying or dead; every other attempt and
  every other task is as it was, and no error is reported.\<close>

theorem scan_clears_stale:
  assumes "reachable cfg any_call d" and "quiet p" and "fresh_pass p d"
    and "c = fmtDBTime (time_add (p_now p) (- cutoff))"
  shows "\<exists>d'. scan sched_ops cutoff p d = (d', []) \<and> list_all (\<lambda>a. \<not> stale c a) (d_attempts d') \<and>
    marked a_id (a_id ` set (filter (stale c) (d_attempts d))) timed_out (d_attempts d) (d_attempts d') \<and>
    marked t_id (a_task_id ` set (filter (stale c) (d_attempts d))) sent_back (d_tasks d) (d_tasks d')"
proof -
  note q = quiet_simps [OF assms(2)]
  have ok: "keys_ok d" "tasks_exist d" using reachable_base [OF assms(1)] by (simp_all add: base_ok_def)
  define as where "as = map scanAttempt (order_by (\<lambda>a. e_tie (p_call p 0) (a_id a)) (filter (stale c) (d_attempts d)))"
  have found: "FindStaleAttempts (p_call p 0) (time_add (p_now p) (- cutoff)) d = Inr as"
    by (simp add: FindStaleAttempts_def q as_def assms(4))
  have ids: "a_id ` set as = a_id ` set (filter (stale c) (d_attempts d))"
    "a_task_id ` set as = a_task_id ` set (filter (stale c) (d_attempts d))"
    by (simp_all add: as_def image_image scanAttempt_def)
  from scan_loop_clears [OF assms(2), of d as 1] visitable_stale [OF ok] assms(3) obtain d' where
    d': "scan_loop sched_ops p 1 as d = (d', [])" "marked a_id (a_id ` set as) timed_out (d_attempts d) (d_attempts d')"
      "marked t_id (a_task_id ` set as) sent_back (d_tasks d) (d_tasks d')"
    by (auto simp: fresh_pass_def as_def)
  have "\<not> stale c a'" if a': "a' \<in> set (d_attempts d')" for a'
  proof -
    from marked_row [OF d'(2) a'] obtain a where a: "a \<in> set (d_attempts d)" "a_id a = a_id a'"
      "if a_id a \<in> a_id ` set as then timed_out a' else a' = a" by blast
    show ?thesis
    proof (cases "a_id a \<in> a_id ` set as")
      case True
      with a(3) show ?thesis by (simp add: timed_out_def stale_def)
    next
      case False
      with a ids(1) show ?thesis by auto
    qed
  qed
  then show ?thesis using d' ids by (simp add: scan_def q found list_all_iff)
qed

lemma fresh_pass_demo:
  assumes "list_all (\<lambda>e. length (ev_id e) < 90) (d_events d)"
  shows "fresh_pass (demo_pass 90) d"
proof -
  have id: "e_new_id (p_call (demo_pass 90) k) 0 = replicate (90 + k) (CHR ''i'')" for k
    by (simp add: demo_pass_def demo_env_def nat_add_distrib)
  have "inj (\<lambda>k. replicate (90 + k) (CHR ''i''))" by (rule injI) (metis add_left_cancel length_replicate)
  moreover have "replicate (90 + k) (CHR ''i'') \<notin> ev_id ` set (d_events d)" for k
  proof
    assume "replicate (90 + k) (CHR ''i'') \<in> ev_id ` set (d_events d)"
    then obtain e where "e \<in> set (d_events d)" "length (ev_id e) = 90 + k" by (metis imageE length_replicate)
    with assms show False by (auto simp: list_all_iff)
  qed
  ultimately show ?thesis unfolding fresh_pass_def id by blast
qed

lemma scan_clears_stale_witness:
  "\<exists>d'. scan sched_ops 0 (demo_pass 90) demo_db = (d', []) \<and> list_all (\<lambda>a. \<not> stale 90 a) (d_attempts d') \<and>
     length (filter (stale 90) (d_attempts demo_db)) = 1"
proof -
  have now: "fmtDBTime (time_add (p_now (demo_pass 90)) (- 0)) = 90" by code_simp
  have "list_all (\<lambda>e. length (ev_id e) < 90) (d_events demo_db)" "length (filter (stale 90) (d_attempts demo_db)) = 1"
    by code_simp+
  then show ?thesis
    using scan_clears_stale [OF demo_reachable quiet_demo fresh_pass_demo now [symmetric]] by auto
qed

end
