(* ===== verification/ETQ_Drain.thy ===== *)
theory ETQ_Drain
  imports ETQ_Queue
begin

section \<open>A worker drains its queue (internal/queue/pool.go, worker.go)\<close>

text \<open>
  ETQ_Queue says what a cycle records when it runs a task, whatever it meets.  Here is what the loop of
  a pool goroutine gets done when it meets nothing: with room under the limits, every due task of its
  queue that it has a handler for is executed, once, and ends as its handler decided.
\<close>

subsection \<open>What the loop meets\<close>

text \<open>A round no fault, no other goroutine and no cancellation disturbs, at time \<open>c\<close> or later.\<close>

definition calm_run :: "db run_env \<Rightarrow> bool" where
  "calm_run p \<longleftrightarrow> (\<forall>k d. r_other p k d = d) \<and> \<not> r_over p \<and> (\<forall>k. smooth (r_call p k))"

definition calm_round :: "dbtime \<Rightarrow> db round \<Rightarrow> bool" where
  "calm_round c p \<longleftrightarrow> \<not> rd_over p \<and> \<not> rd_done p \<and> calm_run (rd_run p) \<and>
     c \<le> fmtDBTime (e_now (r_call (rd_run p) 0))"

text \<open>The IDs a round draws (of the attempt, of its started event, of the event of its end) are new.\<close>

definition fresh_cycle :: "db run_env \<Rightarrow> db \<Rightarrow> bool" where
  "fresh_cycle p d \<longleftrightarrow>
     (let start = r_call p 0; fin = e_new_id (r_call p (Suc (r_beats p))) 0 in
      list_all (\<lambda>a. a_id a \<noteq> e_new_id start 0) (d_attempts d) \<and>
      list_all (\<lambda>e. ev_id e \<noteq> e_new_id start 1 \<and> ev_id e \<noteq> fin) (d_events d) \<and> fin \<noteq> e_new_id start 1)"

fun fresh_rounds :: "run_config \<Rightarrow> db round list \<Rightarrow> db \<Rightarrow> bool" where
  "fresh_rounds rc [] d = True"
| "fresh_rounds rc (p # ps) d =
     (fresh_cycle (rd_run p) d \<and> fresh_rounds rc ps (snd (RunOnce store_ops (rd_run p) rc d)))"

text \<open>No limit of the configuration keeps the worker from one more task.\<close>

definition room :: "run_config \<Rightarrow> db \<Rightarrow> bool" where
  "room rc d \<longleftrightarrow> count_where running (d_tasks d) < c_global (rc_config rc) \<and>
     \<not> queue_full (rc_config rc) d (rc_queue rc) \<and>
     list_all (\<lambda>ty. \<not> type_full (rc_config rc) d ty) (TaskTypes (rc_registry rc))"

definition eligible :: "run_config \<Rightarrow> task \<Rightarrow> bool" where
  "eligible rc t \<longleftrightarrow> t_status t = Queued \<and> t_queue t = rc_queue rc \<and> t_type t \<in> set (TaskTypes (rc_registry rc))"

text \<open>What an execution makes of a task: succeeded, or, by its retries, retrying or dead.\<close>

definition executed :: "run_config \<Rightarrow> task \<Rightarrow> task \<Rightarrow> bool" where
  "executed rc t t' \<longleftrightarrow> t_id t' = t_id t \<and>
     t_status t' =
       (case Dispatch (rc_registry rc) (buildExecCtx (t_timeout_secs t)) t of
          Inr _ \<Rightarrow> Succeeded
        | Inl _ \<Rightarrow> if t_retry_count t < t_max_retries t then Retrying else Dead)"

definition worked_off :: "run_config \<Rightarrow> task \<Rightarrow> task \<Rightarrow> bool" where
  "worked_off rc t t' \<longleftrightarrow> t' = t \<or> eligible rc t \<and> executed rc t t'"

lemma executed_status: "executed rc t t' \<Longrightarrow> t_status t' \<in> {Succeeded, Retrying, Dead}"
  by (auto simp: executed_def split: sum.splits)

lemma worked_off_trans:
  "worked_off rc t t' \<Longrightarrow> worked_off rc t' t'' \<Longrightarrow> worked_off rc t t''"
  by (auto simp: worked_off_def eligible_def dest: executed_status)

subsection \<open>Heartbeats\<close>

text \<open>While the handler runs only the attempt's sign of life changes.\<close>

definition alive :: "db \<Rightarrow> string \<Rightarrow> string \<Rightarrow> db \<Rightarrow> bool" where
  "alive d aid tid d' \<longleftrightarrow> d_tasks d' = d_tasks d \<and> d_events d' = d_events d \<and> d_workers d' = d_workers d \<and>
     (\<exists>a. find_row a_id aid (d_attempts d') = Some a \<and> a_status a = ARunning \<and> a_task_id a = tid)"

lemma find_row_update_any:
  "(\<And>r. key (f r) = key r) \<Longrightarrow>
     find_row key k (update_where P f rs) = map_option (\<lambda>r. if P r then f r else r) (find_row key k rs)"
  by (induction rs) auto

lemma heartbeat_alive:
  assumes "alive d aid tid d'"
  shows "alive d aid tid (heartbeat_db now aid d')"
proof -
  obtain a where a: "find_row a_id aid (d_attempts d') = Some a" "a_status a = ARunning" "a_task_id a = tid"
    using assms by (auto simp: alive_def)
  then have "find_row a_id aid (d_attempts (heartbeat_db now aid d')) =
      Some (if a_id a = aid then a\<lparr>a_heartbeat_at := Some now\<rparr> else a)"
    by (simp add: heartbeat_db_def find_row_update_any)
  then show ?thesis using assms a(2,3) by (simp add: alive_def heartbeat_db_def)
qed

lemma heartbeats_alive:
  assumes "calm_run p" and "alive d aid tid d"
  shows "alive d aid tid (heartbeats store_ops p aid n d)"
proof (induction n)
  case (Suc n)
  have "smooth (r_call p (Suc n))" "r_other p (Suc n) x = x" for x using assms(1) by (simp_all add: calm_run_def)
  moreover from this(1) have "e_fault (r_call p (Suc n)) l = False" for l by (simp add: smooth_def)
  ultimately show ?case using heartbeat_alive [OF Suc.IH]
    by (simp add: Let_def store_ops_simps sans_events_def UpdateHeartbeat_def
        smooth_store_op [where fn = "sql e l (exec f)" for e l f] sql_def exec_def)
qed (use assms(2) in simp)

subsection \<open>One cycle\<close>

lemma update_where_twice:
  "(\<And>r. key (f r) = key r) \<Longrightarrow>
     update_where (\<lambda>r. key r = k) g (update_where (\<lambda>r. key r = k) f rs) = update_where (\<lambda>r. key r = k) (\<lambda>r. g (f r)) rs"
  by (induction rs) auto

lemma Dispatch_row:
  "Dispatch reg ctx (scanTask (claim_row now r)) = Dispatch reg ctx r"
  "t_timeout_secs (claim_row now r) = t_timeout_secs r"
  by (simp_all add: Dispatch_def scanTask_def claim_row_def split: option.split)

lemma calm_claim:
  assumes "reachable cfg any_call d" and "smooth env" and "wid \<in> w_id ` set (d_workers d)"
    and "list_all (\<lambda>a. a_id a \<noteq> e_new_id env 0) (d_attempts d)" and "list_all (\<lambda>e. ev_id e \<noteq> e_new_id env 1) (d_events d)"
  obtains (none) "claim_pick env cfg q types d = None" "ClaimTask env cfg wid q types d = (Inr None, d, [])"
  | (some) r es where "claim_pick env cfg q types d = Some r"
      "ClaimTask env cfg wid q types d =
        (Inr (Some (scanTask (claim_row (fmtDBTime (e_now env)) r), e_new_id env 0)), claim_db env wid (t_id r) d, es)"
proof (cases "claim_pick env cfg q types d")
  case None
  with none smooth_claim_none [OF assms(2) None] show ?thesis by blast
next
  case (Some r)
  have "e_new_id env 0 \<notin> a_id ` set (d_attempts d)" "e_new_id env 1 \<notin> ev_id ` set (d_events d)"
    using assms(4,5) by (auto simp: list_all_iff)
  moreover have "ref_ok (e_fk env) (Some wid) (map w_id (d_workers d))" using assms(3) by (simp add: ref_ok_def)
  moreover have "distinct (map t_id (d_tasks d))" using reachable_keys [OF assms(1)] by (simp add: keys_ok_def)
  ultimately have body: "claim_tx env cfg wid q types d =
      (Inr (Some (scanTask (claim_row (fmtDBTime (e_now env)) r), e_new_id env 0)), claim_db env wid (t_id r) d)"
    using smooth_claim_tx [OF assms(2) _ Some] by blast
  have "types \<noteq> []" using claim_pick_Some(4) [OF Some] by auto
  then have "\<exists>es. ClaimTask env cfg wid q types d =
      (Inr (Some (scanTask (claim_row (fmtDBTime (e_now env)) r), e_new_id env 0)), claim_db env wid (t_id r) d, es)"
    by (simp add: ClaimTask_def smooth_store_op [OF assms(2)] body)
  then show ?thesis using some Some by blast
qed

text \<open>The report of an outcome on a running attempt.\<close>

lemma calm_report:
  assumes "smooth env" and "find_row a_id aid (d_attempts d) = Some a" and "a_status a = ARunning"
    and "find_row t_id (a_task_id a) (d_tasks d) = Some t" and "e_new_id env 0 \<notin> ev_id ` set (d_events d)"
  shows "\<exists>g d'. report store_ops env False out aid d = ((True, None), d') \<and>
    d_tasks d' = update_where (\<lambda>x. t_id x = a_task_id a) g (d_tasks d) \<and>
    d_workers d' = release_rows (worker_str a) (d_workers d) \<and> t_id (g t) = t_id t \<and>
    t_status (g t) = (case out of Inr _ \<Rightarrow> Succeeded | Inl _ \<Rightarrow> if t_retry_count t < t_max_retries t then Retrying else Dead)"
proof (cases out)
  case (Inr result)
  have "\<exists>es. SucceedAttempt env aid result d = (Inr (),
      finish_db (attempt_succeeded (fmtDBTime (e_now env)) result) (task_to Succeeded (fmtDBTime (e_now env))) a
        \<lparr>ev_id = e_new_id env 0, ev_task_id = a_task_id a, ev_event = EvSucceeded,
         ev_detail = Some [(''attempt_id'', JStr aid)], ev_created_at = fmtDBTime (e_now env)\<rparr> d, es)"
    by (simp add: SucceedAttempt_def smooth_store_op [where fn = "succeed_tx env aid result", OF assms(1)]
        smooth_bodies(1) [OF assms])
  then show ?thesis using Inr
    by (intro exI [of _ "task_to Succeeded (fmtDBTime (e_now env))"] exI)
      (auto simp: report_def store_ops_simps sans_events_def finish_db_def task_to_def)
next
  case (Inl msg)
  obtain ev detail label upd where
    rd: "retry_decision env aid msg (t_retry_count t) (t_max_retries t) = (ev, detail, label, upd)"
    by (metis prod_cases4)
  have "\<exists>es. FailAttempt env aid msg d = (Inr (),
      finish_db (attempt_failed (fmtDBTime (e_now env)) msg) upd a
        \<lparr>ev_id = e_new_id env 0, ev_task_id = a_task_id a, ev_event = ev,
         ev_detail = Some detail, ev_created_at = fmtDBTime (e_now env)\<rparr> d, es)"
    by (simp add: FailAttempt_def smooth_store_op [where fn = "fail_tx env aid msg", OF assms(1)]
        smooth_bodies(3) [OF assms rd])
  moreover have "t_id (upd t) = t_id t" "t_status (upd t) = (if t_retry_count t < t_max_retries t then Retrying else Dead)"
    using retry_decision_cases [OF rd] by (auto simp: task_retrying_def task_to_def)
  ultimately show ?thesis using Inl
    by (intro exI [of _ upd] exI) (auto simp: report_def store_ops_simps sans_events_def finish_db_def)
qed

text \<open>The whole cycle: nothing due is waiting, or one waiting task is executed and the rest is as it was.\<close>

lemma calm_cycle:
  assumes "reachable cfg any_call d" and "rc_config rc = cfg" and "calm_run p" and "fresh_cycle p d"
    and "rc_worker rc \<in> w_id ` set (d_workers d)" and "room rc d"
  obtains (idle) "RunOnce store_ops p rc d = ((False, None), d)"
      "\<And>t. t \<in> set (d_tasks d) \<Longrightarrow> eligible rc t \<Longrightarrow> fmtDBTime (e_now (r_call p 0)) < t_run_at t"
  | (ran) r h d' where "RunOnce store_ops p rc d = ((True, None), d')" "r \<in> set (d_tasks d)" "eligible rc r"
      "executed rc r (h r)" "d_tasks d' = update_where (\<lambda>t. t_id t = t_id r) h (d_tasks d)"
      "w_id ` set (d_workers d') = w_id ` set (d_workers d)"
proof (cases "TaskTypes (rc_registry rc) = []")
  case True
  then show ?thesis by (intro idle) (simp_all add: RunOnce_def eligible_def TaskTypes_def)
next
  case False
  let ?start = "r_call p 0" and ?fin = "r_call p (Suc (r_beats p))"
  have sm: "smooth ?start" "smooth ?fin" and other: "r_other p k x = x" "\<not> r_over p" for k x
    using assms(3) by (simp_all add: calm_run_def)
  have fresh: "list_all (\<lambda>a. a_id a \<noteq> e_new_id ?start 0) (d_attempts d)" "list_all (\<lambda>e. ev_id e \<noteq> e_new_id ?start 1) (d_events d)"
    "list_all (\<lambda>e. ev_id e \<noteq> e_new_id ?fin 0) (d_events d)" "e_new_id ?fin 0 \<noteq> e_new_id ?start 1"
    using assms(4) by (simp_all add: fresh_cycle_def Let_def list_all_iff)
  have ids: "distinct (map t_id (d_tasks d))" using reachable_keys [OF assms(1)] by (simp add: keys_ok_def)
  show ?thesis
  proof (rule calm_claim [OF assms(1) sm(1) assms(5) fresh(1,2), of "rc_queue rc" "TaskTypes (rc_registry rc)"], goal_cases)
    case 1
    have "fmtDBTime (e_now ?start) < t_run_at t" if "t \<in> set (d_tasks d)" "eligible rc t" for t
    proof (rule ccontr)
      assume "\<not> fmtDBTime (e_now ?start) < t_run_at t"
      with that assms(2,6) have "claimable (rc_queue rc) (filter (\<lambda>ty. \<not> type_full cfg d ty) (TaskTypes (rc_registry rc)))
          (fmtDBTime (e_now ?start)) t" by (auto simp: claimable_def eligible_def room_def list_all_iff)
      with 1(1) that(1) assms(2,6) show False
        by (auto simp: claim_pick_def room_def filter_empty_conv split: if_splits list.splits)
    qed
    moreover have "RunOnce store_ops p rc d = ((False, None), d)"
      using False 1(2) by (simp add: RunOnce_def Let_def store_ops_simps sans_events_def other assms(2))
    ultimately show ?thesis by (rule idle [rotated])
  next
    case (2 r es)
    note pick = claim_pick_Some [OF 2(1)]
    let ?aid = "e_new_id ?start 0" and ?now = "fmtDBTime (e_now ?start)"
    define d1 where "d1 = claim_db ?start (rc_worker rc) (t_id r) d"
    define d2 where "d2 = heartbeats store_ops p ?aid (r_beats p) d1"
    have "find_row a_id ?aid (d_attempts d) = None" using fresh(1) by (auto simp: find_row_None_iff list_all_iff)
    then have "alive d1 ?aid (t_id r) d1"
      by (simp add: alive_def d1_def claim_db_fields find_row_append claim_attempt_def)
    from heartbeats_alive [OF assms(3) this, of "r_beats p"] have al: "alive d1 ?aid (t_id r) d2" by (simp add: d2_def)
    then obtain a where a: "find_row a_id ?aid (d_attempts d2) = Some a" "a_status a = ARunning" "a_task_id a = t_id r"
      by (auto simp: alive_def)
    have tasks: "d_tasks d2 = update_where (\<lambda>t. t_id t = t_id r) (claim_row ?now) (d_tasks d)"
      using al by (simp add: alive_def d1_def claim_db_fields)
    have row: "find_row t_id (a_task_id a) (d_tasks d2) = Some (claim_row ?now r)"
      using find_row_unique [OF ids, of "t_id r" r] pick(1)
      by (simp add: tasks a(3) find_row_update_same [where f = "claim_row _"])
    have "e_new_id ?fin 0 \<notin> ev_id ` set (d_events d2)"
      using al fresh(3,4) by (auto simp: alive_def d1_def claim_db_fields list_all_iff)
    from calm_report [OF sm(2) a(1,2) row this,
        of "Dispatch (rc_registry rc) (buildExecCtx (t_timeout_secs r)) r"] obtain g d' where
      rep: "report store_ops ?fin False (Dispatch (rc_registry rc) (buildExecCtx (t_timeout_secs r)) r) ?aid d2 = ((True, None), d')"
      and d': "d_tasks d' = update_where (\<lambda>x. t_id x = a_task_id a) g (d_tasks d2)"
        "d_workers d' = release_rows (worker_str a) (d_workers d2)" "t_id (g (claim_row ?now r)) = t_id r"
        "t_status (g (claim_row ?now r)) = (case Dispatch (rc_registry rc) (buildExecCtx (t_timeout_secs r)) r of
           Inr _ \<Rightarrow> Succeeded | Inl _ \<Rightarrow> if t_retry_count r < t_max_retries r then Retrying else Dead)"
      by (auto simp: claim_row_def)
    have "RunOnce store_ops p rc d = ((True, None), d')"
      using False 2(2) rep
      by (simp add: RunOnce_def Let_def store_ops_simps sans_events_def other assms(2) Dispatch_row d1_def d2_def)
    moreover have "executed rc r ((\<lambda>t. g (claim_row ?now t)) r)" using d'(3,4) by (simp add: executed_def)
    moreover have "d_tasks d' = update_where (\<lambda>t. t_id t = t_id r) (\<lambda>t. g (claim_row ?now t)) (d_tasks d)"
      unfolding d'(1) a(3) tasks by (rule update_where_twice) (simp add: claim_row_def)
    moreover have "w_id ` set (d_workers d') = w_id ` set (d_workers d)"
    proof -
      have "map w_id (d_workers d') = map w_id (d_workers d)"
        using al by (simp add: d'(2) alive_def d1_def claim_db_fields map_update_where_frame worker_inc_def)
      then show ?thesis by (metis set_map)
    qed
    moreover have "eligible rc r" using pick(2-4) by (simp add: eligible_def)
    ultimately show ?thesis using pick(1)
      by (intro ran [where r = r and h = "\<lambda>t. g (claim_row ?now t)" and d' = d'])
  qed
qed

subsection \<open>The loop\<close>

lemma executed_row:
  assumes "reachable cfg any_call d" and "r \<in> set (d_tasks d)" and "eligible rc r" and "executed rc r (h r)"
    and "d_tasks d' = update_where (\<lambda>t. t_id t = t_id r) h (d_tasks d)"
  shows "room rc d' \<longleftrightarrow> room rc d"
    and "count_where (eligible rc) (d_tasks d') = count_where (eligible rc) (d_tasks d) - 1"
    and "list_all2 (worked_off rc) (d_tasks d) (d_tasks d')"
proof -
  have ids: "distinct (map t_id (d_tasks d))" using reachable_keys [OF assms(1)] by (simp add: keys_ok_def)
  have row: "find_row t_id (t_id r) (d_tasks d) = Some r" using ids assms(2) by (simp add: find_row_unique)
  note count = count_where_update_row [OF ids row, of _ h, folded assms(5)]
  have s: "\<not> running r" "\<not> running (h r)" "\<not> eligible rc (h r)"
    using assms(3) executed_status [OF assms(4)] by (auto simp: running_def eligible_def)
  then show "room rc d' \<longleftrightarrow> room rc d"
    by (simp add: room_def queue_full_def type_full_def count)
  show "count_where (eligible rc) (d_tasks d') = count_where (eligible rc) (d_tasks d) - 1"
    using s(3) assms(3) by (simp add: count)
  have "x = r" if x: "x \<in> set (d_tasks d)" "t_id x = t_id r" for x
  proof -
    have "find_row t_id (t_id r) (d_tasks d) = Some x" using x by (simp add: find_row_unique [OF ids])
    with row show ?thesis by simp
  qed
  then show "list_all2 (worked_off rc) (d_tasks d) (d_tasks d')"
    using assms(3,4) by (auto simp: assms(5) update_where_def list_all2_map2 list_all2_same worked_off_def)
qed

definition none_due :: "run_config \<Rightarrow> dbtime \<Rightarrow> db \<Rightarrow> bool" where
  "none_due rc c d \<longleftrightarrow> list_all (\<lambda>t. \<not> (eligible rc t \<and> t_run_at t \<le> c)) (d_tasks d)"

lemma worked_off_none_due:
  assumes "list_all2 (worked_off rc) (d_tasks d) (d_tasks d')" and "none_due rc c d"
  shows "none_due rc c d'"
proof -
  have "\<not> (eligible rc t' \<and> t_run_at t' \<le> c)" if t': "t' \<in> set (d_tasks d')" for t'
  proof -
    obtain t where t: "t \<in> set (d_tasks d)" "worked_off rc t t'"
      using assms(1) t' by (metis list_all2_conv_all_nth in_set_conv_nth)
    then show ?thesis
      using assms(2) by (auto simp: none_due_def list_all_iff worked_off_def eligible_def dest: executed_status)
  qed
  then show ?thesis by (simp add: none_due_def list_all_iff)
qed

lemma calm_rounds:
  assumes "rc_config rc = cfg"
  shows "reachable cfg any_call d \<Longrightarrow> rc_worker rc \<in> w_id ` set (d_workers d) \<Longrightarrow> room rc d \<Longrightarrow>
    list_all (calm_round c) ps \<Longrightarrow> fresh_rounds rc ps d \<Longrightarrow>
    none_due rc c d \<or> count_where (eligible rc) (d_tasks d) \<le> int (length ps) \<Longrightarrow>
    \<exists>d'. pool_poll store_ops rc ps d = (False, d', []) \<and>
      list_all2 (worked_off rc) (d_tasks d) (d_tasks d') \<and> none_due rc c d'"
proof (induction ps arbitrary: d)
  case Nil
  have "none_due rc c d"
    using Nil.prems(6) count_where_pos [of _ "d_tasks d" "eligible rc"] by (force simp: none_due_def list_all_iff)
  then show ?case by (simp add: list_all2_refl worked_off_def)
next
  case (Cons p ps)
  have p: "\<not> rd_over p" "\<not> rd_done p" "calm_run (rd_run p)" "c \<le> fmtDBTime (e_now (r_call (rd_run p) 0))"
    "list_all (calm_round c) ps" "fresh_cycle (rd_run p) d"
    "fresh_rounds rc ps (snd (RunOnce store_ops (rd_run p) rc d))"
    using Cons.prems(4,5) by (simp_all add: calm_round_def [of c p])
  have trans: "list_all2 (worked_off rc) (d_tasks d) (d_tasks d2)"
    if "list_all2 (worked_off rc) (d_tasks d) (d_tasks d1)" "list_all2 (worked_off rc) (d_tasks d1) (d_tasks d2)" for d1 d2
    by (rule list_all2_trans [OF worked_off_trans that])
  show ?case
  proof (rule calm_cycle [OF Cons.prems(1) assms p(3,6) Cons.prems(2,3)], goal_cases)
    case 1
    have "none_due rc c d" using 1(2) p(4) by (fastforce simp: none_due_def list_all_iff)
    with Cons.IH [OF Cons.prems(1-3) p(5)] p(7) 1(1) obtain d' where
      "pool_poll store_ops rc ps d = (False, d', [])" "list_all2 (worked_off rc) (d_tasks d) (d_tasks d')" "none_due rc c d'"
      by auto
    then show ?case using p(1,2) 1(1) by simp
  next
    case (2 r h d1)
    note e = executed_row [OF Cons.prems(1) 2(2-5)]
    have ok: "reachable cfg any_call d1"
      using pool_store.RunOnce_ok [OF Cons.prems(1) _ assms 2(1)] p(3) by (simp add: calm_run_def)
    have "none_due rc c d1 \<or> count_where (eligible rc) (d_tasks d1) \<le> int (length ps)"
      using Cons.prems(6) worked_off_none_due [OF e(3)] e(2) by auto
    with Cons.IH [OF ok _ _ p(5)] p(7) 2(1,6) e(1) Cons.prems(2,3) obtain d' where
      "pool_poll store_ops rc ps d1 = (False, d', [])" "list_all2 (worked_off rc) (d_tasks d1) (d_tasks d')" "none_due rc c d'"
      by auto
    then show ?case using p(1,2) 2(1) trans [OF e(3)] by simp
  qed
qed

text \<open>C11: A worker drains its queue: when no fault, no other goroutine and no limit stands in its way, then after as
  many rounds as tasks are waiting, none that was due at the first of them is waiting any more; every
  task is either as it was or was waiting and is now succeeded, retrying or dead, as its handler's return
  and its retries say; no error is reported and the goroutine is still there for what comes.\<close>

theorem pool_drains:
  assumes "reachable (rc_config rc) any_call d" and "rc_worker rc \<in> w_id ` set (d_workers d)" and "room rc d"
    and "list_all (calm_round c) ps" and "fresh_rounds rc ps d"
    and "count_where (eligible rc) (d_tasks d) \<le> int (length ps)"
  shows "\<exists>d'. pool_poll store_ops rc ps d = (False, d', []) \<and>
    list_all2 (worked_off rc) (d_tasks d) (d_tasks d') \<and>
    list_all (\<lambda>t. \<not> (eligible rc t \<and> t_run_at t \<le> c)) (d_tasks d')"
  using calm_rounds [OF refl assms(1-5)] assms(6) by (auto simp: none_due_def)

text \<open>An example: two queued tasks, two rounds of the one worker.\<close>

definition calm_example :: "int \<Rightarrow> db round" where
  "calm_example n = \<lparr>rd_over = False,
     rd_run = \<lparr>r_call = (\<lambda>k. demo_env (n + int k)), r_other = (\<lambda>_ d. d), r_beats = 1, r_over = False\<rparr>,
     rd_over_err = False, rd_done = False\<rparr>"

lemma pool_drains_witness:
  "\<exists>d'. pool_poll store_ops demo_run [calm_example 10, calm_example 20] queued_db = (False, d', []) \<and>
     list_all (\<lambda>t. \<not> (eligible demo_run t \<and> t_run_at t \<le> 10)) (d_tasks d') \<and>
     map t_status (d_tasks queued_db) = [Queued, Queued]"
proof -
  have pre: "rc_worker demo_run \<in> w_id ` set (d_workers queued_db)" "room demo_run queued_db"
    "fresh_rounds demo_run [calm_example 10, calm_example 20] queued_db"
    "count_where (eligible demo_run) (d_tasks queued_db) \<le> int (length [calm_example 10, calm_example 20])"
    "map t_status (d_tasks queued_db) = [Queued, Queued]"
    by code_simp+
  have calm: "list_all (calm_round 10) [calm_example 10, calm_example 20]"
    by (simp add: calm_round_def calm_run_def calm_example_def demo_env_def smooth_def fmtDBTime_def)
  have "reachable (rc_config demo_run) any_call queued_db" using queued_reachable by (simp add: demo_run_def)
  from pool_drains [OF this pre(1,2) calm pre(3,4)] pre(5) show ?thesis by (elim exE conjE) (intro exI conjI)
qed

end
