(* ===== verification/ETQ_Recovery.thy ===== *)
theory ETQ_Recovery
  imports ETQ_Sweep ETQ_Drain
begin

section \<open>A task whose worker died is run again\<close>

text \<open>
  Three goroutines that share nothing but the database bring a lost task back: the sweep fails its
  attempt (heartbeat.go), the retry scheduler queues it when its backoff is over (retry.go), a worker
  of the pool runs it (worker.go).  Here the three are put one after the other, each undisturbed, and
  one task is followed through.
\<close>

subsection \<open>Following a row\<close>

lemma marked_other_row:
  "marked key ids Q rs rs' \<Longrightarrow> k \<notin> ids \<Longrightarrow> find_row key k rs = Some r \<Longrightarrow> find_row key k rs' = Some r"
  by (simp add: marked_find_other)

text \<open>The row of a task after a failure that leaves it another try.\<close>

definition put_back :: "env \<Rightarrow> task \<Rightarrow> task" where
  "put_back env t =
     task_retrying (fmtDBTime (time_add (e_now env) (retryBackoff (t_retry_count t)))) (fmtDBTime (e_now env)) t"

text \<open>What the timeout makes of the task: retrying, once more, when its backoff is over.\<close>

lemma timeout_retries:
  assumes "smooth env" and "find_row a_id aid (d_attempts d) = Some a" and "a_status a = ARunning"
    and "find_row t_id (a_task_id a) (d_tasks d) = Some t" and "t_retry_count t < t_max_retries t"
    and "e_new_id env 0 \<notin> ev_id ` set (d_events d)"
  shows "\<exists>d' es. TimeoutAttempt env aid d = (Inr (), d', es) \<and>
    find_row t_id (a_task_id a) (d_tasks d') =
      Some (put_back env t)"
proof -
  obtain ev detail label upd where
    rd: "retry_decision env aid ''heartbeat timeout'' (t_retry_count t) (t_max_retries t) = (ev, detail, label, upd)"
    by (metis prod_cases4)
  have upd: "upd = task_retrying (fmtDBTime (time_add (e_now env) (retryBackoff (t_retry_count t)))) (fmtDBTime (e_now env))"
    using retry_decision_cases [OF rd] assms(5) by simp
  have "\<exists>es. TimeoutAttempt env aid d =
      (Inr (), finish_db (attempt_failed (fmtDBTime (e_now env)) ''heartbeat timeout'') upd a
         \<lparr>ev_id = e_new_id env 0, ev_task_id = a_task_id a, ev_event = EvHeartbeatTimeout,
          ev_detail = Some detail, ev_created_at = fmtDBTime (e_now env)\<rparr> d, es)"
    by (simp add: TimeoutAttempt_def smooth_store_op [where fn = "timeout_tx env aid", OF assms(1)]
        smooth_bodies(4) [OF assms(1-4,6) rd])
  then show ?thesis
    by (elim exE) (intro exI conjI, assumption,
      simp add: finish_db_def find_row_update_same upd task_retrying_def put_back_def assms(4))
qed

lemma scan_loop_follows:
  assumes "quiet p" and "inj (\<lambda>k. e_new_id (p_call p k) 0)" and "t_retry_count t < t_max_retries t"
  shows "visitable d as \<Longrightarrow> \<forall>j \<ge> k. e_new_id (p_call p j) 0 \<notin> ev_id ` set (d_events d) \<Longrightarrow>
    find_row t_id i (d_tasks d) = Some t \<Longrightarrow> a \<in> set as \<Longrightarrow> a_task_id a = i \<Longrightarrow>
    list_all (\<lambda>b. a_task_id b = i \<longrightarrow> a_id b = a_id a) as \<Longrightarrow>
    \<exists>j < k + length as. find_row t_id i (d_tasks (fst (scan_loop sched_ops p k as d))) = Some (put_back (p_call p j) t)"
proof (induction as arbitrary: k d)
  case (Cons b as)
  note q = quiet_simps [OF assms(1)]
  from Cons.prems(1) obtain r where r: "find_row a_id (a_id b) (d_attempts d) = Some r" "a_status r = ARunning"
      "a_task_id r = a_task_id b" "a_task_id r \<in> t_id ` set (d_tasks d)"
    by (auto simp: visitable_def)
  have fresh: "e_new_id (p_call p k) 0 \<notin> ev_id ` set (d_events d)" using Cons.prems(2) by simp
  obtain d1 es where d1: "TimeoutAttempt (p_call p k) (a_id b) d = (Inr (), d1, es)"
      "marked a_id {a_id b} timed_out (d_attempts d) (d_attempts d1)"
      "marked t_id {a_task_id b} sent_back (d_tasks d) (d_tasks d1)"
      "ev_id ` set (d_events d1) = insert (e_new_id (p_call p k) 0) (ev_id ` set (d_events d))"
    by (rule timeout_commits [OF q(4) r(1,2,4) fresh, unfolded r(3)])
  have later: "\<forall>j \<ge> k + 1. e_new_id (p_call p j) 0 \<notin> ev_id ` set (d_events d1)"
    using Cons.prems(2) by (auto simp: d1(4) inj_eq [OF assms(2)])
  have rest: "visitable d1 as" by (rule visitable_next [OF Cons.prems(1) d1(2,3)])
  have run: "scan_loop sched_ops p k (b # as) d = scan_loop sched_ops p (k + 1) as d1" by (simp add: q d1(1))
  show ?case
  proof (cases "a_task_id b = i")
    case True
    have row: "find_row t_id i (d_tasks d1) = Some (put_back (p_call p k) t)"
      using timeout_retries [OF q(4) r(1,2) _ assms(3) fresh] Cons.prems(3) True r(3) d1(1) by auto
    have out: "i \<notin> a_task_id ` set as"
      using Cons.prems(1,6) True by (auto simp: visitable_def list_all_iff image_iff)
    obtain d2 where d2: "scan_loop sched_ops p (k + 1) as d1 = (d2, [])"
      "marked t_id (a_task_id ` set as) sent_back (d_tasks d1) (d_tasks d2)"
      using scan_loop_clears [OF assms(1,2) rest later] by blast
    from marked_other_row [OF d2(2) out row] d2(1) show ?thesis unfolding run by (intro exI [of _ k]) simp
  next
    case False
    then have "find_row t_id i (d_tasks d1) = Some t" by (intro marked_other_row [OF d1(3) _ Cons.prems(3)]) simp
    with Cons.IH [OF rest later] Cons.prems(4-6) False show ?thesis unfolding run by auto
  qed
qed simp

subsection \<open>The three passes\<close>

lemma scan_follows:
  assumes "reachable cfg any_call d" and "quiet p" and "fresh_pass p d" and "c = fmtDBTime (time_add (p_now p) (- cutoff))"
    and "a \<in> set (d_attempts d)" and "stale c a" and "find_row t_id (a_task_id a) (d_tasks d) = Some t"
    and "t_retry_count t < t_max_retries t"
    and "list_all (\<lambda>b. stale c b \<and> a_task_id b = a_task_id a \<longrightarrow> b = a) (d_attempts d)"
  shows "\<exists>j \<le> length (d_attempts d).
    find_row t_id (a_task_id a) (d_tasks (fst (scan sched_ops cutoff p d))) = Some (put_back (p_call p j) t)"
proof -
  note q = quiet_simps [OF assms(2)]
  have ok: "keys_ok d" "tasks_exist d" using reachable_base [OF assms(1)] by (simp_all add: base_ok_def)
  define as where "as = map scanAttempt (order_by (\<lambda>a. e_tie (p_call p 0) (a_id a)) (filter (stale c) (d_attempts d)))"
  have "FindStaleAttempts (p_call p 0) (time_add (p_now p) (- cutoff)) d = Inr as"
    by (simp add: FindStaleAttempts_def q as_def assms(4))
  then have run: "scan sched_ops cutoff p d = scan_loop sched_ops p 1 as d" by (simp add: scan_def q split: prod.split)
  have "scanAttempt a \<in> set as" using assms(5,6) by (simp add: as_def)
  moreover have "list_all (\<lambda>b. a_task_id b = a_task_id a \<longrightarrow> a_id b = a_id (scanAttempt a)) as"
    using assms(9) by (auto simp: as_def list_all_iff scanAttempt_def)
  moreover have "a_task_id (scanAttempt a) = a_task_id a" by (simp add: scanAttempt_def)
  moreover have "length as \<le> length (d_attempts d)" by (simp add: as_def order_by_def)
  moreover have "\<forall>j \<ge> 1. e_new_id (p_call p j) 0 \<notin> ev_id ` set (d_events d)" "inj (\<lambda>k. e_new_id (p_call p k) 0)"
    using assms(3) by (simp_all add: fresh_pass_def)
  moreover have "visitable d as" unfolding as_def by (rule visitable_stale [OF ok])
  ultimately obtain j where "j < 1 + length as" "length as \<le> length (d_attempts d)"
      "find_row t_id (a_task_id a) (d_tasks (fst (scan_loop sched_ops p 1 as d))) = Some (put_back (p_call p j) t)"
    using scan_loop_follows [OF assms(2) _ assms(8), of d as 1] assms(7) by blast
  then show ?thesis unfolding run by (intro exI [of _ j]) simp
qed

text \<open>The tick of the retry scheduler queues the task again.\<close>

lemma retry_follows:
  assumes "quiet p" and "retry_run sched_ops [Tick p] d = (d', es)" and "find_row t_id i (d_tasks d) = Some t"
    and "t_status t = Retrying" and "t_run_at t \<le> fmtDBTime (e_now (p_call p 0))"
  shows "find_row t_id i (d_tasks d') = Some (task_to Queued (fmtDBTime (e_now (p_call p 0))) t)"
proof -
  note q = quiet_simps [OF assms(1)]
  have "requeue_tx (p_call p 0) d = (Inr (count_where (retry_due (fmtDBTime (e_now (p_call p 0)))) (d_tasks d)),
      requeue_db (fmtDBTime (e_now (p_call p 0))) d)"
    by (simp add: requeue_tx_def Let_def tx_Inr q)
  then have "d' = requeue_db (fmtDBTime (e_now (p_call p 0))) d"
    using assms(2) by (simp add: q RequeueRetrying_def smooth_store_op [OF q(4)])
  then show ?thesis
    using assms(3-5) find_row_update_any [of t_id "task_to Queued (fmtDBTime (e_now (p_call p 0)))"]
    by (simp add: requeue_db_def retry_due_def task_to_def)
qed

lemma retry_run_reachable:
  assumes "reachable cfg any_call d" and "quiet p" and "retry_run sched_ops [Tick p] d = (d', es)"
  shows "reachable cfg any_call d'"
  using assms(3) reachable_op [OF assms(1), of OpRequeue "p_call p 0"]
  by (auto simp: quiet_simps [OF assms(2)] split: prod.splits sum.splits)

lemma worked_off_row:
  assumes "list_all2 (worked_off rc) ts ts'" and "find_row t_id i ts = Some t"
  shows "\<exists>t'. find_row t_id i ts' = Some t' \<and> worked_off rc t t'"
  using assms
  by (induction rule: list_all2_induct) (auto simp: worked_off_def executed_def split: if_splits)

text \<open>C23: A task whose worker died is run again: when the attempt of a task with retries left has gone stale, and it is
  the task's only stale attempt, then a sweep, a tick of the retry scheduler after the backoff, and as many
  rounds of a worker as there are eligible tasks then, each undisturbed, execute the task: it is succeeded if
  its handler returns, and else retrying or dead by the retries it has after one more.\<close>

theorem lost_task_recovers:
  assumes "reachable (rc_config rc) any_call d" and "a \<in> set (d_attempts d)" and "stale (fmtDBTime (time_add (p_now p) (- cutoff))) a"
    and "find_row t_id (a_task_id a) (d_tasks d) = Some t" and "t_retry_count t < t_max_retries t"
    and "list_all (\<lambda>b. stale (fmtDBTime (time_add (p_now p) (- cutoff))) b \<and> a_task_id b = a_task_id a \<longrightarrow> b = a) (d_attempts d)"
    and "t_queue t = rc_queue rc" and "t_type t \<in> set (TaskTypes (rc_registry rc))"
    and "quiet p" and "fresh_pass p d" and "scan sched_ops cutoff p d = (d1, es1)"
    and "quiet q" and "retry_run sched_ops [Tick q] d1 = (d2, es2)"
    and "\<And>k. k \<le> length (d_attempts d) \<Longrightarrow> fmtDBTime (time_add (e_now (p_call p k)) (retryBackoff (t_retry_count t))) \<le> fmtDBTime (e_now (p_call q 0))"
    and "rc_worker rc \<in> w_id ` set (d_workers d2)" and "room rc d2"
    and "list_all (calm_round (fmtDBTime (e_now (p_call q 0)))) ps" and "fresh_rounds rc ps d2"
    and "count_where (eligible rc) (d_tasks d2) \<le> int (length ps)"
  shows "\<exists>d3 t3. pool_poll store_ops rc ps d2 = (False, d3, []) \<and> find_row t_id (t_id t) (d_tasks d3) = Some t3 \<and>
    t_status t3 = (case Dispatch (rc_registry rc) (buildExecCtx (t_timeout_secs t)) t of
        Inr _ \<Rightarrow> Succeeded
      | Inl _ \<Rightarrow> if t_retry_count t + 1 < t_max_retries t then Retrying else Dead)"
proof -
  let ?now = "fmtDBTime (e_now (p_call q 0))" and ?i = "a_task_id a"
  have i: "t_id t = ?i" using find_row_SomeD [OF assms(4)] by simp
  obtain j where j: "j \<le> length (d_attempts d)" and row1: "find_row t_id ?i (d_tasks d1) = Some (put_back (p_call p j) t)"
    using scan_follows [OF assms(1,9,10) refl assms(2,3,4,5,6)] assms(11) by auto
  define t2 where "t2 = task_to Queued ?now (put_back (p_call p j) t)"
  have row2: "find_row t_id ?i (d_tasks d2) = Some t2"
    unfolding t2_def using retry_follows [OF assms(12,13) row1] assms(14) [OF j]
    by (simp add: put_back_def task_retrying_def)
  have "reachable (rc_config rc) any_call (fst (scan sched_ops cutoff p d))"
    using scheds.passes_ok [OF assms(1), of p, THEN conjunct2, THEN conjunct2, THEN conjunct1]
    by (simp add: quiet_simps [OF assms(9)])
  then have "reachable (rc_config rc) any_call d1" by (simp add: assms(11))
  from retry_run_reachable [OF this assms(12,13)] have ok: "reachable (rc_config rc) any_call d2" .
  obtain d3 where d3: "pool_poll store_ops rc ps d2 = (False, d3, [])" "list_all2 (worked_off rc) (d_tasks d2) (d_tasks d3)"
    "none_due rc ?now d3" using calm_rounds [OF refl ok assms(15-18)] assms(19) by blast
  obtain t3 where t3: "find_row t_id ?i (d_tasks d3) = Some t3" "worked_off rc t2 t3"
    using worked_off_row [OF d3(2) row2] by blast
  have "eligible rc t2" "t_run_at t2 \<le> ?now"
    using assms(7,8) assms(14) [OF j] by (simp_all add: t2_def put_back_def task_retrying_def task_to_def eligible_def)
  moreover have "\<not> (eligible rc t3 \<and> t_run_at t3 \<le> ?now)"
    using d3(3) find_row_SomeD [OF t3(1)] by (simp add: none_due_def list_all_iff)
  ultimately have "executed rc t2 t3" using t3(2) by (auto simp: worked_off_def)
  moreover have "Dispatch (rc_registry rc) ctx t2 = Dispatch (rc_registry rc) ctx t" for ctx
    by (simp add: Dispatch_def t2_def put_back_def task_retrying_def task_to_def split: option.split)
  ultimately have "t_status t3 = (case Dispatch (rc_registry rc) (buildExecCtx (t_timeout_secs t)) t of
        Inr _ \<Rightarrow> Succeeded
      | Inl _ \<Rightarrow> if t_retry_count t + 1 < t_max_retries t then Retrying else Dead)"
    by (simp add: executed_def t2_def put_back_def task_retrying_def task_to_def)
  then show ?thesis using d3(1) t3(1) i by (intro exI [of _ d3] exI [of _ t3]) simp
qed

text \<open>An example: the worker of the one running attempt has died; the sweep comes at second 90.\<close>

lemma lost_task_recovers_witness:
  "\<exists>d3 t3. pool_poll store_ops demo_run [calm_example 140, calm_example 150]
       (fst (retry_run sched_ops [Tick (demo_pass 130)] (fst (scan sched_ops 0 (demo_pass 90) demo_db)))) = (False, d3, []) \<and>
     find_row t_id ''ii'' (d_tasks d3) = Some t3 \<and> t_status t3 = Succeeded"
proof -
  let ?d1 = "fst (scan sched_ops 0 (demo_pass 90) demo_db)"
  let ?d2 = "fst (retry_run sched_ops [Tick (demo_pass 130)] ?d1)" and ?ps = "[calm_example 140, calm_example 150]"
  define a where "a = hd (d_attempts demo_db)"
  define t where "t = the (find_row t_id (a_task_id a) (d_tasks demo_db))"
  have now: "fmtDBTime (e_now (p_call (demo_pass 130) 0)) = 130" by code_simp
  have here: "d_attempts demo_db \<noteq> []" "length (d_attempts demo_db) = 1" by code_simp+
  then have all: "d_attempts demo_db = [a]" by (cases "d_attempts demo_db") (simp_all add: a_def)
  have a: "stale (fmtDBTime (time_add (p_now (demo_pass 90)) (- 0))) a" unfolding a_def by code_simp
  have row: "find_row t_id (a_task_id a) (d_tasks demo_db) = Some t" unfolding t_def a_def by (rule some_the) code_simp
  have t: "t_retry_count t < t_max_retries t" "t_queue t = rc_queue demo_run" "t_type t \<in> set (TaskTypes (rc_registry demo_run))"
    "t_id t = ''ii''" "t_retry_count t = 0" "\<not> isl (Dispatch (rc_registry demo_run) (buildExecCtx (t_timeout_secs t)) t)"
    unfolding t_def a_def by code_simp+
  have fresh: "fresh_pass (demo_pass 90) demo_db" by (rule fresh_pass_demo) code_simp
  have pool: "rc_worker demo_run \<in> w_id ` set (d_workers ?d2)" "room demo_run ?d2" "fresh_rounds demo_run ?ps ?d2"
    "count_where (eligible demo_run) (d_tasks ?d2) \<le> int (length ?ps)" by code_simp+
  have calm: "list_all (calm_round (fmtDBTime (e_now (p_call (demo_pass 130) 0)))) ?ps"
    unfolding now by (simp add: calm_round_def calm_run_def calm_example_def demo_env_def smooth_def fmtDBTime_def)
  have "fmtDBTime (time_add (e_now (p_call (demo_pass 90) 0)) (retryBackoff 0)) \<le> 130"
    "fmtDBTime (time_add (e_now (p_call (demo_pass 90) 1)) (retryBackoff 0)) \<le> 130" by code_simp+
  then have late: "fmtDBTime (time_add (e_now (p_call (demo_pass 90) k)) (retryBackoff (t_retry_count t)))
      \<le> fmtDBTime (e_now (p_call (demo_pass 130) 0))" if "k \<le> length (d_attempts demo_db)" for k
    using that here(2) t(5) now by (cases k) simp_all
  have cfg: "reachable (rc_config demo_run) any_call demo_db" using demo_reachable by (simp add: demo_run_def)
  have mem: "a \<in> set (d_attempts demo_db)" and only: "list_all (\<lambda>b. stale (fmtDBTime (time_add (p_now (demo_pass 90)) (- 0))) b \<and>
      a_task_id b = a_task_id a \<longrightarrow> b = a) (d_attempts demo_db)" by (simp_all add: all)
  from lost_task_recovers [OF cfg mem a row t(1) only t(2,3) quiet_demo fresh prod.collapse [symmetric]
      quiet_demo prod.collapse [symmetric] late pool(1,2) calm pool(3,4)] t(4,6)
  show ?thesis by (auto simp: isl_def split: sum.splits)
qed

end
