(* ===== verification/ETQ_Boot.thy ===== *)
theory ETQ_Boot
  imports ETQ_Server ETQ_Concurrent "HOL-Library.Sublist"
begin

section \<open>Starting and stopping the server (cmd/server/main.go, internal/api/server.go)\<close>

text \<open>
  The main goroutine of a server process and the goroutines it starts.  Its function is a list of the
  instructions that matter for their order: what is opened and started, what is deferred, what is
  waited for.  A function that returns, at its end or with an error, runs its deferred calls, last
  deferred first; the process ends when none is left.  A goroutine of a part is at its \<open>select\<close>
  or in a round of its loop (a cycle of the pool, a pass of a scheduler, a fan-out of the broker).  The
  other actions are the environment's: a signal, a tick or a poll that starts a round, a round that
  returns, a request that comes in or is answered.  Closing the store is one instruction here; what the
  write queue does meanwhile is in ETQ\_Writer.
  The server of \<^verbatim>\<open>examples/go\<close> is a second list of the same instructions.
\<close>

subsection \<open>Opening the store (store.go)\<close>

text \<open>
  \<open>down\<close> says which driver calls fail, by step and data source name.  \<open>contents\<close> reads the tables of the
  store out of the migrated database.  On an error the connection is closed and there is no store.
\<close>

datatype open_error = OpenFailed | PingFailed | MigrateFailed migrate_error

definition dsn :: "string \<Rightarrow> string" where
  "dsn path =
     path @ ''?_journal_mode=WAL'' @ ''&_foreign_keys=on'' @ ''&_busy_timeout=5000'' @ ''&_synchronous=NORMAL''"

definition Open ::
  "(string \<Rightarrow> string \<Rightarrow> bool) \<Rightarrow> 's sql_engine \<Rightarrow> (string \<Rightarrow> string \<Rightarrow> bool) \<Rightarrow> mig_file list \<Rightarrow> ('s mig_db \<Rightarrow> db) \<Rightarrow>
     string \<Rightarrow> 's mig_db \<Rightarrow> (open_error + 'a writer) \<times> 's mig_db" where
  "Open down eng fault files contents path m =
     (if down ''open sqlite'' (dsn path) then (Inl OpenFailed, m)
      else if down ''ping db'' (dsn path) then (Inl PingFailed, m)
      else case Migrate eng fault files m of
        (Some e, m') \<Rightarrow> (Inl (MigrateFailed e), m')
      | (None, m') \<Rightarrow> (Inr (open_store (contents m')), m'))"

text \<open>C28: Open hands out a store only when the schema is up to date: whatever fails, the database has a
  prefix of the pending migrations, in the order of their files, each executed whole and recorded; a store
  is returned only with all of them, and then with an empty write queue whose loop runs.\<close>

theorem Open_migrates:
  assumes "Open down eng fault files contents path m = (r, m')"
  shows "\<exists>n. run_whole eng (take n (pending (map fst (rows_of_db m)) (sort_key fst files))) (rows_of_db m, mg_schema m)
        = Some (rows_of_db m', mg_schema m') \<and>
      (case r of
         Inl e \<Rightarrow> True
       | Inr w \<Rightarrow> n = length (pending (map fst (rows_of_db m)) (sort_key fst files)) \<and>
           wq_db w = contents m' \<and> wq_ch w = [] \<and> wq_loop w = Selecting)"
proof (cases "down ''open sqlite'' (dsn path) \<or> down ''ping db'' (dsn path)")
  case True
  then have "\<exists>e. r = Inl e" "m' = m" using assms by (auto simp: Open_def split: if_splits)
  then show ?thesis by (intro exI [of _ 0]) auto
next
  case False
  obtain e m1 where mig: "Migrate eng fault files m = (e, m1)" by fastforce
  then have "m' = m1" "case r of Inl _ \<Rightarrow> e \<noteq> None | Inr w \<Rightarrow> e = None \<and> w = open_store (contents m')"
    using assms False by (auto simp: Open_def split: option.splits)
  with Migrate_whole [OF mig] show ?thesis by (auto simp: open_store_def split: sum.splits)
qed

lemma Open_migrates_witness:
  "\<exists>w m'. Open (\<lambda>_ _. False) demo_engine (\<lambda>_ _. False) demo_files (\<lambda>_. empty_db) ''a.db'' blank_db = (Inr w, m') \<and>
     wq_ch (w :: task writer) = [] \<and> mg_schema m' = [''A;'', ''B;'']"
proof -
  obtain m' where m': "Migrate demo_engine (\<lambda>_ _. False) demo_files blank_db = (None, m')" using demo_migrates by blast
  then have op: "Open (\<lambda>_ _. False) demo_engine (\<lambda>_ _. False) demo_files (\<lambda>_. empty_db) ''a.db'' blank_db =
      (Inr (open_store empty_db :: task writer), m')" by (simp add: Open_def)
  have p: "pending (map fst (rows_of_db blank_db)) (sort_key fst demo_files) =
      [(''migrations/001_initial.sql'', ''A;''), (''migrations/002_execution_limits.sql'', ''B;'')]" by code_simp
  have "run_whole demo_engine [(''migrations/001_initial.sql'', ''A;''), (''migrations/002_execution_limits.sql'', ''B;'')]
      (rows_of_db blank_db, mg_schema blank_db) =
      Some ([(1, ''initial''), (2, ''execution_limits'')], [''A;'', ''B;''])" by code_simp
  with Open_migrates [OF op] have "mg_schema m' = [''A;'', ''B;'']" "wq_ch (open_store empty_db :: task writer) = []"
    by (auto simp: p simp del: run_whole.simps)
  then show ?thesis using op by blast
qed

subsection \<open>The process\<close>

datatype part = BrokerPart | PoolPart | SchedPart

datatype deferred = DStop | DClose | DWait part

datatype instr =
  IParse
| IOpen
| IDefer deferred
| INotify
| IStart part
| INewPool
| IListen
| IAwait
| IShutdown
| IReturnShutdown
| IWait part
| IClose

record server =
  sv_code :: "instr list"
  sv_defers :: "deferred list"
  sv_error :: "instr option"
  sv_notify :: bool
  sv_done :: bool
  sv_live :: "part \<Rightarrow> nat"
  sv_busy :: "part \<Rightarrow> nat"
  sv_store :: bool
  sv_listening :: bool
  sv_requests :: nat
  sv_late :: bool

definition boot :: "instr list \<Rightarrow> server" where
  "boot code = \<lparr>sv_code = code, sv_defers = [], sv_error = None, sv_notify = False, sv_done = False,
     sv_live = (\<lambda>_. 0), sv_busy = (\<lambda>_. 0), sv_store = False, sv_listening = False, sv_requests = 0, sv_late = False\<rparr>"

subsection \<open>The HTTP server (internal/api/server.go)\<close>

text \<open>
  \<open>Start\<close> binds the listener before it returns.  \<open>Shutdown\<close> first closes the listener, then waits
  until no request is left; when its context ends before, it returns that error (\<open>Deadline\<close> below).
\<close>

definition http_start :: "server \<Rightarrow> server" where
  "http_start s = s\<lparr>sv_listening := True\<rparr>"

definition http_shutdown :: "instr list \<Rightarrow> server \<Rightarrow> server option" where
  "http_shutdown rest s =
     (if sv_listening s then Some (s\<lparr>sv_listening := False\<rparr>)
      else if sv_requests s = 0 then Some (s\<lparr>sv_code := rest\<rparr>)
      else None)"

text \<open>\<open>Wait\<close> of a part: its wait group is empty.\<close>

definition wait_for :: "part \<Rightarrow> server \<Rightarrow> server \<Rightarrow> server option" where
  "wait_for p s s' = (if sv_live s p = 0 then Some s' else None)"

subsection \<open>The loops of the parts (pool.go, broker.go, the schedulers)\<close>

text \<open>
  What a goroutine that is not in a round may do, by whether the context is over.  A goroutine of the
  pool looks at the context at the top of every round and starts none when it is over (\<open>pool_poll\<close> of
  ETQ\_Queue); a \<open>select\<close> with both cases ready takes either, so the schedulers (\<open>loop\<close> of ETQ\_Scheduler)
  and the broker may start a round after the end of the context.  All of them return from there once
  the context is over, and only then; none returns out of a round, which must return first.
\<close>

fun loop_enters :: "part \<Rightarrow> bool \<Rightarrow> bool" where
  "loop_enters BrokerPart over = True"
| "loop_enters PoolPart over = (\<not> over)"
| "loop_enters SchedPart over = True"

fun loop_returns :: "part \<Rightarrow> bool \<Rightarrow> bool" where
  "loop_returns BrokerPart over = over"
| "loop_returns PoolPart over = over"
| "loop_returns SchedPart over = over"

subsection \<open>The main goroutine\<close>

text \<open>\<open>n\<close> says how many goroutines the \<open>Start\<close> of a part launches.\<close>

fun do_instr :: "(part \<Rightarrow> nat) \<Rightarrow> instr \<Rightarrow> instr list \<Rightarrow> server \<Rightarrow> server option" where
  "do_instr n IParse rest s = Some (s\<lparr>sv_code := rest\<rparr>)"
| "do_instr n IOpen rest s = Some (s\<lparr>sv_code := rest, sv_store := True\<rparr>)"
| "do_instr n (IDefer d) rest s = Some (s\<lparr>sv_code := rest, sv_defers := d # sv_defers s\<rparr>)"
| "do_instr n INotify rest s = Some (s\<lparr>sv_code := rest, sv_notify := True\<rparr>)"
| "do_instr n (IStart p) rest s =
     Some (s\<lparr>sv_code := rest, sv_live := (sv_live s)(p := sv_live s p + n p)\<rparr>)"
| "do_instr n INewPool rest s = Some (s\<lparr>sv_code := rest\<rparr>)"
| "do_instr n IListen rest s = Some (http_start (s\<lparr>sv_code := rest\<rparr>))"
| "do_instr n IAwait rest s = (if sv_done s then Some (s\<lparr>sv_code := rest\<rparr>) else None)"
| "do_instr n IShutdown rest s = http_shutdown rest s"
| "do_instr n IReturnShutdown rest s = http_shutdown rest s"
| "do_instr n (IWait p) rest s = wait_for p s (s\<lparr>sv_code := rest\<rparr>)"
| "do_instr n IClose rest s = Some (s\<lparr>sv_code := rest, sv_store := False\<rparr>)"

text \<open>An instruction that returns an error ends the function.\<close>

fun fallible :: "instr \<Rightarrow> bool" where
  "fallible IParse = True"
| "fallible IOpen = True"
| "fallible INewPool = True"
| "fallible IListen = True"
| "fallible IClose = True"
| "fallible i = False"

fun do_deferred :: "deferred \<Rightarrow> deferred list \<Rightarrow> server \<Rightarrow> server option" where
  "do_deferred DStop ds s = Some (s\<lparr>sv_defers := ds, sv_done := True\<rparr>)"
| "do_deferred DClose ds s = Some (s\<lparr>sv_defers := ds, sv_store := False\<rparr>)"
| "do_deferred (DWait p) ds s = wait_for p s (s\<lparr>sv_defers := ds\<rparr>)"

datatype server_action = Main | MainFails | Deadline | Signal | RoundStarts part | RoundEnds part | PartEnds part | Accept | Answer

fun server_act :: "(part \<Rightarrow> nat) \<Rightarrow> server_action \<Rightarrow> server \<Rightarrow> server option" where
  "server_act n Main s =
     (case sv_code s of
        i # rest \<Rightarrow> do_instr n i rest s
      | [] \<Rightarrow> (case sv_defers s of d # ds \<Rightarrow> do_deferred d ds s | [] \<Rightarrow> None))"
| "server_act n MainFails s =
     (case sv_code s of
        i # rest \<Rightarrow> if fallible i then Some (s\<lparr>sv_code := [], sv_error := Some i\<rparr>) else None
      | [] \<Rightarrow> None)"
| "server_act n Deadline s =
     (if sv_listening s \<or> sv_requests s = 0 then None
      else case sv_code s of
        IShutdown # rest \<Rightarrow> Some (s\<lparr>sv_code := rest, sv_late := True\<rparr>)
      | IReturnShutdown # rest \<Rightarrow>
          Some (s\<lparr>sv_code := [], sv_late := True, sv_error := Some IReturnShutdown\<rparr>)
      | _ \<Rightarrow> None)"
| "server_act n Signal s =
     (if sv_notify s \<and> \<not> sv_done s then Some (s\<lparr>sv_done := True\<rparr>) else None)"
| "server_act n (RoundStarts p) s =
     (if loop_enters p (sv_done s) \<and> sv_busy s p < sv_live s p
      then Some (s\<lparr>sv_busy := (sv_busy s)(p := sv_busy s p + 1)\<rparr>) else None)"
| "server_act n (RoundEnds p) s =
     (if 0 < sv_busy s p
      then Some (s\<lparr>sv_busy := (sv_busy s)(p := sv_busy s p - 1)\<rparr>) else None)"
| "server_act n (PartEnds p) s =
     (if loop_returns p (sv_done s) \<and> sv_busy s p < sv_live s p
      then Some (s\<lparr>sv_live := (sv_live s)(p := sv_live s p - 1)\<rparr>) else None)"
| "server_act n Accept s =
     (if sv_listening s then Some (s\<lparr>sv_requests := sv_requests s + 1\<rparr>) else None)"
| "server_act n Answer s =
     (if 0 < sv_requests s then Some (s\<lparr>sv_requests := sv_requests s - 1\<rparr>) else None)"

fun server_run :: "(part \<Rightarrow> nat) \<Rightarrow> server_action list \<Rightarrow> server \<Rightarrow> server option" where
  "server_run n [] s = Some s"
| "server_run n (a # as) s = (case server_act n a s of None \<Rightarrow> None | Some s' \<Rightarrow> server_run n as s')"

definition exited :: "server \<Rightarrow> bool" where
  "exited s \<longleftrightarrow> sv_code s = [] \<and> sv_defers s = []"

subsection \<open>The commands\<close>

definition cmdServer :: "instr list" where
  "cmdServer =
     [IParse, IOpen, IDefer DClose, INotify, IDefer DStop, IStart BrokerPart, INewPool, IStart PoolPart,
      IStart SchedPart, IListen, IAwait, IShutdown, IWait SchedPart, IWait PoolPart, IWait BrokerPart]"

definition cmdMigrate :: "instr list" where
  "cmdMigrate = [IParse, IOpen, IClose]"

text \<open>How many goroutines each part of the server has: one per slot of the pool, one per scheduler.\<close>

fun goroutines :: "config \<Rightarrow> registry \<Rightarrow> part \<Rightarrow> nat" where
  "goroutines cfg reg BrokerPart = 1"
| "goroutines cfg reg PoolPart = nat (pc_concurrency (pool_defaults (server_pool_config cfg reg)))"
| "goroutines cfg reg SchedPart = 3"

text \<open>\<open>run\<close> of \<^verbatim>\<open>examples/go/server/main.go\<close>: it defers each \<open>Wait\<close> right after the \<open>Start\<close>.\<close>

definition example_server :: "instr list" where
  "example_server =
     [IOpen, IDefer DClose, INotify, IDefer DStop, IStart BrokerPart, IDefer (DWait BrokerPart), INewPool,
      IStart PoolPart, IDefer (DWait PoolPart), IStart SchedPart, IDefer (DWait SchedPart), IListen, IAwait,
      IReturnShutdown]"

subsection \<open>What the order of a function guarantees\<close>

lemma server_run_append:
  "server_run n (as @ bs) s = (case server_run n as s of None \<Rightarrow> None | Some s' \<Rightarrow> server_run n bs s')"
  by (induction as arbitrary: s) (auto split: option.split)

lemma server_run_keeps:
  assumes "\<And>a s s'. server_act n a s = Some s' \<Longrightarrow> I s \<Longrightarrow> I s'"
  shows "server_run n as s = Some s' \<Longrightarrow> I s \<Longrightarrow> I s'"
  by (induction as arbitrary: s) (auto split: option.splits dest: assms)

text \<open>The deferred calls a list of instructions adds, last deferred first.\<close>

fun deferrals :: "instr list \<Rightarrow> deferred list" where
  "deferrals [] = []"
| "deferrals (i # is) = deferrals is @ (case i of IDefer d \<Rightarrow> [d] | _ \<Rightarrow> [])"

text \<open>
  Conditions on the text of a function: what it opens it will close, what it starts it will wait for,
  what listens it will shut down, and nothing starts before the store is open.
\<close>

fun staged :: "instr list \<Rightarrow> bool" where
  "staged [] = True"
| "staged (i # is) = (staged is \<and>
     (case i of
        IOpen \<Rightarrow> IDefer DClose \<in> set is
      | IStart p \<Rightarrow> IOpen \<notin> set is \<and> (IWait p \<in> set is \<or> IDefer (DWait p) \<in> set is)
      | IListen \<Rightarrow> IOpen \<notin> set is \<and> (IShutdown \<in> set is \<or> IReturnShutdown \<in> set is)
      | IClose \<Rightarrow> False
      | _ \<Rightarrow> True))"

definition stops_http :: "instr list \<Rightarrow> bool" where
  "stops_http c \<longleftrightarrow> IShutdown \<in> set c \<or> IReturnShutdown \<in> set c"

definition framed :: "deferred list \<Rightarrow> server \<Rightarrow> bool" where
  "framed D s \<longleftrightarrow> staged (sv_code s) \<and> suffix (deferrals (sv_code s) @ sv_defers s) D \<and>
     (sv_error s \<noteq> None \<longrightarrow> sv_code s = [])"

definition awaited :: "part \<Rightarrow> server \<Rightarrow> bool" where
  "awaited p s \<longleftrightarrow> IOpen \<notin> set (sv_code s) \<and>
     (IWait p \<in> set (sv_code s) \<or> IDefer (DWait p) \<in> set (sv_code s) \<or> DWait p \<in> set (sv_defers s))"

definition part_ok :: "part \<Rightarrow> server \<Rightarrow> bool" where
  "part_ok p s \<longleftrightarrow> sv_error s \<noteq> None \<or> sv_live s p = 0 \<or> awaited p s"

definition http_ok :: "server \<Rightarrow> bool" where
  "http_ok s \<longleftrightarrow> sv_error s \<noteq> None \<or> \<not> sv_listening s \<and> (sv_requests s = 0 \<or> sv_late s \<and> IOpen \<notin> set (sv_code s)) \<or>
     IOpen \<notin> set (sv_code s) \<and> stops_http (sv_code s)"

definition store_ok :: "server \<Rightarrow> bool" where
  "store_ok s \<longleftrightarrow> sv_error s \<noteq> None \<or>
     (if sv_store s then IDefer DClose \<in> set (sv_code s) \<or> DClose \<in> set (sv_defers s)
      else IOpen \<in> set (sv_code s) \<or> sv_code s = [] \<and> DClose \<notin> set (sv_defers s))"

lemmas http_defs = http_start_def http_shutdown_def wait_for_def

lemma suffix_drop_head: "suffix (x # xs) ys \<Longrightarrow> suffix xs ys"
  by (auto simp: suffix_def)

lemma suffix_drop_left: "suffix (xs @ ys) zs \<Longrightarrow> suffix ys zs"
  by (auto simp: suffix_def)

lemma closes_last:
  assumes "suffix (DClose # ds) (D @ [DClose])" and "DClose \<notin> set D"
  shows "ds = []"
proof -
  obtain us where "D @ [DClose] = us @ DClose # ds" using assms(1) by (auto simp: suffix_def)
  then show ?thesis using assms(2) by (cases ds rule: rev_cases) auto
qed

lemma framed_act:
  assumes "framed D s" and "server_act n a s = Some s'"
  shows "framed D s'"
proof (cases a)
  case Main
  show ?thesis
  proof (cases "sv_code s")
    case Nil
    obtain d ds where "sv_defers s = d # ds" "do_deferred d ds s = Some s'"
      using Main Nil assms(2) by (auto split: list.splits)
    then show ?thesis
      using assms(1) Nil by (cases d) (auto simp: framed_def http_defs dest: suffix_drop_head split: if_splits)
  next
    case (Cons i rest)
    then show ?thesis
      using assms Main by (cases i) (auto simp: framed_def http_defs split: if_splits)
  qed
qed (use assms in \<open>auto simp: framed_def dest: suffix_drop_left split: list.splits if_splits instr.splits\<close>)

lemma part_ok_act:
  assumes "framed D s" and "server_act n a s = Some s'" and "part_ok p s"
  shows "part_ok p s'"
proof (cases a)
  case Main
  show ?thesis
  proof (cases "sv_code s")
    case Nil
    obtain d ds where "sv_defers s = d # ds" "do_deferred d ds s = Some s'"
      using Main Nil assms(2) by (auto split: list.splits)
    then show ?thesis
      using assms(3) Nil
      by (cases d) (auto simp: part_ok_def awaited_def http_defs split: if_splits)
  next
    case (Cons i rest)
    then show ?thesis
      using assms Main by (cases i) (auto simp: part_ok_def awaited_def framed_def http_defs split: if_splits)
  qed
qed (use assms(2,3) in \<open>auto simp: part_ok_def awaited_def split: list.splits if_splits instr.splits\<close>)

lemma http_ok_act:
  assumes "framed D s" and "server_act n a s = Some s'" and "http_ok s"
  shows "http_ok s'"
proof (cases a)
  case Main
  show ?thesis
  proof (cases "sv_code s")
    case Nil
    obtain d ds where "sv_defers s = d # ds" "do_deferred d ds s = Some s'"
      using Main Nil assms(2) by (auto split: list.splits)
    then show ?thesis
      using assms(3) Nil by (cases d) (auto simp: http_ok_def stops_http_def http_defs split: if_splits)
  next
    case (Cons i rest)
    then show ?thesis
      using assms Main by (cases i) (auto simp: http_ok_def stops_http_def framed_def http_defs split: if_splits)
  qed
qed (use assms(2,3) in \<open>auto simp: http_ok_def stops_http_def split: list.splits if_splits instr.splits\<close>)

lemma store_ok_act:
  assumes "framed (D @ [DClose]) s" and "DClose \<notin> set D" and "server_act n a s = Some s'" and "store_ok s"
  shows "store_ok s'"
proof (cases a)
  case Main
  show ?thesis
  proof (cases "sv_code s")
    case Nil
    obtain d ds where d: "sv_defers s = d # ds" "do_deferred d ds s = Some s'"
      using Main Nil assms(3) by (auto split: list.splits)
    moreover have "ds = []" if "d = DClose"
      using assms(1) Nil d(1) that closes_last [OF _ assms(2), of ds] by (simp add: framed_def)
    ultimately show ?thesis
      using assms(4) Nil by (cases d) (auto simp: store_ok_def http_defs split: if_splits)
  next
    case (Cons i rest)
    then show ?thesis
      using assms Main by (cases i) (auto simp: store_ok_def framed_def http_defs split: if_splits)
  qed
qed (use assms(3,4) in \<open>auto simp: store_ok_def split: list.splits if_splits instr.splits\<close>)

definition orderly :: "deferred list \<Rightarrow> server \<Rightarrow> bool" where
  "orderly D s \<longleftrightarrow> framed D s \<and> (\<forall>p. part_ok p s) \<and> http_ok s \<and> store_ok s"

lemma orderly_act:
  "DClose \<notin> set D \<Longrightarrow> server_act n a s = Some s' \<Longrightarrow> orderly (D @ [DClose]) s \<Longrightarrow> orderly (D @ [DClose]) s'"
  unfolding orderly_def by (blast intro: framed_act part_ok_act http_ok_act store_ok_act)

text \<open>The deferred calls of the two servers.\<close>

lemma deferrals_of:
  "deferrals cmdServer = [DStop] @ [DClose]"
  "deferrals example_server = [DWait SchedPart, DWait PoolPart, DWait BrokerPart, DStop] @ [DClose]"
  by (simp_all add: cmdServer_def example_server_def)

lemma orderly_run:
  assumes "c = cmdServer \<or> c = example_server" and "server_run n as (boot c) = Some s"
  shows "orderly (deferrals c) s"
proof -
  obtain D where D: "deferrals c = D @ [DClose]" "DClose \<notin> set D"
    using assms(1) deferrals_of by fastforce
  have "orderly (D @ [DClose]) (boot c)"
    using assms(1) unfolding D(1) [symmetric]
    by (auto simp: orderly_def framed_def part_ok_def http_ok_def store_ok_def boot_def cmdServer_def example_server_def)
  then show ?thesis
    unfolding D(1) using server_run_keeps [OF _ assms(2), of "orderly (D @ [DClose])"] orderly_act [OF D(2)] by blast
qed

text \<open>A whole life of the server: it starts, a signal comes, its goroutines end, it returns.\<close>

definition server_life :: "server_action list" where
  "server_life = replicate 10 Main @ [Accept, RoundStarts PoolPart, Signal, Main, Main, Answer, Main,
     RoundEnds PoolPart, PartEnds PoolPart, PartEnds SchedPart, Main, Main, PartEnds BrokerPart, Main, Main, Main]"

lemma server_life_runs:
  "\<exists>s. server_run (\<lambda>_. 1) server_life (boot cmdServer) = Some s \<and> sv_error s = None \<and> exited s"
  by (simp add: server_life_def cmdServer_def boot_def http_defs exited_def numeral_eq_Suc)

text \<open>C25: A server that has met no error takes itself down in order: as long as a goroutine of the broker, the
  pool or the schedulers runs, or a request that the shutdown did not give up on is being answered, the
  store is open; and when the function has returned, all of them have ended, the listener and the
  store are closed.  It holds of the server and of the example server, whatever comes when.\<close>

theorem servers_stop_in_order:
  assumes "c = cmdServer \<or> c = example_server" and "server_run n as (boot c) = Some s" and "sv_error s = None"
  shows "(0 < sv_live s p \<longrightarrow> sv_store s) \<and> (0 < sv_requests s \<and> \<not> sv_late s \<longrightarrow> sv_store s) \<and>
    (exited s \<longrightarrow> sv_live s p = 0 \<and> \<not> sv_listening s \<and> \<not> sv_store s \<and> (sv_requests s = 0 \<or> sv_late s))"
proof -
  have o: "part_ok p s" "http_ok s" "store_ok s" and "framed (deferrals c) s"
    using orderly_run [OF assms(1,2)] by (simp_all add: orderly_def)
  then have suf: "suffix (deferrals (sv_code s) @ sv_defers s) (deferrals c)" by (simp add: framed_def)
  have last: "DClose \<in> set (sv_defers s)" if "sv_code s = []" "DWait p \<in> set (sv_defers s)"
    using suf that assms(1) by (auto simp: deferrals_of suffix_Cons)
  have "sv_store s" if "0 < sv_live s p"
    using that o(1,3) last assms(3) by (auto simp: part_ok_def awaited_def store_ok_def split: if_splits)
  moreover have "sv_store s" if "0 < sv_requests s" "\<not> sv_late s"
    using that o(2,3) assms(3) by (auto simp: http_ok_def stops_http_def store_ok_def split: if_splits)
  moreover have "sv_live s p = 0 \<and> \<not> sv_listening s \<and> \<not> sv_store s \<and> (sv_requests s = 0 \<or> sv_late s)" if "exited s"
    using that o assms(3)
    by (auto simp: exited_def part_ok_def awaited_def http_ok_def stops_http_def store_ok_def split: if_splits)
  ultimately show ?thesis by blast
qed

lemma servers_stop_in_order_witness:
  "\<exists>s. server_run (\<lambda>_. 1) server_life (boot cmdServer) = Some s \<and> \<not> sv_store s \<and> sv_live s PoolPart = 0"
proof -
  obtain s where s: "server_run (\<lambda>_. 1) server_life (boot cmdServer) = Some s" "sv_error s = None" "exited s"
    using server_life_runs by blast
  with servers_stop_in_order [OF _ s(1,2), of PoolPart] show ?thesis by auto
qed

subsection \<open>What the signal sets in motion\<close>

text \<open>
  The server's own actions: the steps of its main goroutine, the deadline of its shutdown, and the
  return of a goroutine that is not in a round.  When a round returns is up to its handler, its ticker
  or its clients.
\<close>

fun own :: "server_action \<Rightarrow> bool" where
  "own Signal = False"
| "own (RoundStarts p) = False"
| "own (RoundEnds p) = False"
| "own Accept = False"
| "own Answer = False"
| "own a = True"

text \<open>What the main goroutine waits for: a part, in its function or in its deferred calls.\<close>

definition waits_for :: "server \<Rightarrow> part option" where
  "waits_for s =
     (case sv_code s of
        IWait p # _ \<Rightarrow> Some p
      | [] \<Rightarrow> (case sv_defers s of DWait p # _ \<Rightarrow> Some p | _ \<Rightarrow> None)
      | _ \<Rightarrow> None)"

fun weight :: "(part \<Rightarrow> nat) \<Rightarrow> instr \<Rightarrow> nat" where
  "weight n (IStart p) = 1 + n p"
| "weight n (IDefer d) = 2"
| "weight n IListen = 2"
| "weight n i = 1"

definition steps_left :: "(part \<Rightarrow> nat) \<Rightarrow> server \<Rightarrow> nat" where
  "steps_left n s = sum_list (map (weight n) (sv_code s)) + length (sv_defers s) + of_bool (sv_listening s) +
     (sv_live s BrokerPart + sv_live s PoolPart + sv_live s SchedPart)"

lemma weight_pos [simp]: "0 < weight n i"
  by (cases i) simp_all

lemma own_step_decreases:
  assumes "server_act n a s = Some s'" and "own a"
  shows "steps_left n s' < steps_left n s"
proof (cases a)
  case Main
  show ?thesis
  proof (cases "sv_code s")
    case Nil
    then obtain d ds where "sv_defers s = d # ds" "do_deferred d ds s = Some s'"
      using Main assms(1) by (auto split: list.splits)
    then show ?thesis using Nil by (cases d) (auto simp: steps_left_def http_defs split: if_splits)
  next
    case (Cons i rest)
    have "do_instr n i rest s = Some s'" using Main Cons assms(1) by simp
    then show ?thesis using Cons
    proof (cases i)
      case (IStart p)
      with \<open>do_instr n i rest s = Some s'\<close> Cons show ?thesis by (cases p) (auto simp: steps_left_def)
    qed (auto simp: steps_left_def http_defs split: if_splits)
  qed
next
  case (PartEnds p)
  then show ?thesis using assms by (cases p) (auto simp: steps_left_def split: if_splits)
qed (use assms in \<open>auto simp: steps_left_def split: list.splits if_splits instr.splits\<close>)

lemma other_step_keeps:
  "server_act n a s = Some s' \<Longrightarrow> \<not> own a \<Longrightarrow> steps_left n s' = steps_left n s"
  by (cases a) (auto simp: steps_left_def split: if_splits)

lemma own_steps_bounded:
  "server_run n bs s = Some s' \<Longrightarrow> length (filter own bs) + steps_left n s' \<le> steps_left n s"
proof (induction bs arbitrary: s)
  case (Cons a bs)
  from Cons.prems obtain s1 where s1: "server_act n a s = Some s1" "server_run n bs s1 = Some s'"
    by (auto split: option.splits)
  show ?case
    using own_step_decreases [OF s1(1)] other_step_keeps [OF s1(1)] Cons.IH [OF s1(2)] by (cases "own a") auto
qed simp

lemma part_step_enabled:
  "sv_done s \<Longrightarrow> sv_busy s p < sv_live s p \<Longrightarrow> server_act n (PartEnds p) s \<noteq> None"
  by (cases p) simp_all

lemma own_step_enabled:
  assumes "framed (deferrals c) s" and "\<not> exited s"
    and "sv_done s \<or> c = cmdServer \<and> sv_error s \<noteq> None"
    and "\<And>p. waits_for s = Some p \<Longrightarrow> sv_busy s p < sv_live s p \<or> sv_live s p = 0"
  shows "\<exists>a. own a \<and> server_act n a s \<noteq> None"
proof (cases "sv_code s")
  case Nil
  then obtain d ds where d: "sv_defers s = d # ds" using assms(2) by (cases "sv_defers s") (auto simp: exited_def)
  have "server_act n Main s \<noteq> None \<or> (\<exists>p. server_act n (PartEnds p) s \<noteq> None)"
  proof (cases d)
    case (DWait p)
    have "sv_done s" using assms(1,3) Nil d DWait by (auto simp: framed_def deferrals_of suffix_Cons)
    moreover have "sv_busy s p < sv_live s p \<or> server_act n Main s \<noteq> None"
      using assms(4) [of p] Nil d DWait by (auto simp: http_defs waits_for_def)
    ultimately show ?thesis using part_step_enabled [of s p n] by blast
  qed (use Nil d in simp_all)
  then show ?thesis by (metis own.simps(6,9))
next
  case (Cons i rest)
  then have "sv_done s" using assms(1,3) by (auto simp: framed_def)
  have "server_act n Main s \<noteq> None \<or> server_act n Deadline s \<noteq> None \<or> (\<exists>p. server_act n (PartEnds p) s \<noteq> None)"
  proof (cases i)
    case (IWait p)
    then have "sv_busy s p < sv_live s p \<or> server_act n Main s \<noteq> None"
      using assms(4) [of p] Cons by (auto simp: http_defs waits_for_def)
    then show ?thesis using part_step_enabled [OF \<open>sv_done s\<close>, of p n] by blast
  qed (use Cons \<open>sv_done s\<close> in \<open>auto simp: http_defs\<close>)
  then show ?thesis by (metis own.simps(6,8,9))
qed

definition rounds_ok :: "server \<Rightarrow> bool" where
  "rounds_ok s \<longleftrightarrow> (\<forall>p. sv_busy s p \<le> sv_live s p)"

lemma rounds_ok_act: "server_act n a s = Some s' \<Longrightarrow> rounds_ok s \<Longrightarrow> rounds_ok s'"
proof (cases a)
  case Main
  assume s: "server_act n a s = Some s'" "rounds_ok s"
  show ?thesis
  proof (cases "sv_code s")
    case Nil
    then obtain d ds where "sv_defers s = d # ds" "do_deferred d ds s = Some s'"
      using Main s by (auto split: list.splits)
    then show ?thesis using s(2) by (cases d) (auto simp: rounds_ok_def http_defs split: if_splits)
  next
    case (Cons i rest)
    then show ?thesis
      using Main s by (cases i) (auto simp: rounds_ok_def http_defs trans_le_add1 split: if_splits)
  qed
next
  case (RoundEnds p)
  assume "server_act n a s = Some s'" "rounds_ok s"
  with RoundEnds show ?thesis by (auto simp: rounds_ok_def split: if_splits) (meson diff_le_self le_trans)
qed (auto simp: rounds_ok_def Suc_le_eq split: list.splits if_splits instr.splits)

lemma done_stays: "server_act n a s = Some s' \<Longrightarrow> sv_done s \<Longrightarrow> sv_done s'"
proof (cases a)
  case Main
  assume s: "server_act n a s = Some s'" "sv_done s"
  show ?thesis
  proof (cases "sv_code s")
    case Nil
    then obtain d ds where "sv_defers s = d # ds" "do_deferred d ds s = Some s'"
      using Main s by (auto split: list.splits)
    then show ?thesis using s(2) by (cases d) (auto simp: http_defs split: if_splits)
  next
    case (Cons i rest)
    then show ?thesis using Main s by (cases i) (auto simp: http_defs split: if_splits)
  qed
qed (auto split: list.splits if_splits instr.splits)

lemma error_stays: "framed D s \<Longrightarrow> server_act n a s = Some s' \<Longrightarrow> sv_error s \<noteq> None \<Longrightarrow> sv_error s' \<noteq> None"
proof (cases a)
  case Main
  assume s: "framed D s" "server_act n a s = Some s'" "sv_error s \<noteq> None"
  then have "sv_code s = []" by (simp add: framed_def)
  then obtain d ds where "sv_defers s = d # ds" "do_deferred d ds s = Some s'"
    using Main s(2) by (auto split: list.splits)
  then show ?thesis using s(3) by (cases d) (auto simp: http_defs split: if_splits)
qed (auto simp: framed_def split: list.splits if_splits instr.splits)

lemma stopping_stays:
  assumes "server_run n bs s = Some s'" and "framed D s" and "sv_done s \<or> P \<and> sv_error s \<noteq> None"
  shows "framed D s' \<and> (sv_done s' \<or> P \<and> sv_error s' \<noteq> None)"
  using server_run_keeps [OF _ assms(1), of "\<lambda>s. framed D s \<and> (sv_done s \<or> P \<and> sv_error s \<noteq> None)"] assms(2,3)
    framed_act done_stays error_stays by blast

text \<open>C26: A signal ends the server up to the rounds in progress: once the context is over, then however
  clients, ticks and rounds interleave, the server makes at most as many more steps of its own as steps_left
  says (its remaining instructions and deferred calls and its live goroutines), and before it has exited one
  of them is possible, unless the main goroutine waits for a part all of whose remaining goroutines are in a
  round, such as a handler that does not return.  The server also ends so when its function has returned an
  error; the example server does with a signal only.\<close>

theorem servers_shut_down:
  assumes "c = cmdServer \<or> c = example_server" and "server_run n as (boot c) = Some s"
    and "sv_done s \<or> c = cmdServer \<and> sv_error s \<noteq> None" and "server_run n bs s = Some s'"
  shows "length (filter own bs) + steps_left n s' \<le> steps_left n s \<and>
    (exited s' \<or> (\<exists>a. own a \<and> server_act n a s' \<noteq> None) \<or>
     (\<exists>p. waits_for s' = Some p \<and> 0 < sv_live s' p \<and> sv_busy s' p = sv_live s' p))"
proof -
  have "framed (deferrals c) s" using orderly_run [OF assms(1,2)] by (simp add: orderly_def)
  note stays = stopping_stays [OF assms(4) this assms(3)]
  have "rounds_ok (boot c)" by (simp add: rounds_ok_def boot_def)
  then have "rounds_ok s'"
    using server_run_keeps [where I = rounds_ok, OF _ assms(2)] server_run_keeps [where I = rounds_ok, OF _ assms(4)]
      rounds_ok_act by blast
  then have busy: "sv_busy s' p < sv_live s' p \<or> sv_busy s' p = sv_live s' p" for p
    by (simp add: rounds_ok_def le_less)
  show ?thesis
    using stays own_step_enabled [of c s' n] own_steps_bounded [OF assms(4)] busy by (auto simp: not_less)
qed

lemma servers_shut_down_witness:
  "\<exists>s s'. server_run (\<lambda>_. 1) (replicate 10 Main @ [RoundStarts PoolPart, Signal]) (boot cmdServer) = Some s \<and>
     server_run (\<lambda>_. 1) [Main, Main, Main, RoundEnds PoolPart] s = Some s' \<and>
     3 + steps_left (\<lambda>_. 1) s' \<le> steps_left (\<lambda>_. 1) s \<and> (\<exists>a. own a \<and> server_act (\<lambda>_. 1) a s' \<noteq> None)"
proof -
  have "\<exists>s s'. server_run (\<lambda>_. 1) (replicate 10 Main @ [RoundStarts PoolPart, Signal]) (boot cmdServer) = Some s \<and>
      sv_done s \<and> server_run (\<lambda>_. 1) [Main, Main, Main, RoundEnds PoolPart] s = Some s' \<and> \<not> exited s' \<and>
      (\<forall>p. waits_for s' = Some p \<longrightarrow> sv_busy s' p < sv_live s' p)"
    by (simp add: cmdServer_def boot_def http_defs exited_def waits_for_def numeral_eq_Suc)
  then obtain s s' where s: "server_run (\<lambda>_. 1) (replicate 10 Main @ [RoundStarts PoolPart, Signal]) (boot cmdServer) = Some s"
      "sv_done s" "server_run (\<lambda>_. 1) [Main, Main, Main, RoundEnds PoolPart] s = Some s'" "\<not> exited s'"
      "\<And>p. waits_for s' = Some p \<Longrightarrow> sv_busy s' p < sv_live s' p" by blast
  with servers_shut_down [OF _ s(1) _ s(3)] show ?thesis by fastforce
qed

text \<open>The example server hangs when its port is taken: the function returns the error of srv.Start, and its
  first deferred call waits for the scheduler, which only ends when the context is over, which only a signal or
  the deferred stop behind it brings about; whatever happens but the signal, the server does not exit.\<close>

definition hanging :: "server \<Rightarrow> bool" where
  "hanging s \<longleftrightarrow> sv_code s = [] \<and> (\<exists>ds. sv_defers s = DWait SchedPart # ds) \<and> \<not> sv_done s \<and> 0 < sv_live s SchedPart"

lemma hanging_act: "server_act n a s = Some s' \<Longrightarrow> a \<noteq> Signal \<Longrightarrow> hanging s \<Longrightarrow> hanging s'"
proof (cases a)
  case (PartEnds p)
  then show "server_act n a s = Some s' \<Longrightarrow> hanging s \<Longrightarrow> hanging s'" by (cases p) (auto simp: hanging_def)
qed (auto simp: hanging_def http_defs split: if_splits)

lemma hanging_run:
  "server_run n bs s = Some s' \<Longrightarrow> Signal \<notin> set bs \<Longrightarrow> hanging s \<Longrightarrow> hanging s'"
  by (induction bs arbitrary: s) (auto split: option.splits dest: hanging_act)

theorem example_server_hangs:
  assumes "0 < n SchedPart" and "server_run n (replicate 11 Main @ [MainFails] @ bs) (boot example_server) = Some s"
    and "Signal \<notin> set bs"
  shows "\<not> exited s"
proof -
  define as where "as = replicate 11 Main @ [MainFails]"
  have "as = [Main, Main, Main, Main, Main, Main, Main, Main, Main, Main, Main, MainFails]"
    by (simp add: as_def numeral_eq_Suc)
  moreover obtain s0 where s0: "server_run n as (boot example_server) = Some s0" "server_run n bs s0 = Some s"
    using assms(2) server_run_append [of n as bs "boot example_server"] by (auto simp: as_def split: option.splits)
  ultimately have "hanging s0" using assms(1) by (auto simp: hanging_def example_server_def boot_def http_defs)
  with hanging_run [OF s0(2) assms(3)] show ?thesis by (auto simp: hanging_def exited_def)
qed

lemma example_server_hangs_witness:
  "\<exists>s. server_run (\<lambda>_. 1) (replicate 11 Main @ [MainFails] @ [RoundStarts SchedPart, RoundEnds SchedPart])
      (boot example_server) = Some s \<and> \<not> exited s"
proof -
  have "\<exists>s. server_run (\<lambda>_. 1) (replicate 11 Main @ [MainFails] @ [RoundStarts SchedPart, RoundEnds SchedPart])
      (boot example_server) = Some s"
    by (simp add: example_server_def boot_def http_defs numeral_eq_Suc)
  then show ?thesis using example_server_hangs [of "\<lambda>_. 1"] by fastforce
qed

text \<open>The server does not hang then, but it closes the store under its goroutines.\<close>

lemma listen_error_closes_early:
  "\<exists>s. server_run n (replicate 9 Main @ [MainFails, Main, Main]) (boot cmdServer) = Some s \<and>
     exited s \<and> sv_error s = Some IListen \<and> \<not> sv_store s \<and> sv_live s PoolPart = n PoolPart"
  by (simp add: cmdServer_def boot_def http_defs exited_def numeral_eq_Suc)

end
