(* ===== verification/ETQ_Flags.thy ===== *)
theory ETQ_Flags
  imports ETQ_Server
begin

section \<open>The flags of the commands (cmd/server/main.go)\<close>

text \<open>
  What the two commands take from Go's package flag: string flags in a set that exits on an error, in
  the forms \<^verbatim>\<open>-name value\<close>, \<^verbatim>\<open>--name value\<close>, \<^verbatim>\<open>-name=value\<close> and \<^verbatim>\<open>--name=value\<close>.  Parsing stops at the first
  argument that is not a flag, and after \<^verbatim>\<open>--\<close>.
\<close>

datatype flags_result = FlagsSet "string \<Rightarrow> string" "string list" | FlagsExit int

text \<open>A flag that is not defined: a plea for help exits with 0, anything else with 2.\<close>

definition undefined_flag :: "string \<Rightarrow> flags_result" where
  "undefined_flag name = FlagsExit (if name = ''help'' \<or> name = ''h'' then 0 else 2)"

definition flag_name :: "string \<Rightarrow> string" where
  "flag_name s = (if s ! 1 = CHR ''-'' then drop 2 s else drop 1 s)"

fun parse_flags :: "string list \<Rightarrow> (string \<Rightarrow> string) \<Rightarrow> string list \<Rightarrow> flags_result" where
  "parse_flags names vals [] = FlagsSet vals []"
| "parse_flags names vals (s # args) =
     (if length s < 2 \<or> hd s \<noteq> CHR ''-'' then FlagsSet vals (s # args)
      else if s = ''--'' then FlagsSet vals args
      else
        (let name = flag_name s in
         if name = [] \<or> hd name = CHR ''-'' \<or> hd name = CHR ''='' then FlagsExit 2
         else case split_two (CHR ''='') name of
           Some (n, v) \<Rightarrow>
             if n \<in> set names then parse_flags names (vals(n := v)) args else undefined_flag n
         | None \<Rightarrow>
             if name \<notin> set names then undefined_flag name
             else (case args of [] \<Rightarrow> FlagsExit 2 | v # rest \<Rightarrow> parse_flags names (vals(name := v)) rest)))"

datatype 'a parsed = Exits int | Fails config_error | Parsed 'a

definition parseServerFlags ::
  "(string \<Rightarrow> stat_result) \<Rightarrow> (string \<Rightarrow> config \<Rightarrow> config option) \<Rightarrow> string \<Rightarrow> string \<Rightarrow>
     string list \<Rightarrow> (config \<times> string \<times> string) parsed" where
  "parseServerFlags st decode env_config env_db args =
     (case parse_flags [''config'', ''db'', ''addr''] ((\<lambda>_. [])(''addr'' := '':8080'')) args of
        FlagsExit n \<Rightarrow> Exits n
      | FlagsSet vals _ \<Rightarrow>
          (case loadConfig st decode env_config env_db (vals ''config'') (vals ''db'') of
             Inl e \<Rightarrow> Fails e
           | Inr (cfg, path) \<Rightarrow> Parsed (cfg, path, vals ''addr'')))"

definition parseMigrateFlags ::
  "(string \<Rightarrow> stat_result) \<Rightarrow> (string \<Rightarrow> config \<Rightarrow> config option) \<Rightarrow> string \<Rightarrow> string \<Rightarrow>
     string list \<Rightarrow> (config \<times> string) parsed" where
  "parseMigrateFlags st decode env_config env_db args =
     (case parse_flags [''config'', ''db''] (\<lambda>_. []) args of
        FlagsExit n \<Rightarrow> Exits n
      | FlagsSet vals _ \<Rightarrow>
          (case loadConfig st decode env_config env_db (vals ''config'') (vals ''db'') of
             Inl e \<Rightarrow> Fails e
           | Inr r \<Rightarrow> Parsed r))"

text \<open>How a setting can be written, and what a list of settings gives a flag.\<close>

datatype flag_style = Dash | DoubleDash | DashEq | DoubleDashEq

fun flag_args :: "flag_style \<times> string \<times> string \<Rightarrow> string list" where
  "flag_args (Dash, n, v) = [''-'' @ n, v]"
| "flag_args (DoubleDash, n, v) = [''--'' @ n, v]"
| "flag_args (DashEq, n, v) = [''-'' @ n @ ''='' @ v]"
| "flag_args (DoubleDashEq, n, v) = [''--'' @ n @ ''='' @ v]"

definition set_all :: "(flag_style \<times> string \<times> string) list \<Rightarrow> (string \<Rightarrow> string) \<Rightarrow> string \<Rightarrow> string" where
  "set_all xs vals = fold (\<lambda>(_, n, v) f. f(n := v)) xs vals"

text \<open>The value of the last setting of a flag, or its default.\<close>

definition given :: "(flag_style \<times> string \<times> string) list \<Rightarrow> string \<Rightarrow> string \<Rightarrow> string" where
  "given xs n dflt =
     (case filter (\<lambda>(_, m, _). m = n) xs of [] \<Rightarrow> dflt | ys \<Rightarrow> snd (snd (last ys)))"

subsection \<open>Settings parse\<close>

definition plain_name :: "string \<Rightarrow> bool" where
  "plain_name n \<longleftrightarrow> n \<noteq> [] \<and> hd n \<noteq> CHR ''-'' \<and> CHR ''='' \<notin> set n"

lemma split_two_none: "c \<notin> set s \<Longrightarrow> split_two c s = None"
  by (simp add: split_two_def)

lemma parse_setting:
  assumes "plain_name n" and "n \<in> set names"
  shows "parse_flags names vals (flag_args (st, n, v) @ rest) = parse_flags names (vals(n := v)) rest"
proof -
  obtain c cs where n: "n = c # cs" "c \<noteq> CHR ''-''" "c \<noteq> CHR ''=''" "CHR ''='' \<notin> set cs"
    using assms(1) by (cases n) (auto simp: plain_name_def)
  have "split_two (CHR ''='') (c # cs @ CHR ''='' # v) = Some (c # cs, v)"
    using split_two_append [of "CHR ''=''" "c # cs" v] n(3,4) by simp
  moreover have "split_two (CHR ''='') (c # cs) = None" using n(3,4) by (simp add: split_two_none)
  ultimately show ?thesis
    using n assms(2) by (cases st) (simp_all add: flag_name_def)
qed

lemma parse_settings:
  "list_all (\<lambda>(st, n, v). plain_name n \<and> n \<in> set names) xs \<Longrightarrow>
     parse_flags names vals (concat (map flag_args xs)) = FlagsSet (set_all xs vals) []"
proof (induction xs arbitrary: vals)
  case (Cons x xs)
  obtain st n v where x: "x = (st, n, v)" by (cases x) auto
  have "parse_flags names vals (flag_args x @ concat (map flag_args xs)) =
      parse_flags names (vals(n := v)) (concat (map flag_args xs))"
    unfolding x using Cons.prems x by (intro parse_setting) auto
  also have "\<dots> = FlagsSet (set_all xs (vals(n := v))) []" using Cons.prems by (intro Cons.IH) auto
  finally show ?case by (simp add: x set_all_def)
qed (simp add: set_all_def)

lemma set_all_given: "set_all xs vals n = given xs n (vals n)"
proof (induction xs rule: rev_induct)
  case (snoc x xs)
  then show ?case by (cases x) (auto simp: set_all_def given_def split: list.splits)
qed (simp add: set_all_def given_def)

text \<open>C31: The flags of the server mean what its usage says: however the settings are written and in whatever order,
  the last one of each flag counts; the configuration file is the one of -config, the database path that of -db
  when it is not empty and else the configuration's, the address that of -addr with :8080 as its default.\<close>

theorem parseServerFlags_settings:
  assumes "list_all (\<lambda>(st, n, v). n \<in> set [''config'', ''db'', ''addr'']) xs"
    and "Load (st (ConfigFilePath (given xs ''config'' []) ec)) (decode (ConfigFilePath (given xs ''config'' []) ec)) ed
           (ConfigFilePath (given xs ''config'' []) ec) = Inr cfg"
  shows "parseServerFlags st decode ec ed (concat (map flag_args xs)) =
    Parsed (cfg, if given xs ''db'' [] \<noteq> [] then given xs ''db'' [] else c_db_path cfg, given xs ''addr'' '':8080'')"
proof -
  have "list_all (\<lambda>(st, n, v). plain_name n \<and> n \<in> set [''config'', ''db'', ''addr'']) xs"
    using assms(1) by (auto simp: list_all_iff plain_name_def)
  from parse_settings [OF this] show ?thesis
    using assms(2) by (simp add: parseServerFlags_def set_all_given loadConfig_def Let_def)
qed

lemma parseServerFlags_settings_witness:
  "parseServerFlags (\<lambda>_. StatNotExist) (\<lambda>_ _. None) [] [] [''-db'', ''a.db'', ''--addr=:9'', ''-db=b.db''] =
     Parsed (demo_cfg, ''b.db'', '':9'')"
proof -
  let ?xs = "[(Dash, ''db'', ''a.db''), (DoubleDashEq, ''addr'', '':9''), (DashEq, ''db'', ''b.db'')]"
  have "Load StatNotExist (\<lambda>_. None) [] (ConfigFilePath [] []) = Inr demo_cfg"
    by (simp add: Load_def defaults_def demo_cfg_def validate_def DefaultGlobalLimit_def)
  with parseServerFlags_settings [of ?xs "\<lambda>_. StatNotExist" "[]" "\<lambda>_ _. None" "[]" demo_cfg]
  show ?thesis by (simp add: given_def)
qed

end
