(* ===== verification/ETQ_Files.thy ===== *)
theory ETQ_Files
  imports ETQ_Strings "HOL-Library.Sublist"
begin

section \<open>Paths and files (path/filepath, os)\<close>

text \<open>
  What the example handlers use of Go's packages path/filepath and os, on a Unix system: \<open>Clean\<close>,
  \<open>Join\<close>, \<open>Dir\<close>, \<open>IsAbs\<close>, and the calls that make directories, open, write and read files.  A file
  system has a working directory, the content of every regular file and the directories, by the names
  on the way from the root; it has no links.  Which calls fail beside those that must is the
  environment's choice, and so is how far a failing write gets.
\<close>

subsection \<open>Paths\<close>

fun split_at :: "char \<Rightarrow> string \<Rightarrow> string list" where
  "split_at s [] = [[]]"
| "split_at s (c # cs) =
     (if c = s then [] # split_at s cs
      else case split_at s cs of l # ls \<Rightarrow> (c # l) # ls | [] \<Rightarrow> [[c]])"

definition components :: "string \<Rightarrow> string list" where
  "components p = split_at (CHR ''/'') p"

fun slash_join :: "string list \<Rightarrow> string" where
  "slash_join [] = []"
| "slash_join [c] = c"
| "slash_join (c # cs) = c @ ''/'' @ slash_join cs"

definition IsAbs :: "string \<Rightarrow> bool" where
  "IsAbs p \<longleftrightarrow> p \<noteq> [] \<and> hd p = CHR ''/''"

text \<open>The names left of a path: no empty name, no dot, a dot-dot only in front of an unrooted path.\<close>

fun clean_names :: "bool \<Rightarrow> string list \<Rightarrow> string list \<Rightarrow> string list" where
  "clean_names rooted acc [] = rev acc"
| "clean_names rooted acc (c # cs) =
     (if c = [] \<or> c = ''.'' then clean_names rooted acc cs
      else if c = ''..'' then
        (case acc of
           a # as \<Rightarrow> if a = ''..'' then clean_names rooted (c # acc) cs else clean_names rooted as cs
         | [] \<Rightarrow> clean_names rooted (if rooted then [] else [c]) cs)
      else clean_names rooted (c # acc) cs)"

definition Clean :: "string \<Rightarrow> string" where
  "Clean p =
     (let s = (if IsAbs p then ''/'' else []) @ slash_join (clean_names (IsAbs p) [] (components p))
      in if s = [] then ''.'' else s)"

definition Join :: "string list \<Rightarrow> string" where
  "Join es = (case dropWhile (\<lambda>e. e = []) es of [] \<Rightarrow> [] | es' \<Rightarrow> Clean (slash_join es'))"

definition Dir :: "string \<Rightarrow> string" where
  "Dir p = Clean (rev (dropWhile (\<lambda>c. c \<noteq> CHR ''/'') (rev p)))"

text \<open>\<open>strings.Contains\<close>.\<close>

definition Contains :: "string \<Rightarrow> string \<Rightarrow> bool" where
  "Contains s sub \<longleftrightarrow> list_ex (\<lambda>k. take (length sub) (drop k s) = sub) [0..<Suc (length s)]"

subsection \<open>Files\<close>

type_synonym location = "string list"

record fs =
  fs_cwd :: string
  fs_files :: "location \<Rightarrow> bytes option"
  fs_dirs :: "location \<Rightarrow> bool"

text \<open>Calls by name; what they fail with; how many bytes a failing write writes; the clock.\<close>

record file_env =
  fe_fault :: "string \<Rightarrow> bool"
  fe_error :: "string \<Rightarrow> string"
  fe_short :: nat
  fe_stamp :: string
  fe_nano :: int

definition locate :: "fs \<Rightarrow> string \<Rightarrow> location" where
  "locate f p = clean_names True [] (if IsAbs p then components p else components (fs_cwd f) @ components p)"

text \<open>A regular file stands where a directory is needed.\<close>

definition blocked :: "fs \<Rightarrow> location \<Rightarrow> bool" where
  "blocked f l \<longleftrightarrow> list_ex (\<lambda>k. fs_files f (take k l) \<noteq> None) [0..<Suc (length l)]"

definition MkdirAll :: "file_env \<Rightarrow> string \<Rightarrow> string \<Rightarrow> fs \<Rightarrow> string + fs" where
  "MkdirAll e call p f =
     (let l = locate f p in
      if fe_fault e call \<or> blocked f l then Inl (fe_error e call)
      else Inr (f\<lparr>fs_dirs := (\<lambda>x. fs_dirs f x \<or> prefix x l)\<rparr>))"

text \<open>\<open>OpenFile\<close> for writing, creating the file; it is emptied unless it is opened to append.\<close>

definition open_write :: "file_env \<Rightarrow> string \<Rightarrow> bool \<Rightarrow> string \<Rightarrow> fs \<Rightarrow> string + fs" where
  "open_write e call app p f =
     (let l = locate f p in
      if fe_fault e call \<or> fs_dirs f l \<or> \<not> fs_dirs f (butlast l) then Inl (fe_error e call)
      else Inr (f\<lparr>fs_files := (fs_files f)(l \<mapsto> (if app then case fs_files f l of Some b \<Rightarrow> b | None \<Rightarrow> [] else []))\<rparr>))"

text \<open>Writing at the end of a file that is open: all of it, or an error after a part of it.\<close>

definition write_end :: "file_env \<Rightarrow> string \<Rightarrow> string \<Rightarrow> bytes \<Rightarrow> fs \<Rightarrow> (string + nat) \<times> fs" where
  "write_end e call p b f =
     (let l = locate f p;
          put = (\<lambda>x. f\<lparr>fs_files := (fs_files f)(l \<mapsto> (case fs_files f l of Some old \<Rightarrow> old | None \<Rightarrow> []) @ x)\<rparr>)
      in if fe_fault e call then (Inl (fe_error e call), put (take (fe_short e) b))
         else (Inr (length b), put b))"

definition WriteFile :: "file_env \<Rightarrow> string \<Rightarrow> bytes \<Rightarrow> fs \<Rightarrow> string option \<times> fs" where
  "WriteFile e p b f =
     (case open_write e ''write file'' False p f of
        Inl msg \<Rightarrow> (Some msg, f)
      | Inr f1 \<Rightarrow>
          (case write_end e ''write bytes'' p b f1 of
             (Inl msg, f2) \<Rightarrow> (Some msg, f2)
           | (Inr _, f2) \<Rightarrow> (None, f2)))"

definition ReadFile :: "file_env \<Rightarrow> string \<Rightarrow> fs \<Rightarrow> string + bytes" where
  "ReadFile e p f =
     (case fs_files f (locate f p) of
        Some b \<Rightarrow> if fe_fault e ''read'' then Inl (fe_error e ''read'') else Inr b
      | None \<Rightarrow> Inl (fe_error e ''read''))"

text \<open>\<open>Stat\<close>, and the size it reports; of a directory, which no handler goes on to use, zero.\<close>

definition Stat :: "file_env \<Rightarrow> string \<Rightarrow> fs \<Rightarrow> string + nat" where
  "Stat e p f =
     (if fe_fault e ''stat'' then Inl (fe_error e ''stat'')
      else case fs_files f (locate f p) of
        Some b \<Rightarrow> Inr (length b)
      | None \<Rightarrow> if fs_dirs f (locate f p) then Inr 0 else Inl (fe_error e ''stat''))"

subsection \<open>Decimal numbers (\<open>%d\<close>)\<close>

fun show_nat :: "nat \<Rightarrow> string" where
  "show_nat n = (if n < 10 then [] else show_nat (n div 10)) @ [char_of (48 + n mod 10)]"

declare show_nat.simps [simp del]

definition show_int :: "int \<Rightarrow> string" where
  "show_int n = (if n < 0 then ''-'' @ show_nat (nat (- n)) else show_nat (nat n))"

subsection \<open>Facts on paths\<close>

lemma split_at_ne [simp]: "split_at s p \<noteq> []"
  by (induction p) (auto split: list.split)

lemma split_at_sep: "c \<in> set (split_at s p) \<Longrightarrow> s \<notin> set c"
  by (induction p arbitrary: c) (auto split: list.splits if_splits)

lemma split_at_append:
  "s \<notin> set c \<Longrightarrow> split_at s (c @ s # p) = c # split_at s p"
  by (induction c) auto

lemma split_at_id: "s \<notin> set c \<Longrightarrow> split_at s c = [c]"
  by (induction c) auto

definition slashless :: "string list \<Rightarrow> bool" where
  "slashless cs \<longleftrightarrow> list_all (\<lambda>c. CHR ''/'' \<notin> set c) cs"

lemma components_join:
  "cs \<noteq> [] \<Longrightarrow> slashless cs \<Longrightarrow> components (slash_join cs) = cs"
  by (induction cs rule: slash_join.induct)
    (auto simp: components_def slashless_def split_at_append split_at_id)

lemma slashless_components [simp]: "slashless (components p)"
  by (auto simp: slashless_def components_def list_all_iff dest: split_at_sep)

text \<open>A name that stays: not empty and not a dot.  Without dot-dot, cleaning only filters.\<close>

definition stays :: "string \<Rightarrow> bool" where
  "stays c \<longleftrightarrow> c \<noteq> [] \<and> c \<noteq> ''.''"

lemma clean_names_append:
  "clean_names r acc (xs @ ys) = clean_names r (rev (clean_names r acc xs)) ys"
  by (induction r acc xs rule: clean_names.induct) (auto split: list.split)

lemma clean_names_filter:
  "''..'' \<notin> set cs \<Longrightarrow> clean_names r acc cs = rev acc @ filter stays cs"
  by (induction cs arbitrary: acc) (auto simp: stays_def)

lemma dots_found:
  "''..'' \<in> set (split_at s q) \<Longrightarrow> \<exists>k \<le> length q. take 2 (drop k q) = ''..''"
proof (induction q)
  case (Cons c q)
  have head: "take (length (hd (split_at s q))) q = hd (split_at s q)" for q
    by (induction q) (auto split: list.splits)
  show ?case
  proof (cases "''..'' \<in> set (split_at s q)")
    case True
    with Cons.IH obtain k where "k \<le> length q" "take 2 (drop k q) = ''..''" by blast
    then show ?thesis by (intro exI [of _ "Suc k"]) simp
  next
    case False
    then have d: "hd (split_at s q) = ''.''" "c = CHR ''.''"
      using Cons.prems by (auto split: if_splits list.splits)
    then have "take 1 q = ''.''" using head [of q] by simp
    with d(2) show ?thesis by (intro exI [of _ 0]) (cases q; simp)
  qed
qed simp

lemma dots_contained:
  assumes "''..'' \<in> set (components p)"
  shows "Contains p ''..''"
proof -
  obtain k where "k \<le> length p" "take 2 (drop k p) = ''..''"
    using dots_found assms unfolding components_def by blast
  then show ?thesis
    unfolding Contains_def list_ex_iff by (intro bexI [of _ k]) (auto simp: numeral_2_eq_2)
qed

text \<open>Joining a name to a directory below the working directory.\<close>

lemma slash_join_append: "xs \<noteq> [] \<Longrightarrow> ys \<noteq> [] \<Longrightarrow> slash_join (xs @ ys) = slash_join xs @ ''/'' @ slash_join ys"
  by (induction xs rule: slash_join.induct) (auto simp: neq_Nil_conv)

lemma slash_join_stays: "list_all stays ns \<Longrightarrow> slashless ns \<Longrightarrow> ns \<noteq> [] \<Longrightarrow> slash_join ns \<noteq> [] \<and> \<not> IsAbs (slash_join ns)"
  by (induction ns rule: slash_join.induct) (auto simp: stays_def slashless_def IsAbs_def neq_Nil_conv)

lemma components_prefix:
  "slashless ds \<Longrightarrow> ds \<noteq> [] \<Longrightarrow> components (slash_join ds @ CHR ''/'' # p) = ds @ components p"
  by (induction ds rule: slash_join.induct) (auto simp: components_def slashless_def split_at_append)

lemma Join_below:
  assumes "list_all stays ds" and "slashless ds" and "ds \<noteq> []" and "''..'' \<notin> set ds" and "''..'' \<notin> set (components p)"
  shows "Join [slash_join ds, p] = slash_join (ds @ filter stays (components p))"
proof -
  note d = slash_join_stays [OF assms(1-3)]
  have names: "clean_names False [] (components (slash_join ds @ ''/'' @ p)) = ds @ filter stays (components p)"
    using assms by (simp add: components_prefix clean_names_filter list_all_iff filter_True)
  have "\<not> IsAbs (slash_join ds @ ''/'' @ p)" using d by (auto simp: IsAbs_def hd_append)
  moreover have "list_all stays (ds @ filter stays (components p))" "slashless (ds @ filter stays (components p))"
    using assms(1,2) slashless_components [of p] by (auto simp: list_all_iff slashless_def)
  from slash_join_stays [OF this] have "slash_join (ds @ filter stays (components p)) \<noteq> []" using assms(3) by simp
  ultimately show ?thesis
    using d by (simp add: Join_def Clean_def Let_def names del: append.append_Cons)
qed

lemma locate_below:
  assumes "list_all stays ns" and "slashless ns" and "ns \<noteq> []" and "''..'' \<notin> set ns"
  shows "locate f (slash_join ns) = clean_names True [] (components (fs_cwd f)) @ ns"
  using assms slash_join_stays [OF assms(1-3)]
  by (simp add: locate_def components_join clean_names_append [of True "[]" "components (fs_cwd f)" ns]
      clean_names_filter list_all_iff filter_True)

subsection \<open>Facts on files\<close>

lemma MkdirAll_frame:
  "MkdirAll e call p f = Inr f' \<Longrightarrow> fs_files f' = fs_files f \<and> fs_cwd f' = fs_cwd f \<and> \<not> blocked f (locate f p)"
  by (auto simp: MkdirAll_def Let_def split: if_splits)

lemma locate_cwd: "fs_cwd f' = fs_cwd f \<Longrightarrow> locate f' p = locate f p"
  by (simp add: locate_def)

lemma open_write_frame:
  "open_write e call app p f = Inr f' \<Longrightarrow> fs_cwd f' = fs_cwd f \<and> fs_dirs f' = fs_dirs f \<and>
     fs_files f' = (fs_files f)(locate f p \<mapsto> (if app then case fs_files f (locate f p) of Some b \<Rightarrow> b | None \<Rightarrow> [] else []))"
  by (auto simp: open_write_def Let_def split: if_splits)

lemma write_end_frame:
  "fs_cwd (snd (write_end e call p b f)) = fs_cwd f"
  "l \<noteq> locate f p \<Longrightarrow> fs_files (snd (write_end e call p b f)) l = fs_files f l"
  by (auto simp: write_end_def Let_def)

lemma WriteFile_frame:
  assumes "l \<noteq> locate f p"
  shows "fs_files (snd (WriteFile e p b f)) l = fs_files f l"
proof (cases "open_write e ''write file'' False p f")
  case (Inr f1)
  note o = open_write_frame [OF Inr]
  then have "l \<noteq> locate f1 p" using assms locate_cwd [of f1 f p] by simp
  then have "fs_files (snd (write_end e ''write bytes'' p b f1)) l = fs_files f l"
    using write_end_frame(2) [of l f1 p] o assms by simp
  moreover obtain r f2 where "write_end e ''write bytes'' p b f1 = (r, f2)" by fastforce
  ultimately show ?thesis by (cases r) (simp_all add: WriteFile_def Inr)
qed (simp add: WriteFile_def)

lemma WriteFile_ok:
  assumes "WriteFile e p b f = (None, f')"
  shows "fs_files f' = (fs_files f)(locate f p \<mapsto> b)"
proof (cases "open_write e ''write file'' False p f")
  case (Inl msg)
  then show ?thesis using assms by (simp add: WriteFile_def)
next
  case (Inr f1)
  note o = open_write_frame [OF Inr]
  then have "locate f1 p = locate f p" using locate_cwd [of f1 f p] by simp
  moreover obtain r f2 where w: "write_end e ''write bytes'' p b f1 = (r, f2)" by fastforce
  with assms Inr have "f2 = f'" "\<not> isl r" by (cases r; simp add: WriteFile_def)+
  with w have "fs_files f' =
      (fs_files f1)(locate f1 p \<mapsto> (case fs_files f1 (locate f1 p) of Some old \<Rightarrow> old | None \<Rightarrow> []) @ b)"
    by (auto simp add: write_end_def Let_def split: if_splits)
  ultimately show ?thesis using o by simp
qed

end
