(* ===== verification/ETQ_Utf8.thy ===== *)
theory ETQ_Utf8
  imports ETQ_Prelude
begin

section \<open>Text as JSON carries it\<close>

text \<open>
  A Go string is a list of bytes.  The JSON encoder writes it as text: it decodes one rune after the
  other and writes U+FFFD for every byte that does not start a valid one.  \<open>json_text\<close> is the text a
  reader of the encoded string has, again as bytes; the rules of a valid rune are those of UTF-8
  (no overlong form, no surrogate, nothing above U+10FFFF).
\<close>

definition byte_in :: "nat \<Rightarrow> nat \<Rightarrow> char \<Rightarrow> bool" where
  "byte_in lo hi c \<longleftrightarrow> lo \<le> of_char c \<and> of_char c \<le> hi"

definition continues :: "char \<Rightarrow> bool" where
  "continues = byte_in 0x80 0xBF"

text \<open>Which second byte a first byte of a rune of three or four allows.\<close>

definition second_ok :: "char \<Rightarrow> char \<Rightarrow> bool" where
  "second_ok a b \<longleftrightarrow>
     (if byte_in 0xE0 0xE0 a then byte_in 0xA0 0xBF b
      else if byte_in 0xED 0xED a then byte_in 0x80 0x9F b
      else if byte_in 0xF0 0xF0 a then byte_in 0x90 0xBF b
      else if byte_in 0xF4 0xF4 a then byte_in 0x80 0x8F b
      else byte_in 0xE1 0xF3 a \<and> continues b)"

text \<open>The length of the rune a string starts with, 0 when it starts with none.\<close>

fun rune_len :: "string \<Rightarrow> nat" where
  "rune_len [] = 0"
| "rune_len (a # s) =
     (if byte_in 0 0x7F a then 1
      else case s of
        [] \<Rightarrow> 0
      | b # s2 \<Rightarrow>
          if byte_in 0xC2 0xDF a then (if continues b then 2 else 0)
          else if \<not> second_ok a b then 0
          else case s2 of
            [] \<Rightarrow> 0
          | c # s3 \<Rightarrow>
              if \<not> continues c then 0
              else if byte_in 0xE0 0xEF a then 3
              else case s3 of [] \<Rightarrow> 0 | d # _ \<Rightarrow> if continues d then 4 else 0)"

definition replacement :: string where
  "replacement = [CHR 0xEF, CHR 0xBF, CHR 0xBD]"

fun json_text :: "string \<Rightarrow> string" where
  "json_text [] = []"
| "json_text (c # cs) =
     (let n = rune_len (c # cs) in
      if n = 0 then replacement @ json_text cs
      else take n (c # cs) @ json_text (drop (n - 1) cs))"

definition valid_text :: "string \<Rightarrow> bool" where
  "valid_text s \<longleftrightarrow> json_text s = s"

subsection \<open>A cut of valid text\<close>

lemma rune_len_le: "rune_len s \<le> length s" "rune_len s \<le> 4"
  by (cases s; simp split: list.split)+

lemma rune_len_prefix: "rune_len s \<noteq> 0 \<Longrightarrow> rune_len s \<le> m \<Longrightarrow> rune_len (take m s) = rune_len s"
  by (cases s) (auto simp: take_Cons' split: list.splits if_splits)

lemma continues_starts_none: "continues b \<Longrightarrow> rune_len (b # s) = 0"
  by (auto simp: continues_def byte_in_def second_ok_def split: list.split)

lemma second_continues: "second_ok a b \<Longrightarrow> continues b"
  by (auto simp: second_ok_def continues_def byte_in_def split: if_splits)

lemma second_no_ascii: "second_ok a b \<Longrightarrow> \<not> byte_in 0 0x7F a \<and> \<not> byte_in 0xC2 0xDF a"
  by (auto simp: second_ok_def byte_in_def split: if_splits)

lemma continuations_text: "list_all continues s \<Longrightarrow> json_text s = concat (replicate (length s) replacement)"
  by (induction s) (simp_all add: continues_starts_none del: rune_len.simps)

text \<open>A rune that is cut leaves one U+FFFD for each byte left of it.\<close>

lemma cut_rune:
  assumes "m < rune_len s"
  shows "json_text (take m s) = concat (replicate m replacement)"
proof (cases "m = 0")
  case False
  obtain a t where s: "s = a # t" using assms by (cases s) auto
  have none: "rune_len (a # take (m - 1) t) = 0"
    using assms False
    by (auto simp: s take_Cons' split: list.splits if_splits)
  have "list_all continues (take (m - 1) t)"
    using assms False second_continues
    by (auto simp: s take_Cons' split: list.splits if_splits)
  moreover have "length (take (m - 1) t) = m - 1" using assms rune_len_le(1) [of s] s by simp
  ultimately have "json_text (take (m - 1) t) = concat (replicate (m - 1) replacement)"
    using continuations_text by metis
  with none False show ?thesis by (cases m) (simp_all add: s del: rune_len.simps)
qed simp

lemma json_text_rune:
  "rune_len s \<noteq> 0 \<Longrightarrow> json_text s = take (rune_len s) s @ json_text (drop (rune_len s) s)"
  by (cases s) (simp_all add: Let_def drop_Cons' del: rune_len.simps)

lemma replacement_rune: "rune_len (replacement @ s) = 3"
  by (simp add: replacement_def byte_in_def second_ok_def continues_def)

lemma valid_text_head:
  assumes "valid_text s" and "s \<noteq> []"
  shows "rune_len s \<noteq> 0" and "valid_text (drop (rune_len s) s)"
proof -
  show r: "rune_len s \<noteq> 0"
  proof
    assume z: "rune_len s = 0"
    then have "s = replacement @ json_text (tl s)"
      using assms by (cases s) (simp_all add: valid_text_def del: rune_len.simps)
    then show False using z replacement_rune by (metis zero_neq_numeral)
  qed
  have "take (rune_len s) s @ drop (rune_len s) s = take (rune_len s) s @ json_text (drop (rune_len s) s)"
    using json_text_rune [OF r] assms(1) by (simp add: valid_text_def)
  then show "valid_text (drop (rune_len s) s)" unfolding valid_text_def by (metis same_append_eq)
qed

text \<open>
  Cutting valid text at a number of bytes keeps its whole runes, followed by at most three U+FFFD for
  the bytes of the rune it splits.
\<close>

lemma cut_text:
  "valid_text s \<Longrightarrow> n \<le> length s \<Longrightarrow>
   \<exists>k \<le> 3. k \<le> n \<and> json_text (take n s) = take (n - k) s @ concat (replicate k replacement)"
proof (induction "length s" arbitrary: s n rule: less_induct)
  case less
  let ?r = "rune_len s"
  show ?case
  proof (cases "s = [] \<or> n < ?r")
    case True
    then show ?thesis
    proof
      assume "n < ?r"
      then show ?thesis
        using cut_rune [of n s] rune_len_le(2) [of s] by (intro exI [of _ n]) auto
    qed (use less.prems in simp)
  next
    case False
    then have r: "?r \<noteq> 0" "valid_text (drop ?r s)" "?r \<le> n" using valid_text_head [OF less.prems(1)] by auto
    obtain k where k: "k \<le> 3" "k \<le> n - ?r"
        "json_text (take (n - ?r) (drop ?r s)) = take (n - ?r - k) (drop ?r s) @ concat (replicate k replacement)"
      using less.hyps [OF _ r(2), of "n - ?r"] False less.prems(2) r(1) by (auto simp: diff_le_mono)
    have "json_text (take n s) = take ?r (take n s) @ json_text (drop ?r (take n s))"
      using json_text_rune [of "take n s"] rune_len_prefix [OF r(1,3)] r(1) by simp
    also have "\<dots> = (take ?r s @ take (n - ?r - k) (drop ?r s)) @ concat (replicate k replacement)"
      using k(3) r(3) by (simp add: drop_take min_absorb1)
    also have "take ?r s @ take (n - ?r - k) (drop ?r s) = take (n - k) s"
      using k(2) r(3) take_add [of ?r "n - ?r - k" s] by simp
    finally show ?thesis using k(1,2) by (intro exI [of _ k]) simp
  qed
qed

lemma valid_text_ascii: "list_all (byte_in 0 0x7F) s \<Longrightarrow> valid_text s"
  by (induction s) (simp_all add: valid_text_def)

end
