(* ===== verification/ETQ_Handlers.thy ===== *)
theory ETQ_Handlers
  imports ETQ_Files ETQ_Queue ETQ_Utf8
begin

section \<open>The built-in handlers (examples/go/handlers)\<close>

text \<open>
  The four task handlers the server registers: two on files, one that fetches a page, one that asks a
  local model.  A handler takes its payload as the JSON decoder gives it (the decoder's error, or the
  struct) and the file system, and gives its result, or the text of its error, and the file system it
  leaves.  What is outside is an argument: which file calls fail (\<open>file_env\<close>), the HTTP client, the
  JSON encoder of the output file.  A handler returns the JSON of its result: the result records hold
  their strings as the encoder carries them (\<open>json_text\<close>), and how the fields are laid out is an argument
  of \<open>as_worker\<close>.  Directories that a failing \<open>MkdirAll\<close> has already made are not
  recorded; the statements are about regular files.
\<close>

definition outputDir :: string where
  "outputDir = Join [''examples'', ''output'']"

definition ellipsis :: string where "ellipsis = [CHR 0xE2, CHR 0x80, CHR 0xA6]"

definition nl :: string where "nl = [CHR 0x0A]"

text \<open>\<open>s[:n] + "..."\<close> of a text longer than \<open>n\<close> bytes.\<close>

definition preview_of :: "nat \<Rightarrow> string \<Rightarrow> string" where
  "preview_of n s = (if length s > n then take n s @ ellipsis else s)"

subsection \<open>Output files (http_fetch.go)\<close>

definition writeOutputText :: "file_env \<Rightarrow> string \<Rightarrow> string \<Rightarrow> fs \<Rightarrow> (string + string) \<times> fs" where
  "writeOutputText e name content f =
     (case MkdirAll e ''mkdir output'' outputDir f of
        Inl msg \<Rightarrow> (Inl (''mkdir output: '' @ msg), f)
      | Inr f1 \<Rightarrow>
          (let path = Join [outputDir, name] in
           case WriteFile e path content f1 of
             (Some msg, f2) \<Rightarrow> (Inl (''write '' @ path @ '': '' @ msg), f2)
           | (None, f2) \<Rightarrow> (Inr path, f2)))"

definition writeOutputJSON ::
  "file_env \<Rightarrow> ('v \<Rightarrow> string + bytes) \<Rightarrow> string \<Rightarrow> 'v \<Rightarrow> fs \<Rightarrow> (string + string) \<times> fs" where
  "writeOutputJSON e marshal name v f =
     (case MkdirAll e ''mkdir output'' outputDir f of
        Inl msg \<Rightarrow> (Inl (''mkdir output: '' @ msg), f)
      | Inr f1 \<Rightarrow>
          (let path = Join [outputDir, name] in
           case marshal v of
             Inl msg \<Rightarrow> (Inl (''marshal output: '' @ msg), f1)
           | Inr data \<Rightarrow>
               (case WriteFile e path data f1 of
                  (Some msg, f2) \<Rightarrow> (Inl (''write '' @ path @ '': '' @ msg), f2)
                | (None, f2) \<Rightarrow> (Inr path, f2))))"

subsection \<open>Writing a file (file_io.go)\<close>

record file_write_payload =
  fwp_filename :: string
  fwp_content :: string
  fwp_append :: bool

record file_write_result =
  fwr_path :: string
  fwr_bytes :: nat
  fwr_mode :: string

definition FileWrite ::
  "file_env \<Rightarrow> string + file_write_payload \<Rightarrow> fs \<Rightarrow> (string + file_write_result) \<times> fs" where
  "FileWrite e payload f =
     (case payload of
        Inl msg \<Rightarrow> (Inl (''invalid payload: '' @ msg), f)
      | Inr p \<Rightarrow>
          if fwp_filename p = [] then (Inl ''filename is required'', f)
          else if Contains (fwp_filename p) ''..'' \<or> IsAbs (fwp_filename p)
          then (Inl ''filename must be a relative name without ..'', f)
          else
            (let out = Join [outputDir, fwp_filename p] in
             case MkdirAll e ''mkdir'' (Dir out) f of
               Inl msg \<Rightarrow> (Inl (''mkdir: '' @ msg), f)
             | Inr f1 \<Rightarrow>
                 (case open_write e ''open'' (fwp_append p) out f1 of
                    Inl msg \<Rightarrow> (Inl (''open '' @ out @ '': '' @ msg), f1)
                  | Inr f2 \<Rightarrow>
                      (case write_end e ''write'' out (fwp_content p) f2 of
                         (Inl msg, f3) \<Rightarrow> (Inl (''write: '' @ msg), f3)
                       | (Inr n, f3) \<Rightarrow>
                           (Inr \<lparr>fwr_path = json_text out, fwr_bytes = n,
                                 fwr_mode = (if fwp_append p then ''append'' else ''write'')\<rparr>, f3)))))"

subsection \<open>Reading a file (file_io.go)\<close>

record file_read_payload =
  frp_path :: string
  frp_max :: int

record file_read_result =
  frr_path :: string
  frr_size :: nat
  frr_content :: string
  frr_truncated :: bool
  frr_output :: string

definition read_limit :: "int \<Rightarrow> nat" where
  "read_limit m = (if m \<le> 0 then 64 * 1024 else nat m)"

definition read_log :: "file_env \<Rightarrow> string \<Rightarrow> nat \<Rightarrow> bool \<Rightarrow> string \<Rightarrow> string" where
  "read_log e path sz truncated content =
     ''=== go_file_read log ==='' @ nl @ ''path:      '' @ path @ nl @ ''size:      '' @ show_nat sz @
     '' bytes'' @ nl @ ''read_at:   '' @ fe_stamp e @ nl @ ''truncated: '' @
     (if truncated then ''true'' else ''false'') @ nl @ nl @ ''--- content ---'' @ nl @ content"

definition FileRead ::
  "file_env \<Rightarrow> string + file_read_payload \<Rightarrow> fs \<Rightarrow> (string + file_read_result) \<times> fs" where
  "FileRead e payload f =
     (case payload of
        Inl msg \<Rightarrow> (Inl (''invalid payload: '' @ msg), f)
      | Inr p \<Rightarrow>
          if frp_path p = [] then (Inl ''path is required'', f)
          else case Stat e (frp_path p) f of
            Inl msg \<Rightarrow> (Inl (''stat '' @ frp_path p @ '': '' @ msg), f)
          | Inr sz \<Rightarrow>
              (case ReadFile e (frp_path p) f of
                 Inl msg \<Rightarrow> (Inl (''read '' @ frp_path p @ '': '' @ msg), f)
               | Inr data \<Rightarrow>
                   (let limit = read_limit (frp_max p);
                        truncated = limit < length data;
                        content = (if truncated then take limit data else data)
                    in case writeOutputText e (''go_file_read_'' @ show_int (fe_nano e) @ ''.txt'')
                              (read_log e (frp_path p) sz truncated content) f of
                         (Inl msg, f1) \<Rightarrow> (Inl msg, f1)
                       | (Inr out, f1) \<Rightarrow>
                           (Inr \<lparr>frr_path = json_text (frp_path p), frr_size = sz, frr_content = json_text content,
                                 frr_truncated = truncated, frr_output = json_text out\<rparr>, f1))))"

subsection \<open>Fetching a page (http_fetch.go)\<close>

record http_fetch_payload =
  hfp_url :: string
  hfp_timeout_secs :: int

record http_fetch_result =
  hfr_url :: string
  hfr_status :: int
  hfr_content_type :: string
  hfr_body_bytes :: nat
  hfr_preview :: string
  hfr_elapsed_ms :: int
  hfr_output :: string

record http_reply =
  hr_status :: int
  hr_content_type :: string
  hr_body :: bytes
  hr_broken :: "string option"

text \<open>The client: the error of building the request, and what sending it with a timeout gives.\<close>

record http_env =
  he_file :: file_env
  he_build :: "string \<Rightarrow> string option"
  he_do :: "string \<Rightarrow> duration \<Rightarrow> string + http_reply"
  he_elapsed :: int
  he_marshal :: "http_fetch_result \<Rightarrow> string + bytes"

definition fetch_json :: "http_fetch_result \<Rightarrow> http_fetch_result" where
  "fetch_json r =
     r\<lparr>hfr_url := json_text (hfr_url r), hfr_content_type := json_text (hfr_content_type r),
       hfr_preview := json_text (hfr_preview r), hfr_output := json_text (hfr_output r)\<rparr>"

definition HTTPFetch ::
  "http_env \<Rightarrow> string + http_fetch_payload \<Rightarrow> fs \<Rightarrow> (string + http_fetch_result) \<times> fs" where
  "HTTPFetch h payload f =
     (case payload of
        Inl msg \<Rightarrow> (Inl (''invalid payload: '' @ msg), f)
      | Inr p \<Rightarrow>
          if hfp_url p = [] then (Inl ''url is required'', f)
          else
            (let timeout = seconds (if hfp_timeout_secs p \<le> 0 then 10 else hfp_timeout_secs p) in
             case he_build h (hfp_url p) of
               Some msg \<Rightarrow> (Inl (''build request: '' @ msg), f)
             | None \<Rightarrow>
                 (case he_do h (hfp_url p) timeout of
                    Inl msg \<Rightarrow> (Inl (''GET '' @ hfp_url p @ '': '' @ msg), f)
                  | Inr resp \<Rightarrow>
                      (case hr_broken resp of
                         Some msg \<Rightarrow> (Inl (''read body: '' @ msg), f)
                       | None \<Rightarrow>
                           (let body = take (64 * 1024) (hr_body resp);
                                result = \<lparr>hfr_url = hfp_url p, hfr_status = hr_status resp,
                                  hfr_content_type = hr_content_type resp, hfr_body_bytes = length body,
                                  hfr_preview = preview_of 500 body, hfr_elapsed_ms = he_elapsed h, hfr_output = []\<rparr>
                            in case writeOutputJSON (he_file h) (he_marshal h)
                                      (''go_http_fetch_'' @ show_int (fe_nano (he_file h)) @ ''.json'') result f of
                                 (Inl msg, f1) \<Rightarrow> (Inl msg, f1)
                               | (Inr out, f1) \<Rightarrow> (Inr (fetch_json (result\<lparr>hfr_output := out\<rparr>)), f1))))))"

subsection \<open>Asking the model (ollama.go)\<close>

record ollama_payload =
  olp_model :: string
  olp_prompt :: string

record ollama_message =
  olm_role :: string
  olm_content :: string

record ollama_request =
  olq_model :: string
  olq_messages :: "ollama_message list"
  olq_stream :: bool

record ollama_reply =
  ola_model :: string
  ola_message :: ollama_message
  ola_done :: bool

record ollama_result =
  olr_model :: string
  olr_prompt :: string
  olr_response :: string
  olr_preview :: string
  olr_elapsed_ms :: int
  olr_output :: string

text \<open>
  The service behind POST /api/chat, asked with a timeout of two minutes: the error of the transport, or a status and the decoded body or the
  decoder's error.  Encoding and building the request to a fixed address do not fail.
\<close>

record ollama_env =
  oe_file :: file_env
  oe_chat :: "ollama_request \<Rightarrow> duration \<Rightarrow> string + int \<times> (string + ollama_reply)"
  oe_elapsed :: int

definition ollamaBaseURL :: string where "ollamaBaseURL = ''http://localhost:11434''"

definition defaultOllamaModel :: string where "defaultOllamaModel = ''qwen2.5:3b-instruct''"

definition chat_log :: "string \<Rightarrow> string \<Rightarrow> int \<Rightarrow> string \<Rightarrow> string" where
  "chat_log model prompt elapsed text =
     ''=== go_ollama_chat ==='' @ nl @ ''model:      '' @ model @ nl @ ''prompt:     '' @ prompt @ nl @
     ''elapsed_ms: '' @ show_int elapsed @ nl @ nl @ ''--- response ---'' @ nl @ text @ nl"

definition OllamaChat ::
  "ollama_env \<Rightarrow> string + ollama_payload \<Rightarrow> fs \<Rightarrow> (string + ollama_result) \<times> fs" where
  "OllamaChat o_env payload f =
     (case payload of
        Inl msg \<Rightarrow> (Inl (''invalid payload: '' @ msg), f)
      | Inr p \<Rightarrow>
          if olp_prompt p = [] then (Inl ''prompt is required'', f)
          else
            (let model = (if olp_model p = [] then defaultOllamaModel else olp_model p) in
             case oe_chat o_env \<lparr>olq_model = model,
                    olq_messages = [\<lparr>olm_role = ''user'', olm_content = olp_prompt p\<rparr>], olq_stream = False\<rparr> (seconds 120) of
               Inl msg \<Rightarrow>
                 (Inl (''Ollama unavailable at '' @ ollamaBaseURL @ '' (run: ollama serve): '' @ msg), f)
             | Inr (status, reply) \<Rightarrow>
                 if status \<noteq> 200 then (Inl (''Ollama returned HTTP '' @ show_int status), f)
                 else case reply of
                   Inl msg \<Rightarrow> (Inl (''decode response: '' @ msg), f)
                 | Inr resp \<Rightarrow>
                     (let text = olm_content (ola_message resp) in
                      case writeOutputText (oe_file o_env)
                             (''go_ollama_'' @ show_int (fe_nano (oe_file o_env)) @ ''.txt'')
                             (chat_log model (olp_prompt p) (oe_elapsed o_env) text) f of
                        (Inl msg, f1) \<Rightarrow> (Inl msg, f1)
                      | (Inr out, f1) \<Rightarrow>
                          (Inr \<lparr>olr_model = json_text (ola_model resp), olr_prompt = json_text (olp_prompt p),
                                olr_response = json_text text, olr_preview = json_text (preview_of 200 text),
                                olr_elapsed_ms = oe_elapsed o_env, olr_output = json_text out\<rparr>, f1))))"

subsection \<open>Registration (doc.go)\<close>

text \<open>A handler as the registry holds it, in one environment and on one file system.\<close>

definition as_worker ::
  "(bytes option \<Rightarrow> 'p) \<Rightarrow> ('p \<Rightarrow> (string + 'r) \<times> fs) \<Rightarrow> ('r \<Rightarrow> bytes) \<Rightarrow> worker_func" where
  "as_worker dec handler enc =
     (\<lambda>_ payload. case fst (handler (dec payload)) of Inl msg \<Rightarrow> HError msg | Inr r \<Rightarrow> HReturn (Some (enc r)))"

definition RegisterDefaults ::
  "worker_func \<Rightarrow> worker_func \<Rightarrow> worker_func \<Rightarrow> worker_func \<Rightarrow> registry \<Rightarrow> registry option" where
  "RegisterDefaults http_fetch file_write file_read ollama_chat r =
     Option.bind (Register ''go_http_fetch'' (Some http_fetch) r) (\<lambda>r.
     Option.bind (Register ''go_file_write'' (Some file_write) r) (\<lambda>r.
     Option.bind (Register ''go_file_read'' (Some file_read) r) (\<lambda>r.
     Register ''go_ollama_chat'' (Some ollama_chat) r)))"

lemma RegisterDefaults_types:
  "RegisterDefaults a b c d NewRegistry = Some r \<Longrightarrow>
     TaskTypes r = [''go_file_read'', ''go_file_write'', ''go_http_fetch'', ''go_ollama_chat''] \<and>
     Lookup ''go_http_fetch'' r = Some a \<and> Lookup ''go_file_write'' r = Some b \<and>
     Lookup ''go_file_read'' r = Some c \<and> Lookup ''go_ollama_chat'' r = Some d"
  by (auto simp: RegisterDefaults_def Register_def NewRegistry_def TaskTypes_def Lookup_def)

subsection \<open>Where the handlers write\<close>

definition out_dir :: "fs \<Rightarrow> location" where
  "out_dir f = clean_names True [] (components (fs_cwd f)) @ [''examples'', ''output'']"

lemma outputDir_join: "outputDir = slash_join [''examples'', ''output'']"
  by (simp add: outputDir_def Join_def Clean_def IsAbs_def components_def)

lemma output_names: "list_all stays [''examples'', ''output'']" "slashless [''examples'', ''output'']"
  "''..'' \<notin> set [''examples'', ''output'']"
  by (simp_all add: stays_def slashless_def)

text \<open>A path joined to the output directory from a name without dot-dot leads below it.\<close>

lemma locate_output:
  assumes "''..'' \<notin> set (components name)"
  shows "locate f (Join [outputDir, name]) = out_dir f @ filter stays (components name)"
proof -
  let ?ns = "[''examples'', ''output''] @ filter stays (components name)"
  have "Join [outputDir, name] = slash_join ?ns"
    unfolding outputDir_join by (rule Join_below [OF output_names(1,2) _ output_names(3) assms]) simp
  moreover have "list_all stays ?ns" "slashless ?ns" "''..'' \<notin> set ?ns"
    using output_names slashless_components [of name] assms by (auto simp: list_all_iff slashless_def)
  ultimately show ?thesis using locate_below [of ?ns f] by (simp add: out_dir_def)
qed

lemma locate_outputDir: "locate f outputDir = out_dir f"
  unfolding outputDir_join out_dir_def by (rule locate_below [OF output_names(1,2) _ output_names(3)]) simp

lemma out_dir_cwd: "fs_cwd f' = fs_cwd f \<Longrightarrow> out_dir f' = out_dir f"
  by (simp add: out_dir_def)

text \<open>The names of the output files are single names.\<close>

lemma show_nat_chars: "c \<in> set (show_nat n) \<Longrightarrow> \<exists>k < 10. c = char_of (48 + k :: nat)"
proof (induction n rule: show_nat.induct)
  case (1 n)
  then show ?case by (subst (asm) (2) show_nat.simps) (auto split: if_splits intro: exI [of _ "n mod 10"])
qed

lemma show_int_no_slash: "CHR ''/'' \<notin> set (show_int n)"
proof -
  have "CHR ''/'' \<notin> set (show_nat m)" for m
  proof
    assume "CHR ''/'' \<in> set (show_nat m)"
    then obtain k :: nat where "k < 10" "CHR ''/'' = char_of (48 + k)" using show_nat_chars by blast
    then have "of_char (CHR ''/'') = (48 + k) mod 256" by (metis of_char_of)
    with \<open>k < 10\<close> show False by simp
  qed
  then show ?thesis by (simp add: show_int_def)
qed

lemma one_name:
  "CHR ''/'' \<notin> set n \<Longrightarrow> CHR ''/'' \<notin> set a \<Longrightarrow> CHR ''/'' \<notin> set b \<Longrightarrow> components (a @ n @ b) = [a @ n @ b]"
  by (simp add: components_def split_at_id)

text \<open>A case distinction on a call's answer that passes its file system on.\<close>

lemma snd_cases [simp]:
  "snd (case w of (Inl m, g) \<Rightarrow> (A m, g) | (Inr x, g) \<Rightarrow> (B x, g)) = snd w"
  "snd (case v of (Some m, g) \<Rightarrow> (A m, g) | (None, g) \<Rightarrow> (C, g)) = snd v"
  by (cases w; cases "fst w"; simp) (cases v; cases "fst v"; simp)

lemma output_frame:
  assumes "\<not> prefix (out_dir f) l" and "''..'' \<notin> set (components name)"
  shows "fs_files (snd (WriteFile e (Join [outputDir, name]) b f)) l = fs_files f l"
  using assms by (intro WriteFile_frame) (auto simp: locate_output)

lemma writeOutput_frame:
  assumes "\<not> prefix (out_dir f) l" and "''..'' \<notin> set (components name)"
  shows "fs_files (snd (writeOutputText e name txt f)) l = fs_files f l"
    and "fs_files (snd (writeOutputJSON e marshal name v f)) l = fs_files f l"
proof -
  have w: "fs_files (snd (WriteFile e (Join [outputDir, name]) b f1)) l = fs_files f l"
    if "MkdirAll e ''mkdir output'' outputDir f = Inr f1" for b f1
    using MkdirAll_frame [OF that] output_frame [of f1 l name e b] assms out_dir_cwd [of f1 f] by simp
  then show "fs_files (snd (writeOutputText e name txt f)) l = fs_files f l"
    by (simp add: writeOutputText_def Let_def split: sum.split)
  show "fs_files (snd (writeOutputJSON e marshal name v f)) l = fs_files f l"
  proof (cases "MkdirAll e ''mkdir output'' outputDir f")
    case (Inr f1)
    then have "fs_files f1 = fs_files f" using MkdirAll_frame [OF Inr] by simp
    then show ?thesis using w [OF Inr] by (cases "marshal v") (simp_all add: writeOutputJSON_def Inr Let_def)
  qed (simp add: writeOutputJSON_def)
qed

lemma log_names:
  "''..'' \<notin> set (components (''go_file_read_'' @ show_int n @ ''.txt''))"
  "''..'' \<notin> set (components (''go_http_fetch_'' @ show_int n @ ''.json''))"
  "''..'' \<notin> set (components (''go_ollama_'' @ show_int n @ ''.txt''))"
  using one_name [OF show_int_no_slash, of "''go_file_read_''" "''.txt''" n]
    one_name [OF show_int_no_slash, of "''go_http_fetch_''" "''.json''" n]
    one_name [OF show_int_no_slash, of "''go_ollama_''" "''.txt''" n] by simp_all

lemma FileWrite_frame:
  assumes "\<not> prefix (out_dir f) l"
  shows "fs_files (snd (FileWrite e payload f)) l = fs_files f l"
proof (cases payload)
  case (Inr p)
  let ?out = "Join [outputDir, fwp_filename p]"
  show ?thesis
  proof (cases "fwp_filename p = [] \<or> Contains (fwp_filename p) ''..'' \<or> IsAbs (fwp_filename p)")
    case False
    then have "''..'' \<notin> set (components (fwp_filename p))" using dots_contained by blast
    from locate_output [OF this] have l: "l \<noteq> locate g ?out" if "fs_cwd g = fs_cwd f" for g
      using assms out_dir_cwd [OF that] by auto
    have step: "fs_files (snd (write_end e ''write'' ?out b f2)) l = fs_files f l"
      if "MkdirAll e ''mkdir'' (Dir ?out) f = Inr f1" "open_write e ''open'' (fwp_append p) ?out f1 = Inr f2" for b f1 f2
      using MkdirAll_frame [OF that(1)] open_write_frame [OF that(2)] l [of f2] l [of f1]
      by (simp add: write_end_frame(2))
    have "fs_files f1 l = fs_files f l" if "MkdirAll e ''mkdir'' (Dir ?out) f = Inr f1" for f1
      using MkdirAll_frame [OF that] by simp
    then show ?thesis using False Inr step by (simp add: FileWrite_def Let_def split: sum.split)
  qed (auto simp: FileWrite_def Inr)
qed (simp add: FileWrite_def)

text \<open>C30: The handlers write nowhere but below examples/output: whatever their payloads say, whichever file calls
  fail and whatever the network gives, no regular file outside that directory is created or changed, by any
  of the four; a file name cannot lead out of it.\<close>

theorem handlers_contained:
  assumes "\<not> prefix (out_dir f) l"
  shows "fs_files (snd (FileWrite e wp f)) l = fs_files f l \<and> fs_files (snd (FileRead e rp f)) l = fs_files f l \<and>
    fs_files (snd (HTTPFetch h hp f)) l = fs_files f l \<and> fs_files (snd (OllamaChat o_env op f)) l = fs_files f l"
proof -
  note w = writeOutput_frame [OF assms log_names(1)] writeOutput_frame [OF assms log_names(2)]
    writeOutput_frame [OF assms log_names(3)]
  have "fs_files (snd (FileRead e rp f)) l = fs_files f l"
    using w(1) by (simp add: FileRead_def Let_def split: sum.split)
  moreover have "fs_files (snd (HTTPFetch h hp f)) l = fs_files f l"
    using w(4) [where marshal = "he_marshal h"]
    by (simp add: HTTPFetch_def Let_def split: sum.split option.split)
  moreover have "fs_files (snd (OllamaChat o_env op f)) l = fs_files f l"
    using w(5) by (simp add: OllamaChat_def Let_def split: sum.split prod.split)
  ultimately show ?thesis using FileWrite_frame [OF assms] by blast
qed

text \<open>An example: a file system with an empty working directory, calls that do not fail, a file to write.\<close>

definition demo_fs :: fs where
  "demo_fs = \<lparr>fs_cwd = ''/srv'', fs_files = (\<lambda>_. None), fs_dirs = (\<lambda>l. l = [] \<or> l = [''srv''])\<rparr>"

definition demo_files_env :: file_env where
  "demo_files_env = \<lparr>fe_fault = (\<lambda>_. False), fe_error = (\<lambda>_. []), fe_short = 0, fe_stamp = ''now'', fe_nano = 7\<rparr>"

definition demo_write :: file_write_payload where
  "demo_write = \<lparr>fwp_filename = ''notes/a.txt'', fwp_content = ''hello'', fwp_append = False\<rparr>"

lemma handlers_contained_witness:
  "fs_files (snd (FileWrite demo_files_env (Inr demo_write) demo_fs)) [''srv'', ''secret''] = None \<and>
   fs_files (snd (FileWrite demo_files_env (Inr demo_write) demo_fs)) [''srv'', ''examples'', ''output'', ''notes'', ''a.txt''] = Some ''hello''"
proof -
  have "\<not> prefix (out_dir demo_fs) [''srv'', ''secret'']" "fs_files demo_fs [''srv'', ''secret''] = None"
    "fs_files (snd (FileWrite demo_files_env (Inr demo_write) demo_fs)) [''srv'', ''examples'', ''output'', ''notes'', ''a.txt''] = Some ''hello''"
    by code_simp+
  with handlers_contained [of demo_fs "[''srv'', ''secret'']" demo_files_env "Inr demo_write"] show ?thesis by simp
qed

subsection \<open>What is written can be read\<close>

lemma write_end_ok:
  "write_end e call p b f = (Inr n, f') \<Longrightarrow> n = length b \<and> fs_cwd f' = fs_cwd f \<and>
     fs_files f' (locate f p) = Some ((case fs_files f (locate f p) of Some old \<Rightarrow> old | None \<Rightarrow> []) @ b)"
  by (auto simp: write_end_def Let_def split: if_splits)

lemma FileWrite_ok:
  assumes "FileWrite e (Inr p) f = (Inr w, f')" and "\<not> fwp_append p"
  shows "fwr_path w = json_text (Join [outputDir, fwp_filename p]) \<and> fwr_bytes w = length (fwp_content p) \<and>
    fwr_mode w = ''write'' \<and> fs_files f' (locate f' (Join [outputDir, fwp_filename p])) = Some (fwp_content p) \<and>
    ''..'' \<notin> set (components (fwp_filename p)) \<and> fs_cwd f' = fs_cwd f"
proof -
  let ?out = "Join [outputDir, fwp_filename p]"
  have ok: "\<not> Contains (fwp_filename p) ''..''"
    using assms(1) by (auto simp: FileWrite_def split: if_splits)
  obtain f1 f2 n where run: "MkdirAll e ''mkdir'' (Dir ?out) f = Inr f1" "open_write e ''open'' False ?out f1 = Inr f2"
    "write_end e ''write'' ?out (fwp_content p) f2 = (Inr n, f')"
    "w = \<lparr>fwr_path = json_text ?out, fwr_bytes = n, fwr_mode = ''write''\<rparr>"
    using assms by (auto simp: FileWrite_def Let_def split: if_splits sum.splits prod.splits)
  note o = open_write_frame [OF run(2)] and m = MkdirAll_frame [OF run(1)] and e = write_end_ok [OF run(3)]
  have "locate f2 ?out = locate f1 ?out" "locate f' ?out = locate f2 ?out"
    using locate_cwd [of f2 f1] locate_cwd [of f' f2] o e by simp_all
  then show ?thesis using run(4) o m e ok dots_contained by auto
qed

lemma WriteFile_succeeds:
  assumes "fe_fault e = (\<lambda>_. False)" and "\<not> fs_dirs f (locate f p)" and "fs_dirs f (butlast (locate f p))"
  shows "\<exists>f'. WriteFile e p b f = (None, f')"
  using assms by (simp add: WriteFile_def open_write_def write_end_def Let_def)

lemma writeOutputText_succeeds:
  assumes "fe_fault e = (\<lambda>_. False)" and "\<not> blocked f (out_dir f)" and "components name = [name]" and "stays name"
    and "name \<noteq> ''..''" and "\<not> fs_dirs f (out_dir f @ [name])"
  shows "\<exists>out f'. writeOutputText e name txt f = (Inr out, f')"
proof -
  define f1 where "f1 = f\<lparr>fs_dirs := (\<lambda>x. fs_dirs f x \<or> prefix x (out_dir f))\<rparr>"
  have mk: "MkdirAll e ''mkdir output'' outputDir f = Inr f1"
    using assms(1,2) by (simp add: MkdirAll_def Let_def locate_outputDir f1_def)
  have "''..'' \<notin> set (components name)" using assms(3,5) by auto
  from locate_output [OF this, of f1] have l: "locate f1 (Join [outputDir, name]) = out_dir f @ [name]"
    using assms(3,4) out_dir_cwd [of f1 f] by (simp add: f1_def)
  have "\<not> fs_dirs f1 (out_dir f @ [name])" "fs_dirs f1 (out_dir f)"
    using assms(6) by (simp_all add: f1_def)
  then have "\<exists>f'. WriteFile e (Join [outputDir, name]) txt f1 = (None, f')"
    by (intro WriteFile_succeeds [OF assms(1)]) (simp_all add: l)
  then show ?thesis using mk by (auto simp: writeOutputText_def Let_def)
qed

definition log_name :: "file_env \<Rightarrow> string" where
  "log_name e = ''go_file_read_'' @ show_int (fe_nano e) @ ''.txt''"

lemma log_name: "components (log_name e) = [log_name e]" "stays (log_name e)" "log_name e \<noteq> ''..''"
  using one_name [OF show_int_no_slash, of "''go_file_read_''" "''.txt''" "fe_nano e"]
  by (simp_all add: log_name_def stays_def)

text \<open>C36: What FileWrite has written FileRead reads: on the file system FileWrite leaves, with file calls that do not
  fail and an output directory that can take the log, FileRead of the path FileWrite returned succeeds, and
  says truly whether the content was cut and how long the file is.  What it returns is the content cut at the
  limit of the payload (64 KB when it is not positive), as JSON carries it: content that is valid UTF-8 and
  not longer than the limit comes back as it is, and of longer valid content come its first bytes with at
  most three of them, those of a rune the cut splits, replaced by U+FFFD each.\<close>

theorem write_then_read:
  assumes "FileWrite e (Inr p) f = (Inr w, f1)" and "\<not> fwp_append p" and "valid_text (Join [outputDir, fwp_filename p])"
    and "fe_fault e' = (\<lambda>_. False)" and "\<not> blocked f1 (out_dir f1)" and "\<not> fs_dirs f1 (out_dir f1 @ [log_name e'])"
  shows "\<exists>r f2. FileRead e' (Inr \<lparr>frp_path = fwr_path w, frp_max = m\<rparr>) f1 = (Inr r, f2) \<and>
    frr_content r = json_text (take (read_limit m) (fwp_content p)) \<and>
    (frr_truncated r \<longleftrightarrow> read_limit m < length (fwp_content p)) \<and>
    frr_size r = length (fwp_content p) \<and> fwr_bytes w = length (fwp_content p) \<and>
    (valid_text (fwp_content p) \<and> \<not> frr_truncated r \<longrightarrow> frr_content r = fwp_content p) \<and>
    (valid_text (fwp_content p) \<and> frr_truncated r \<longrightarrow>
       (\<exists>k \<le> 3. frr_content r = take (read_limit m - k) (fwp_content p) @ concat (replicate k replacement)))"
proof -
  note w = FileWrite_ok [OF assms(1,2)]
  have "fwr_path w = slash_join ([''examples'', ''output''] @ filter stays (components (fwp_filename p)))"
    using w Join_below [OF output_names(1,2) _ output_names(3), of "fwp_filename p"] assms(3)
    by (simp add: outputDir_join valid_text_def)
  then have path: "fwr_path w \<noteq> []" by simp
  have real: "fwr_path w = Join [outputDir, fwp_filename p]" using w assms(3) by (simp add: valid_text_def)
  obtain g where g: "g = (if read_limit m < length (fwp_content p) then take (read_limit m) (fwp_content p) else fwp_content p)"
    by blast
  from writeOutputText_succeeds [OF assms(4,5) log_name assms(6),
      of "read_log e' (fwr_path w) (length (fwp_content p)) (read_limit m < length (fwp_content p)) g"] obtain out f2
    where "writeOutputText e' (''go_file_read_'' @ show_int (fe_nano e') @ ''.txt'')
      (read_log e' (fwr_path w) (length (fwp_content p)) (read_limit m < length (fwp_content p)) g) f1 = (Inr out, f2)"
    unfolding log_name_def by blast
  moreover have "Stat e' (fwr_path w) f1 = Inr (length (fwp_content p))" "ReadFile e' (fwr_path w) f1 = Inr (fwp_content p)"
    using w real assms(4) by (simp_all add: Stat_def ReadFile_def)
  moreover have "\<exists>k \<le> 3. json_text (take (read_limit m) (fwp_content p)) =
      take (read_limit m - k) (fwp_content p) @ concat (replicate k replacement)"
    if "valid_text (fwp_content p)" "read_limit m < length (fwp_content p)"
    using cut_text [OF that(1), of "read_limit m"] that(2) by auto
  ultimately show ?thesis using path w by (auto simp: FileRead_def Let_def g valid_text_def)
qed

lemma write_then_read_witness:
  "\<exists>w f1 r f2 r3 f3. FileWrite demo_files_env (Inr demo_write) demo_fs = (Inr w, f1) \<and>
     FileRead demo_files_env (Inr \<lparr>frp_path = fwr_path w, frp_max = 4\<rparr>) f1 = (Inr r, f2) \<and> frr_content r = ''hell'' \<and>
     FileRead demo_files_env (Inr \<lparr>frp_path = fwr_path w, frp_max = 0\<rparr>) f1 = (Inr r3, f3) \<and> frr_content r3 = ''hello''"
proof -
  obtain q f1 where q: "FileWrite demo_files_env (Inr demo_write) demo_fs = (q, f1)" by fastforce
  have "\<not> isl (fst (FileWrite demo_files_env (Inr demo_write) demo_fs))"
    "\<not> blocked (snd (FileWrite demo_files_env (Inr demo_write) demo_fs)) (out_dir (snd (FileWrite demo_files_env (Inr demo_write) demo_fs)))"
    "\<not> fs_dirs (snd (FileWrite demo_files_env (Inr demo_write) demo_fs)) (out_dir (snd (FileWrite demo_files_env (Inr demo_write) demo_fs)) @ [log_name demo_files_env])"
    "valid_text (Join [outputDir, fwp_filename demo_write])"
    by code_simp+
  then obtain w where "q = Inr w" and ok: "\<not> blocked f1 (out_dir f1)" "\<not> fs_dirs f1 (out_dir f1 @ [log_name demo_files_env])"
    and path: "valid_text (Join [outputDir, fwp_filename demo_write])"
    by (cases q) (simp_all add: q)
  with q have run: "FileWrite demo_files_env (Inr demo_write) demo_fs = (Inr w, f1)" by simp
  have "\<not> fwp_append demo_write" "fe_fault demo_files_env = (\<lambda>_. False)"
    "json_text (take (read_limit 4) (fwp_content demo_write)) = ''hell''"
    "json_text (take (read_limit 0) (fwp_content demo_write)) = ''hello''"
    by (simp_all add: demo_write_def demo_files_env_def read_limit_def byte_in_def)
  with write_then_read [OF run _ path _ ok, of 4] write_then_read [OF run _ path _ ok, of 0] run show ?thesis
    by (metis (no_types, lifting))
qed

text \<open>A cut inside a rune: one byte of the two of an e with an acute accent comes back as U+FFFD.\<close>

lemma split_rune_replaced:
  "json_text (take 1 [CHR 0xC3, CHR 0xA9]) = replacement \<and> valid_text [CHR 0xC3, CHR 0xA9]"
  by code_simp

text \<open>The name of a dot writes a file in place of the output directory, where no output can be written any more.\<close>

lemma dot_blocks_output:
  assumes "FileWrite e (Inr \<lparr>fwp_filename = ''.'', fwp_content = c, fwp_append = False\<rparr>) f = (Inr w, f')"
  shows "\<exists>msg. writeOutputText e' name txt f' = (Inl msg, f')"
proof -
  have c: "components ''.'' = [''.'']" by (simp add: components_def)
  note w = FileWrite_ok [OF assms]
  have "fs_files f' (out_dir f') = Some c"
    using w locate_output [of "''.''" f'] by (simp add: c stays_def)
  then have "blocked f' (out_dir f')"
    unfolding blocked_def list_ex_iff by (intro bexI [of _ "length (out_dir f')"]) simp_all
  then show ?thesis by (simp add: writeOutputText_def MkdirAll_def Let_def locate_outputDir)
qed

end
