(* ===== verification/ETQ_Submit.thy ===== *)
theory ETQ_Submit
  imports ETQ_API
begin

section \<open>The example client (examples/go/submit/main.go)\<close>

text \<open>
  A program that submits four tasks over the API, then polls each of them until it is in a terminal
  state or three minutes have passed.  The exchange of a request for a response is an argument, with
  a number for each exchange, so that it can fail, be disturbed, or never return (\<open>None\<close>: http.Get and
  http.Post are called without a timeout); the composition with the server's own handlers is
  \<open>api_transport\<close>.  A response is the API's body; \<open>reply_object\<close> is what encoding and
  decoding it as a \<open>map[string]any\<close> gives the client.
\<close>

subsection \<open>Responses as the client decodes them\<close>

datatype json =
  JsNull
| JsNum int
| JsText string
| JsRaw bytes
| JsList "json list"
| JsObj "(string \<times> json) list"

definition js_opt :: "('a \<Rightarrow> json) \<Rightarrow> 'a option \<Rightarrow> json" where
  "js_opt f x = (case x of None \<Rightarrow> JsNull | Some v \<Rightarrow> f v)"

text \<open>The structs have no tags: the members have the names of the fields.  \<open>ts\<close> writes a time.\<close>

definition task_members :: "(gotime \<Rightarrow> string) \<Rightarrow> task \<Rightarrow> (string \<times> json) list" where
  "task_members ts t =
     [(''ID'', JsText (t_id t)), (''Type'', JsText (t_type t)), (''Queue'', JsText (t_queue t)),
      (''Payload'', js_opt JsRaw (t_payload t)), (''Status'', JsText (task_status_str (t_status t))),
      (''Priority'', JsNum (t_priority t)), (''RetryCount'', JsNum (t_retry_count t)),
      (''MaxRetries'', JsNum (t_max_retries t)), (''TimeoutSecs'', js_opt JsNum (t_timeout_secs t)),
      (''RunAt'', JsText (ts (t_run_at t))), (''ParentID'', js_opt JsText (t_parent_id t)),
      (''ScheduleID'', js_opt JsText (t_schedule_id t)), (''CreatedAt'', JsText (ts (t_created_at t))),
      (''UpdatedAt'', JsText (ts (t_updated_at t)))]"

fun attempt_status_text :: "attempt_status \<Rightarrow> string" where
  "attempt_status_text ARunning = ''running''"
| "attempt_status_text ASucceeded = ''succeeded''"
| "attempt_status_text AFailed = ''failed''"
| "attempt_status_text ACancelled = ''cancelled''"

definition attempt_members :: "(gotime \<Rightarrow> string) \<Rightarrow> attempt \<Rightarrow> (string \<times> json) list" where
  "attempt_members ts a =
     [(''ID'', JsText (a_id a)), (''TaskID'', JsText (a_task_id a)), (''AttemptNum'', JsNum (a_num a)),
      (''WorkerID'', js_opt JsText (a_worker_id a)), (''Status'', JsText (attempt_status_text (a_status a))),
      (''Result'', js_opt JsRaw (a_result a)), (''Error'', js_opt JsText (a_error a)),
      (''StartedAt'', js_opt (\<lambda>x. JsText (ts x)) (a_started_at a)),
      (''FinishedAt'', js_opt (\<lambda>x. JsText (ts x)) (a_finished_at a)),
      (''HeartbeatAt'', js_opt (\<lambda>x. JsText (ts x)) (a_heartbeat_at a))]"

fun detail_value :: "jval \<Rightarrow> json" where
  "detail_value (JStr s) = JsText s"
| "detail_value (JInt n) = JsNum n"

definition event_members :: "(gotime \<Rightarrow> string) \<Rightarrow> task_event \<Rightarrow> (string \<times> json) list" where
  "event_members ts e =
     [(''ID'', JsText (ev_id e)), (''TaskID'', JsText (ev_task_id e)),
      (''Event'', JsText (event_type_str (ev_event e))),
      (''Detail'', js_opt (\<lambda>d. JsObj (map (\<lambda>(k, v). (k, detail_value v)) d)) (ev_detail e)),
      (''CreatedAt'', JsText (ts (ev_created_at e)))]"

definition js_slice :: "('a \<Rightarrow> json) \<Rightarrow> 'a list \<Rightarrow> json" where
  "js_slice f xs = (if xs = [] then JsNull else JsList (map f xs))"

text \<open>The object in the response to the two routes the client uses; the other bodies do not answer them.\<close>

definition reply_object :: "(gotime \<Rightarrow> string) \<Rightarrow> body \<Rightarrow> (string \<times> json) list option" where
  "reply_object ts b =
     (case b of
        TaskJSON t \<Rightarrow> Some (task_members ts t)
      | TaskDetail t as es \<Rightarrow>
          Some [(''attempts'', js_slice (\<lambda>a. JsObj (attempt_members ts a)) as),
                (''events'', js_slice (\<lambda>e. JsObj (event_members ts e)) es),
                (''task'', JsObj (task_members ts t))]
      | _ \<Rightarrow> None)"

text \<open>\<open>obj[key].(string)\<close> with its second value ignored: empty when there is no such string.\<close>

definition text_member :: "string \<Rightarrow> (string \<times> json) list \<Rightarrow> string" where
  "text_member key obj = (case map_of obj key of Some (JsText s) \<Rightarrow> s | _ \<Rightarrow> [])"

subsection \<open>Requests\<close>

datatype client_error =
  NoResponse string string
| BadStatus string int body
| BadBody
| EmptyID

type_synonym 'd transport = "nat \<Rightarrow> request \<Rightarrow> 'd \<Rightarrow> (string + response) option \<times> 'd"

definition decode_reply :: "(gotime \<Rightarrow> string) \<Rightarrow> string \<Rightarrow> string + response \<Rightarrow> client_error + (string \<times> json) list" where
  "decode_reply ts meth r =
     (case r of
        Inl msg \<Rightarrow> Inl (NoResponse meth msg)
      | Inr (status, b) \<Rightarrow>
          if status \<ge> 400 then Inl (BadStatus meth status b)
          else (case reply_object ts b of None \<Rightarrow> Inl BadBody | Some obj \<Rightarrow> Inr obj))"

definition postJSON ::
  "'d transport \<Rightarrow> (gotime \<Rightarrow> string) \<Rightarrow> nat \<Rightarrow> request \<Rightarrow> 'd \<Rightarrow> (client_error + (string \<times> json) list) option \<times> 'd" where
  "postJSON tr ts k rq d = (case tr k rq d of (r, d') \<Rightarrow> (map_option (decode_reply ts ''POST'') r, d'))"

definition getJSON ::
  "'d transport \<Rightarrow> (gotime \<Rightarrow> string) \<Rightarrow> nat \<Rightarrow> request \<Rightarrow> 'd \<Rightarrow> (client_error + (string \<times> json) list) option \<times> 'd" where
  "getJSON tr ts k rq d = (case tr k rq d of (r, d') \<Rightarrow> (map_option (decode_reply ts ''GET'') r, d'))"

definition submitTask ::
  "'d transport \<Rightarrow> (gotime \<Rightarrow> string) \<Rightarrow> nat \<Rightarrow> string \<Rightarrow> bytes \<Rightarrow> 'd \<Rightarrow> (client_error + string) option \<times> 'd" where
  "submitTask tr ts k ty payload d =
     (case postJSON tr ts k (PostTasks (Inr \<lparr>ctr_type = ty, ctr_queue = [], ctr_payload = Some payload,
             ctr_priority = 0, ctr_max_retries = 0, ctr_timeout_secs = None, ctr_run_at = None\<rparr>)) d of
        (None, d') \<Rightarrow> (None, d')
      | (Some (Inl e), d') \<Rightarrow> (Some (Inl e), d')
      | (Some (Inr obj), d') \<Rightarrow>
          (Some (if text_member ''ID'' obj = [] then Inl EmptyID else Inr (text_member ''ID'' obj)), d'))"

definition getTask ::
  "'d transport \<Rightarrow> (gotime \<Rightarrow> string) \<Rightarrow> nat \<Rightarrow> string \<Rightarrow> 'd \<Rightarrow> (client_error + (string \<times> json) list) option \<times> 'd" where
  "getTask tr ts k i d = getJSON tr ts k (GetTaskById i) d"

definition isTerminal :: "string \<Rightarrow> bool" where
  "isTerminal s \<longleftrightarrow> s = ''succeeded'' \<or> s = ''dead'' \<or> s = ''cancelled''"

subsection \<open>The run\<close>

text \<open>The four tasks; \<open>stamp\<close> is the time in the content to write.\<close>

definition exampleTasks :: "string \<Rightarrow> (string \<times> bytes) list" where
  "exampleTasks stamp =
     [(''go_http_fetch'', ''{\"timeout_secs\":10,\"url\":\"https://httpbin.org/json\"}''),
      (''go_file_write'', ''{\"content\":\"Written by ErmineTQ example at '' @ stamp @ [CHR 0x5C] @
         ''n\",\"filename\":\"go_example_write.txt\"}''),
      (''go_file_read'', ''{\"path\":\"examples/output/go_example_write.txt\"}''),
      (''go_ollama_chat'', ''{\"model\":\"qwen2.5:3b-instruct\",\"prompt\":\"What'' @ [CHR 0x27] @
         ''s the weather like in Shanghai today? (Answer briefly)\"}'')]"

datatype run_error = SubmitFailed string client_error | TimedOut

text \<open>\<open>None\<close> here and below: an exchange has not returned.\<close>

fun submit_all ::
  "'d transport \<Rightarrow> (gotime \<Rightarrow> string) \<Rightarrow> nat \<Rightarrow> (string \<times> bytes) list \<Rightarrow> 'd \<Rightarrow>
     (run_error + string list) option \<times> 'd" where
  "submit_all tr ts k [] d = (Some (Inr []), d)"
| "submit_all tr ts k ((ty, payload) # xs) d =
     (case submitTask tr ts k ty payload d of
        (None, d1) \<Rightarrow> (None, d1)
      | (Some (Inl e), d1) \<Rightarrow> (Some (Inl (SubmitFailed ty e)), d1)
      | (Some (Inr i), d1) \<Rightarrow>
          (case submit_all tr ts (k + 1) xs d1 of
             (None, d2) \<Rightarrow> (None, d2)
           | (Some (Inl e), d2) \<Rightarrow> (Some (Inl e), d2)
           | (Some (Inr is), d2) \<Rightarrow> (Some (Inr (i # is)), d2)))"

text \<open>One round over the tasks; the results are kept by task ID.  A poll that fails is passed over.\<close>

type_synonym results = "(string \<times> (string \<times> json) list) list"

fun poll_round ::
  "'d transport \<Rightarrow> (gotime \<Rightarrow> string) \<Rightarrow> nat \<Rightarrow> string list \<Rightarrow> results \<Rightarrow> 'd \<Rightarrow> results option \<times> 'd" where
  "poll_round tr ts k [] res d = (Some res, d)"
| "poll_round tr ts k (i # is) res d =
     (if i \<in> fst ` set res then poll_round tr ts (k + 1) is res d
      else case getTask tr ts k i d of
        (None, d1) \<Rightarrow> (None, d1)
      | (Some (Inl e), d1) \<Rightarrow> poll_round tr ts (k + 1) is res d1
      | (Some (Inr obj), d1) \<Rightarrow>
          poll_round tr ts (k + 1) is
            (if isTerminal (text_member ''Status'' obj) then (i, obj) # res else res) d1)"

text \<open>
  The loop, on the times its rounds read from the clock: it has returned, it is still polling when they
  are used up, or it waits for an exchange that does not return.
\<close>

datatype 'r progress = Finished 'r | Polling | Blocked

fun poll_until ::
  "'d transport \<Rightarrow> (gotime \<Rightarrow> string) \<Rightarrow> nat \<Rightarrow> gotime \<Rightarrow> gotime list \<Rightarrow> string list \<Rightarrow> results \<Rightarrow> 'd \<Rightarrow>
     (run_error + results) progress \<times> 'd" where
  "poll_until tr ts k deadline nows is res d =
     (if length is \<le> length res then (Finished (Inr res), d)
      else case nows of
        [] \<Rightarrow> (Polling, d)
      | now # rest \<Rightarrow>
          if deadline < now then (Finished (Inl TimedOut), d)
          else (case poll_round tr ts k is res d of
                  (None, d') \<Rightarrow> (Blocked, d')
                | (Some res', d') \<Rightarrow> poll_until tr ts (k + length is) deadline rest is res' d'))"

declare poll_until.simps [simp del]

definition run_submit ::
  "'d transport \<Rightarrow> (gotime \<Rightarrow> string) \<Rightarrow> string \<Rightarrow> gotime \<Rightarrow> gotime list \<Rightarrow> 'd \<Rightarrow> (run_error + results) progress \<times> 'd" where
  "run_submit tr ts stamp start nows d =
     (case submit_all tr ts 0 (exampleTasks stamp) d of
        (None, d1) \<Rightarrow> (Blocked, d1)
      | (Some (Inl e), d1) \<Rightarrow> (Finished (Inl e), d1)
      | (Some (Inr is), d1) \<Rightarrow> poll_until tr ts 4 (start + 180 * 1000000000) nows is [] d1)"

text \<open>The server's handlers behind a network that may lose a request or a response.\<close>

datatype delivery = Delivered | RequestLost string | ResponseLost string

definition api_transport :: "config \<Rightarrow> (nat \<Rightarrow> db api_env) \<Rightarrow> (nat \<Rightarrow> delivery) \<Rightarrow> db transport" where
  "api_transport cfg q net k rq d =
     (case net k of
        RequestLost msg \<Rightarrow> (Some (Inl msg), d)
      | ResponseLost msg \<Rightarrow> (Some (Inl msg), snd (serve api_ops cfg (q k) rq d))
      | Delivered \<Rightarrow> (Some (Inr (fst (serve api_ops cfg (q k) rq d))), snd (serve api_ops cfg (q k) rq d)))"

subsection \<open>The loop ends\<close>

text \<open>When every exchange returns, so do the submissions, every round, and the loop once the clock has passed the deadline.\<close>

definition answers :: "'d transport \<Rightarrow> bool" where
  "answers tr \<longleftrightarrow> (\<forall>k rq d. fst (tr k rq d) \<noteq> None)"

lemma answers_some:
  assumes "answers tr"
  obtains r d' where "tr k rq d = (Some r, d')"
  using assms by (cases "tr k rq d") (auto simp: answers_def, metis fst_conv option.distinct(1))

lemma answers_calls:
  assumes "answers tr"
  shows "\<exists>r d'. submitTask tr ts k ty payload d = (Some r, d')" and "\<exists>r d'. getTask tr ts k i d = (Some r, d')"
proof -
  show "\<exists>r d'. getTask tr ts k i d = (Some r, d')"
    by (rule answers_some [OF assms, of k "GetTaskById i" d]) (simp add: getTask_def getJSON_def)
  have "\<exists>r d'. postJSON tr ts k rq d = (Some r, d')" for rq
    by (rule answers_some [OF assms, of k rq d]) (simp add: postJSON_def)
  then show "\<exists>r d'. submitTask tr ts k ty payload d = (Some r, d')"
    by (simp add: submitTask_def split: prod.split option.split sum.split) (metis option.distinct(1) prod.inject)
qed

lemma answers_submit: "answers tr \<Longrightarrow> \<exists>r d'. submit_all tr ts k xs d = (Some r, d')"
proof (induction xs arbitrary: k d)
  case (Cons x xs)
  obtain ty payload where x: "x = (ty, payload)" by (cases x)
  obtain r d1 where r: "submitTask tr ts k ty payload d = (Some r, d1)"
    using answers_calls(1) [OF Cons.prems] by blast
  obtain r2 d2 where "submit_all tr ts (k + 1) xs d1 = (Some r2, d2)" using Cons.IH [OF Cons.prems] by blast
  with r show ?case by (cases r; cases r2) (simp_all add: x)
qed simp

lemma answers_round: "answers tr \<Longrightarrow> \<exists>r d'. poll_round tr ts k is res d = (Some r, d')"
proof (induction "is" arbitrary: k res d)
  case (Cons i "is")
  obtain r d1 where r: "getTask tr ts k i d = (Some r, d1)" using answers_calls(2) [OF Cons.prems] by blast
  then show ?case using Cons.IH [OF Cons.prems] by (cases r) simp_all
qed simp

lemma poll_until_ends:
  "answers tr \<Longrightarrow> \<exists>now \<in> set nows. deadline < now \<Longrightarrow> \<exists>r. fst (poll_until tr ts k deadline nows is res d) = Finished r"
proof (induction nows arbitrary: k res d)
  case (Cons now nows)
  show ?case
  proof (cases "length is \<le> length res \<or> deadline < now")
    case False
    with Cons.prems have later: "\<exists>now \<in> set nows. deadline < now" by auto
    obtain res' d' where "poll_round tr ts k is res d = (Some res', d')"
      using answers_round [OF Cons.prems(1)] by blast
    with Cons.IH [OF Cons.prems(1) later] False show ?thesis by (subst poll_until.simps) simp
  qed (auto simp: poll_until.simps)
qed simp

text \<open>And an exchange that does not return holds the client up whatever the clock says: the deadline is looked at
  between the rounds only.\<close>

lemma blocked_exchange_hangs:
  "fst (tr 0 rq d) = None \<Longrightarrow> (\<And>rq'. tr 0 rq' d = tr 0 rq d) \<Longrightarrow> fst (run_submit tr ts stamp start nows d) = Blocked"
  by (cases "tr 0 rq d")
    (simp add: run_submit_def exampleTasks_def submitTask_def postJSON_def)

text \<open>Rounds a second apart pass the deadline within 181 of them.\<close>

lemma seconds_apart:
  assumes "\<And>i. i + 1 < length nows \<Longrightarrow> nows ! i + 1000000000 \<le> nows ! (i + 1)" and "nows \<noteq> []" and "start \<le> hd nows"
  shows "i < length nows \<Longrightarrow> start + int i * 1000000000 \<le> nows ! i"
proof (induction i)
  case 0
  then show ?case using assms(2,3) by (simp add: hd_conv_nth)
next
  case (Suc i)
  then show ?case using assms(1) [of i] by simp
qed

subsection \<open>The client never sees a task finish\<close>

lemma getTask_never_terminal:
  assumes "getTask (api_transport cfg q net) ts k i d = (Some (Inr obj), d')"
  shows "text_member ''Status'' obj = []"
proof -
  have "\<exists>t as es. obj = [(''attempts'', as), (''events'', es), (''task'', t)]"
    using assms
    by (auto simp: getTask_def getJSON_def api_transport_def decode_reply_def handleGetTask_def answer_read_def
        writeError_def reply_object_def Let_def split: delivery.splits sum.splits if_splits body.splits option.splits prod.splits)
  then show ?thesis by (auto simp: text_member_def)
qed

lemma api_answers: "answers (api_transport cfg q net)"
  by (simp add: answers_def api_transport_def split: delivery.split)

lemma poll_round_api: "fst (poll_round (api_transport cfg q net) ts k is [] d) = Some []"
proof (induction "is" arbitrary: k d)
  case (Cons i "is")
  obtain r d1 where "getTask (api_transport cfg q net) ts k i d = (Some r, d1)"
    using answers_calls(2) [OF api_answers] by blast
  with Cons show ?case
    by (cases r) (auto simp: isTerminal_def dest: getTask_never_terminal)
qed simp

lemma poll_until_api:
  "is \<noteq> [] \<Longrightarrow> fst (poll_until (api_transport cfg q net) ts k deadline nows is [] d) \<in> {Polling, Finished (Inl TimedOut)}"
proof (induction nows arbitrary: k d)
  case (Cons now nows)
  obtain d' where "poll_round (api_transport cfg q net) ts k is [] d = (Some [], d')"
    using poll_round_api [of cfg q net ts k "is" d] by (metis prod.collapse)
  then show ?case using Cons by (subst poll_until.simps) simp
qed (simp add: poll_until.simps)

subsection \<open>What a run amounts to\<close>

text \<open>The IDs the client goes on with are those of the responses to its submissions, in their order.\<close>

definition got_id :: "'d transport \<Rightarrow> (gotime \<Rightarrow> string) \<Rightarrow> string \<times> bytes \<Rightarrow> string \<Rightarrow> bool" where
  "got_id tr ts x i \<longleftrightarrow> (\<exists>k d d'. submitTask tr ts k (fst x) (snd x) d = (Some (Inr i), d'))"

lemma got_idI: "submitTask tr ts k ty payload d = (Some (Inr i), d') \<Longrightarrow> got_id tr ts (ty, payload) i"
  by (auto simp: got_id_def)

lemma submit_all_ids:
  "submit_all tr ts k xs d = (Some (Inr is), d') \<Longrightarrow> list_all2 (got_id tr ts) xs is"
  by (induction xs arbitrary: k d "is" d') (auto intro: got_idI split: prod.splits option.splits sum.splits)

lemma example_ids: "submit_all tr ts k (exampleTasks stamp) d = (Some (Inr ids), d') \<Longrightarrow> length ids = 4"
  by (drule submit_all_ids, drule list_all2_lengthD) (simp add: exampleTasks_def)

lemma submit_all_errors: "submit_all tr ts k xs d \<noteq> (Some (Inl TimedOut), d')"
  by (induction xs arbitrary: k d d') (auto split: prod.splits option.splits sum.splits)

text \<open>The results kept so far: one for each ID, of the tasks asked about, each the answer to a poll of that ID, in a
  terminal state.\<close>

definition polled :: "'d transport \<Rightarrow> (gotime \<Rightarrow> string) \<Rightarrow> string \<Rightarrow> (string \<times> json) list \<Rightarrow> bool" where
  "polled tr ts i obj \<longleftrightarrow> (\<exists>k d d'. getTask tr ts k i d = (Some (Inr obj), d')) \<and> isTerminal (text_member ''Status'' obj)"

definition results_ok :: "'d transport \<Rightarrow> (gotime \<Rightarrow> string) \<Rightarrow> string list \<Rightarrow> results \<Rightarrow> bool" where
  "results_ok tr ts ids res \<longleftrightarrow> distinct (map fst res) \<and> fst ` set res \<subseteq> set ids \<and>
     list_all (\<lambda>(i, obj). polled tr ts i obj) res"

lemma results_full:
  assumes "results_ok tr ts ids res" and "length ids \<le> length res"
  shows "length res = length ids" and "distinct ids" and "set (map fst res) = set ids"
proof -
  have "length res = card (set (map fst res))"
    using assms(1) by (simp only: distinct_card results_ok_def length_map)
  moreover have sub: "set (map fst res) \<subseteq> set ids" using assms(1) by (auto simp: results_ok_def)
  moreover have "card (set (map fst res)) \<le> card (set ids)" using sub by (intro card_mono) auto
  moreover have "card (set ids) \<le> length ids" by (rule card_length)
  ultimately have eq: "length res = length ids" "card (set ids) = length ids" "card (set (map fst res)) = card (set ids)"
    using assms(2) by linarith+
  show "length res = length ids" "distinct ids" using eq card_distinct by blast+
  show "set (map fst res) = set ids" using card_subset_eq [OF _ sub] eq(3) by simp
qed

lemma poll_round_results:
  "poll_round tr ts k is res d = (Some res', d') \<Longrightarrow> results_ok tr ts ids res \<Longrightarrow> set is \<subseteq> set ids \<Longrightarrow> results_ok tr ts ids res'"
proof (induction "is" arbitrary: k res d)
  case (Cons i "is")
  have "results_ok tr ts ids ((i, obj) # res)"
    if "isTerminal (text_member ''Status'' obj)" "i \<notin> fst ` set res" "getTask tr ts k i d = (Some (Inr obj), d2)" for obj d2
    using Cons.prems(2,3) that by (auto simp: results_ok_def polled_def)
  with Cons show ?case by (auto split: if_splits prod.splits option.splits sum.splits)
qed simp

lemma poll_until_results:
  "fst (poll_until tr ts k deadline nows is res d) = Finished (Inr res') \<Longrightarrow> results_ok tr ts is res \<Longrightarrow>
     results_ok tr ts is res' \<and> length is \<le> length res'"
proof (induction nows arbitrary: k res d)
  case Nil
  then show ?case by (auto simp: poll_until.simps split: if_splits)
next
  case (Cons now nows)
  obtain p d1 where r: "poll_round tr ts k is res d = (p, d1)" by (cases "poll_round tr ts k is res d")
  then have "results_ok tr ts is res1" if "p = Some res1" for res1
    using poll_round_results [OF _ Cons.prems(2)] that by blast
  with Cons r show ?case
    by (subst (asm) (2) poll_until.simps) (auto split: if_splits option.splits)
qed

lemma poll_until_errors:
  "fst (poll_until tr ts k deadline nows is res d) = Finished (Inl e) \<Longrightarrow> e = TimedOut \<and> (\<exists>now \<in> set nows. deadline < now)"
proof (induction nows arbitrary: k res d)
  case Nil
  then show ?case by (auto simp: poll_until.simps split: if_splits)
next
  case (Cons now nows)
  then show ?case
    by (subst (asm) (2) poll_until.simps) (auto split: if_splits option.splits prod.splits)
qed

text \<open>C37: The example client returns if every exchange with the server does, whatever it is answered: with its rounds
  at least a second apart it has returned after 182 of them.  A run that succeeds has submitted the four
  tasks, got four different IDs, and holds for each of these IDs, and for no other, the answer to a poll of
  that ID, with a terminal status; one that fails could not submit a task, or has met its deadline with all
  four submitted.\<close>

theorem submit_terminates:
  assumes "answers tr"
    and "\<And>i. i + 1 < length nows \<Longrightarrow> nows ! i + 1000000000 \<le> nows ! (i + 1)" and "182 \<le> length nows" and "start \<le> hd nows"
  shows "\<exists>r. fst (run_submit tr ts stamp start nows d) = Finished r \<and>
    (case r of
       Inl (SubmitFailed ty e) \<Rightarrow> fst (submit_all tr ts 0 (exampleTasks stamp) d) = Some (Inl (SubmitFailed ty e))
     | Inl TimedOut \<Rightarrow> (\<exists>ids. fst (submit_all tr ts 0 (exampleTasks stamp) d) = Some (Inr ids)) \<and>
         (\<exists>now \<in> set nows. start + 180 * 1000000000 < now)
     | Inr res \<Rightarrow> \<exists>ids. fst (submit_all tr ts 0 (exampleTasks stamp) d) = Some (Inr ids) \<and>
         list_all2 (got_id tr ts) (exampleTasks stamp) ids \<and> distinct ids \<and>
         distinct (map fst res) \<and> set (map fst res) = set ids \<and> length res = 4 \<and>
         list_all (\<lambda>(i, obj). polled tr ts i obj) res)"
proof -
  obtain r1 d1 where sub: "submit_all tr ts 0 (exampleTasks stamp) d = (Some r1, d1)"
    using answers_submit [OF assms(1)] by blast
  show ?thesis
  proof (cases r1)
    case (Inl e)
    with sub submit_all_errors [of tr ts 0 "exampleTasks stamp" d d1] show ?thesis
      by (cases e) (simp_all add: run_submit_def)
  next
    case (Inr ids)
    have ran: "submit_all tr ts 0 (exampleTasks stamp) d = (Some (Inr ids), d1)" using sub Inr by simp
    note ids = submit_all_ids [OF ran] example_ids [OF ran]
    have "start + 181 * 1000000000 \<le> nows ! 181"
      using seconds_apart [OF assms(2) _ assms(4), of 181] assms(3) by (cases nows) auto
    then have late: "\<exists>now \<in> set nows. start + 180 * 1000000000 < now"
      using assms(3) by (intro bexI [of _ "nows ! 181"]) auto
    from poll_until_ends [OF assms(1) this, of ts 4 ids "[]" d1]
    obtain r where r: "fst (poll_until tr ts 4 (start + 180 * 1000000000) nows ids [] d1) = Finished r" by blast
    then have "results_ok tr ts ids res \<and> length ids \<le> length res" if "r = Inr res" for res
      using poll_until_results [of tr ts 4 _ nows ids "[]" d1] that by (simp add: results_ok_def)
    then have "r = Inr res \<Longrightarrow> distinct ids \<and> distinct (map fst res) \<and> set (map fst res) = set ids \<and> length res = 4 \<and>
        list_all (\<lambda>(i, obj). polled tr ts i obj) res" for res
      using results_full ids(2) unfolding results_ok_def by metis
    moreover have "e = TimedOut" if "r = Inl e" for e using poll_until_errors [OF r [unfolded that]] by blast
    ultimately show ?thesis
      using r sub Inr ids(1) late by (intro exI [of _ r]) (auto simp: run_submit_def split: sum.split run_error.split)
  qed
qed

text \<open>A transport that answers every request with a finished task, and a clock that reads every second.\<close>

definition finished_transport :: "nat \<Rightarrow> request \<Rightarrow> nat \<Rightarrow> (string + response) option \<times> nat" where
  "finished_transport k rq n =
     (Some (Inr (200, TaskJSON \<lparr>t_id = (case rq of GetTaskById i \<Rightarrow> i | _ \<Rightarrow> replicate (n + 1) CHR ''x''), t_type = [], t_queue = [],
        t_payload = None, t_status = Succeeded, t_priority = 0, t_retry_count = 0, t_max_retries = 0,
        t_timeout_secs = None, t_run_at = 0, t_parent_id = None, t_schedule_id = None,
        t_created_at = 0, t_updated_at = 0\<rparr>)), n + 1)"

definition every_second :: "gotime list" where
  "every_second = map (\<lambda>i. int i * 1000000000) [0..<182]"

lemma submit_terminates_witness:
  "\<exists>res. fst (run_submit finished_transport (\<lambda>_. []) [] 0 every_second 0) = Finished (Inr res) \<and> length res = 4 \<and>
     set (map fst res) = set (map (\<lambda>n. replicate n CHR ''x'') [1, 2, 3, 4])"
proof -
  have "answers finished_transport" by (simp add: answers_def finished_transport_def)
  then obtain r where r: "fst (run_submit finished_transport (\<lambda>_. []) [] 0 every_second 0) = Finished r"
    "case r of
       Inl (SubmitFailed ty e) \<Rightarrow> fst (submit_all finished_transport (\<lambda>_. []) 0 (exampleTasks []) 0) = Some (Inl (SubmitFailed ty e))
     | Inl TimedOut \<Rightarrow> (\<exists>ids. fst (submit_all finished_transport (\<lambda>_. []) 0 (exampleTasks []) 0) = Some (Inr ids)) \<and>
         (\<exists>now \<in> set every_second. 0 + 180 * 1000000000 < now)
     | Inr res \<Rightarrow> \<exists>ids. fst (submit_all finished_transport (\<lambda>_. []) 0 (exampleTasks []) 0) = Some (Inr ids) \<and>
         list_all2 (got_id finished_transport (\<lambda>_. [])) (exampleTasks []) ids \<and> distinct ids \<and>
         distinct (map fst res) \<and> set (map fst res) = set ids \<and> length res = 4 \<and>
         list_all (\<lambda>(i, obj). polled finished_transport (\<lambda>_. []) i obj) res"
    using submit_terminates [of finished_transport every_second 0 "\<lambda>_. []" "[]" 0]
    by (auto simp: every_second_def hd_map simp del: upt_rec_numeral)
  have ids: "fst (submit_all finished_transport (\<lambda>_. []) 0 (exampleTasks []) 0) =
      Some (Inr (map (\<lambda>n. replicate n CHR ''x'') [1, 2, 3, 4]))" by code_simp
  have "\<not> (case fst (run_submit finished_transport (\<lambda>_. []) [] 0 every_second 0) of Finished (Inl e) \<Rightarrow> True | _ \<Rightarrow> False)"
    by code_simp
  with r(1) obtain res where "r = Inr res" by (cases r) auto
  with r ids show ?thesis by auto
qed

text \<open>C38: Against the server of this repository the example client never succeeds.  The answer to a read of a task
  has the task in a member of its own, beside its attempts and events, and the client looks for its status in the
  object itself, so that no task is ever in a terminal state for it: whatever the workers do to the
  database between the requests, the run ends with an error.\<close>

theorem submit_always_fails:
  assumes "i < length nows" and "start + 180 * 1000000000 < nows ! i"
  shows "\<exists>e. fst (run_submit (api_transport cfg q net) ts stamp start nows d) = Finished (Inl e)"
proof -
  let ?tr = "api_transport cfg q net"
  obtain r1 d1 where sub: "submit_all ?tr ts 0 (exampleTasks stamp) d = (Some r1, d1)"
    using answers_submit [OF api_answers] by blast
  show ?thesis
  proof (cases r1)
    case (Inr ids)
    with sub have "length ids = 4" by (intro example_ids) simp
    then have "ids \<noteq> []" by auto
    note poll_until_api [OF this, of cfg q net ts 4 "start + 180 * 1000000000" nows d1]
    moreover have "\<exists>now \<in> set nows. start + 180 * 1000000000 < now" using assms by (intro bexI [OF _ nth_mem]) auto
    note poll_until_ends [OF api_answers this, of cfg q net ts 4 ids "[]" d1]
    ultimately show ?thesis using sub Inr by (auto simp: run_submit_def)
  qed (use sub in \<open>simp add: run_submit_def\<close>)
qed

text \<open>
  A database in which everything the client asks for has been done: whenever a handler starts, the tasks
  have succeeded.
\<close>

definition all_done :: "db \<Rightarrow> db" where
  "all_done d = d\<lparr>d_tasks := map (\<lambda>t. t\<lparr>t_status := Succeeded\<rparr>) (d_tasks d)\<rparr>"

definition finished_api :: "nat \<Rightarrow> db api_env" where
  "finished_api k = \<lparr>q_env = (\<lambda>j. demo_env (20 + 5 * int k + int j)), q_other = (\<lambda>_. all_done)\<rparr>"

lemma submit_always_fails_witness:
  "fst (run_submit (api_transport defaults finished_api (\<lambda>_. Delivered)) (\<lambda>_. []) [] 0 [1, 181 * 1000000000] demo_db) =
     Finished (Inl TimedOut)"
proof -
  let ?r = "fst (run_submit (api_transport defaults finished_api (\<lambda>_. Delivered)) (\<lambda>_. []) [] 0 [1, 181 * 1000000000] demo_db)"
  have "\<exists>e. ?r = Finished (Inl e)" by (rule submit_always_fails [of 1]) simp_all
  moreover have "\<not> (case ?r of Finished (Inl (SubmitFailed _ _)) \<Rightarrow> True | _ \<Rightarrow> False)" by code_simp
  ultimately show ?thesis by (auto split: run_error.splits)
qed

end
