(* ===== verification/Spec2Isabelle.thy ===== *)
theory Spec2Isabelle
  imports ETQ_Server ETQ_Writer ETQ_Concurrent ETQ_Cycle ETQ_Events ETQ_Recovery ETQ_Boot ETQ_Flags ETQ_Handlers ETQ_Submit
begin

text \<open>
  ErmineTQ is a task queue for local services: producers store tasks in one SQLite database, in-process
  and remote workers claim and run them, schedulers retry, time out and repeat them.  This library
  models its Go packages as Isabelle functions and state machines and proves what makes them correct.
  Every definition is a translation of the code named in the text before it.

  \<^bold>\<open>Parts of the program and how they interact.\<close>  The store (internal/store) is the only owner of the
  database.  Its writing methods are transactions that one goroutine executes in turn; its reading
  methods are single queries.  The worker pool (internal/queue), the scheduler goroutines
  (internal/scheduler) and the HTTP handlers (internal/api) see it through Go interfaces and change the
  state only through its methods.  After a commit the store emits an event, which the broker
  (internal/api/broker.go) fans out to the subscribers of the event stream.  cmd/server/main.go puts
  the parts together with the configuration of internal/config and the handlers of examples/go/handlers,
  and starts and stops them; examples/go has a second server and a client that submits tasks and polls.

  \<^bold>\<open>Theories and the code they model.\<close>

  \<^item> ETQ_Prelude: generic lemmas on lists, rows found by a key and maps, and the collections the
    component proofs draw on.
  \<^item> ETQ_Models (models.go, id.go): the structs as records, the enumerations as datatypes, the database
    as a record with one list of rows per table, times as nanoseconds and their stored form in seconds.
  \<^item> ETQ_Config (config.go): limits, defaults, validation, the file and environment that are read.
  \<^item> ETQ_Tx (store.go): transactions as functions from the database to an error or a value and the
    working copy they leave, which execTx commits or rolls back; statements that may fail; write and emit as
    one caller sees them.
  \<^item> ETQ_Tasks, ETQ_Workers, ETQ_Schedules, ETQ_Claim, ETQ_Attempts, ETQ_Control, ETQ_Maintenance: the
    methods of the store, one theory per file of internal/store, each the transaction body, the method
    around it and the events it emits.
  \<^item> ETQ_Machine: all methods as one datatype of calls, apply_op, and the inductive predicate reachable:
    the databases that sequences of calls lead to, under any faults and any supply of fresh IDs.  The
    locale store_invariant reduces an invariant of the store to one obligation per row update.
  \<^item> ETQ_Invariants, ETQ_Lifecycle: the invariants (limits, keys, loads, agreement of tasks with
    attempts, numbering of attempts) and the abstract life cycle of a task that the calls refine.
  \<^item> ETQ_Runs: concrete runs of the store, on which the witnesses evaluate.
  \<^item> ETQ_StoreTheorems, ETQ_StoreOps: the properties of the store as a whole and of its methods.
  \<^item> ETQ_Writer (store.go): writeCh, writeLoop, write and Close as a state machine over the callers, the
    buffered channel and the loop.
  \<^item> ETQ_Concurrent: the write queue of ETQ_Writer with the transaction bodies of the store's methods as
    its requests, related to the calls of ETQ_Machine.  ETQ_Cycle: the calls of one goroutine through
    the queue, seen as calls with interference in between, for the cycle of a worker.  ETQ_Events
    (SetEventSink and emit of store.go): queue and broker side by side, joined by the callers that
    emit the events of what they committed.
  \<^item> ETQ_Scheduler (internal/scheduler): the interface to the store, the next run of a schedule and the
    passes of its three goroutines.  ETQ_Sweep: what one undisturbed pass over the stale attempts achieves.
  \<^item> ETQ_Queue (internal/queue): the registry of handlers, one cycle of a worker, the pool.  ETQ_Drain:
    what an undisturbed worker gets done.  ETQ_Recovery: sweep, retry scheduler and worker together.
  \<^item> ETQ_Broker (broker.go): the fan-out of events to bounded subscriber buffers.
  \<^item> ETQ_Strings: the functions of Go's strings and strconv that the rest uses.
  \<^item> ETQ_API (tasks.go, pull_worker.go, workers.go, schedules.go, helpers.go, events.go, handler.go):
    one function per route, from the decoded request to the response and the new database.
  \<^item> ETQ_Migrate (migrate.go): file names, splitting into statements, the loop over pending files.
  \<^item> ETQ_Server (cmd/server/main.go): subcommands, loading of the configuration, and the predicate
    system: the steps of pool, schedulers and API interleaved.
  \<^item> ETQ_Flags (cmd/server/main.go): parseServerFlags and parseMigrateFlags over the parser of Go's flag
    package.
  \<^item> ETQ_Boot (Open of store.go, cmd/server/main.go, internal/api/server.go, examples/go/server): opening
    the store with its error paths, and a server process as a state machine of its main goroutine, whose
    function is a list of instructions with deferred calls, and of the goroutines it starts, each at the
    select of its loop or in a round.
  \<^item> ETQ_Files: the functions of Go's path/filepath and os that the handlers use, on a file system that
    maps locations to contents.
  \<^item> ETQ_Utf8: the text a Go string is in JSON, and what a cut of it leaves.
  \<^item> ETQ_Handlers (examples/go/handlers): the four built-in task handlers and their registration.
  \<^item> ETQ_Submit (examples/go/submit): the client, against any server and against the handlers of ETQ_API.
  \<^item> Spec2Isabelle, this theory: the property of the whole server.

  \<^bold>\<open>Correspondence of state and operations.\<close>  A struct is a record with a field per Go field, an
  enumeration a datatype, a nil pointer is None, a table the list of its rows in order of insertion,
  an int an integer, a Duration a 64-bit word where it can overflow.  A method is a function of its
  arguments, an environment record and the database.  The environment holds what the code does not
  determine: the clock, the IDs NewID returns, which statements fail (indexed by the text of the
  code's error), and the fate of the caller's context.  Theorems hold for every environment, except
  that reachable asks for fresh IDs.  Goroutines that interleave are either a state machine with one
  action per step (write queue, broker, system) or a function argument that may change the database
  between two store calls of the same goroutine (cycles, passes and requests); the theorems assume of it only
  that it leads from reachable databases to reachable ones, or nothing.

  \<^bold>\<open>Interfaces.\<close>  The Go interfaces of internal/queue, internal/scheduler and internal/api are records of
  operations, and the locales task_store, sched_store and api_store state what a client relies on; the
  interpretations pool_store, scheds, api and api_hb discharge them for the model of the store.  db_table is the contract of a table of the
  database, interpreted once per table; store_invariant is interpreted once per invariant (base_inv,
  rows_inv, loads_inv, limits_inv, history_inv, agree_inv, budget_inv).

  \<^bold>\<open>What the lemmas show.\<close>  For the store: limits, unique keys, counters, the agreement of tasks with
  their attempts and an append-only history are invariants; every call is a step of the abstract
  life cycle; claiming takes the first due task by priority and excludes other claims; retries are
  bounded; control actions are refused outside their source states and done from them; a method is all or nothing,
  although its statements fail one by one.  For
  the clients: a cycle reports what its handler returned; errors of the API change nothing; migration
  is whole and idempotent, and Open returns a store only after all of it; write requests serialise,
  in an order that respects real time, and the queue with the store's own transactions in it implements
  the store machine; a worker's cycle through the queue is a cycle with the other goroutines' calls as its
  interference, and what it reported stays; subscribers receive a subsequence in order, of events that
  committed calls emit and that the timeline has; a sweep settles what it found stale, whatever others do; an undisturbed sweep leaves nothing
  stale, an undisturbed worker executes every due task of its queue, and the two with the retry scheduler
  between them bring back a task whose worker died.  For the processes: a server that ends without an
  error has waited for all it started and closes the store last; once its context is over only a number of its own
  steps that is computed from its state is left, and one of them is possible until it has exited, unless it
  waits for a part whose goroutines are all in a round that has not returned; the write loop ends likewise
  after Close, with every waiting call answered; settings written as flags are read back; the built-in
  handlers stay in their directory and read what they wrote, as far as JSON carries it; pages of a listing
  fit together when ties are broken alike; the example client returns if every exchange does.
  Some theorems show behaviours of the code that are easily missed: a
  cancelled task that succeeds, more running attempts than the limit after a halt, a write that waits
  after Close, an interval schedule that fires twice, an interval that overflows, pull workers without
  heartbeats, an example server that hangs on an error, a client that never sees a task finish or waits
  for an exchange without end, a file name that blocks the output directory, a cancelled task that runs
  again, pages of a listing that repeat one task and miss another.

  \<^bold>\<open>Bounds and loops.\<close>  The channel capacities are those of the code: 64 write requests, 256 events of
  input, 64 per subscriber.  The client's 182 rounds follow from its deadline of three minutes and its
  pause of a second.  No function uses fuel: the loops of the code that end recur on the list
  they range over; the loops that run until their context ends take the finite list of their wake-ups
  (or rounds) as an argument, and the theorems hold for every such list.

  \<^bold>\<open>Parameters.\<close>  Not under the repository, hence arguments: the cron parser (standardParser of
  robfig/cron), the TOML decoder, os.Stat and the environment variables of the configuration, the SQL engine
  that executes migration files, the handlers a pool runs (functions of deadline and payload that return), the HTTP client of HTTPFetch, the Ollama service,
  the JSON decoder of the handlers' payloads and the encoder of their outputs, which file calls fail and
  with what, the transport between the example client and its server.  The file system has no symbolic
  links.  Queries of the store are modelled by what SQL says of the
  statement in the code: selection, order and limit on the list of rows, an update of the matching
  rows, a failing insert on a duplicate key.

  \<^bold>\<open>Not modelled.\<close>  JSON encoding and decoding of HTTP bodies (a request is given decoded, or as one that
  does not decode; for the example client a response is the object its encoding stands for); net/http
  beyond what Start and Shutdown rely on; logging and the texts that are printed; a signal before
  NotifyContext has been called; what the pragmas of Open do in SQLite; real time, that is, tickers fire
  in any pattern; the contents of IDs (NewID is a supply of values, required fresh where a theorem needs
  it); what a handler does while it runs; other goroutines between the UPDATE of UpdateSchedule and its reading
  back; the dashboard, which is a package comment; the Python SDK, another language and a client of the API.

  \<^bold>\<open>Where the parts are joined.\<close>  system lets the parts of the server interleave at their store calls;
  log_with_others derives such interleavings from the write queue for any of a goroutine's calls, and
  cycle_through_queue applies it to a worker's cycle.  It is not carried out for scheduler passes and
  requests, whose reads go past the queue.  The server process of ETQ_Boot counts its goroutines and their
  rounds and does not say what a round does; closing the store is one step there.
\<close>

section \<open>The system\<close>

text \<open>C1: The whole server keeps the store's promises: from a configuration that loaded and an empty database,
  whatever the pool, the schedulers and the clients of the API do, in any order and interleaved in any way,
  under any faults, at most the configured number of tasks is running, overall, per queue and per type; IDs are
  unique and every attempt and event has its task; every worker's counter is the number of attempts it runs; and
  the attempts of every task are numbered from one.\<close>

theorem system_sound:
  assumes "loadConfig st decode env_config env_db config_flag db_flag = Inr (cfg, path)"
    and "system cfg reg parse d"
  shows "running_count (\<lambda>_. True) d \<le> c_global cfg \<and>
    (QueueLimit cfg q \<noteq> 0 \<longrightarrow> running_count (\<lambda>t. t_queue t = q) d \<le> QueueLimit cfg q) \<and>
    (TaskTypeLimit cfg tt \<noteq> 0 \<longrightarrow> running_count (\<lambda>t. t_type t = tt) d \<le> TaskTypeLimit cfg tt) \<and>
    keys_ok d \<and> tasks_exist d \<and> loads_ok d \<and> history_ok d"
proof -
  note valid = loadConfig_valid [OF assms(1)] and r = system_reachable [OF assms(2)]
  show ?thesis
    using limits_inv.always [OF r] base_inv.always [OF r] loads_inv.always [OF r] history_inv.always [OF r]
      QueueLimit_nonneg [OF valid, of q] TaskTypeLimit_nonneg [OF valid, of tt] valid
    by (auto simp: limits_ok_def validate_None base_ok_def)
qed

lemma system_sound_witness:
  "running_count (\<lambda>_. True) worked_db \<le> 128 \<and> keys_ok worked_db \<and> length (d_attempts worked_db) = 1"
proof -
  have none: "by_calls cfg (\<lambda>_ d. d)" for cfg by (simp add: by_calls_def)
  have "system demo_cfg demo_registry (\<lambda>_. Inl ErrDriver) pool_db"
    unfolding pool_db_def
    by (rule system.pool [OF system.boot _ prod.collapse [symmetric]]) code_simp
  then have "system demo_cfg demo_registry (\<lambda>_. Inl ErrDriver) posted_db"
    unfolding posted_db_def
    by (rule system.request [OF _ _ _ prod.collapse [symmetric]]) (simp add: demo_api_def none, code_simp)
  then have sys: "system demo_cfg demo_registry (\<lambda>_. Inl ErrDriver) worked_db"
    unfolding worked_db_def
    by (rule system.cycle [OF _ _ _ prod.collapse [symmetric]]) (simp_all add: demo_cycle_def none)
  have cfg: "loadConfig (\<lambda>_. StatNotExist) (\<lambda>_ _. None) [] [] [] [] = Inr (demo_cfg, ''erminetq.db'')"
    by (simp add: loadConfig_def Load_def defaults_def demo_cfg_def validate_def DefaultGlobalLimit_def)
  have "c_global demo_cfg = 128" "length (d_attempts worked_db) = 1" by code_simp+
  with system_sound [OF cfg sys] show ?thesis by simp
qed

end
